(* ===== verification/Prelude.thy ===== *)
theory Prelude
  imports Main "HOL-Library.Word"
begin

text \<open>
  Shared vocabulary of the development: the ways a C++ operation of Lorica can fail, the
  result type that carries them, and the generic lemmas on options, lists and sums that
  the component theories share.

  \<^item> \<open>fault\<close> lists what ends a C++ computation without a value: undefined behaviour that the
    code runs into (a null dereference, an access to a freed object, a use of a member that was never set, a subscript beyond the
    end of a string), a failed \<open>ACE_ASSERT\<close>, and a thrown exception, by its name.
  \<^item> \<open>'a result\<close> is \<open>fault + 'a\<close>; \<open>bindR\<close> sequences two computations, the first fault wins.
\<close>

named_theorems result_simps \<open>equations of the result combinators\<close>

datatype fault =
    NullDeref
  | UseAfterFree
  | BadSubscript
  | AssertFailed
  | Uninitialised
  | Thrown string

type_synonym 'a result = "fault + 'a"

abbreviation Ok :: "'a \<Rightarrow> 'a result" where
  "Ok \<equiv> Inr"

abbreviation Fault :: "fault \<Rightarrow> 'a result" where
  "Fault \<equiv> Inl"

definition bindR :: "'a result \<Rightarrow> ('a \<Rightarrow> 'b result) \<Rightarrow> 'b result" where
  "bindR m f = (case m of Inl e \<Rightarrow> Inl e | Inr x \<Rightarrow> f x)"

lemma bindR_simps [simp, result_simps]:
  "bindR (Inl e) f = Inl e"
  "bindR (Inr x) f = f x"
  by (simp_all add: bindR_def)

lemma bindR_eq_Ok:
  "bindR m f = Inr y \<longleftrightarrow> (\<exists>x. m = Inr x \<and> f x = Inr y)"
  by (cases m) auto

lemma bindR_eq_Fault:
  "bindR m f = Inl e \<longleftrightarrow> m = Inl e \<or> (\<exists>x. m = Inr x \<and> f x = Inl e)"
  by (cases m) auto

lemma bindR_assoc: "bindR (bindR m f) g = bindR m (\<lambda>x. bindR (f x) g)"
  by (cases m) auto

lemma bindR_cong [fundef_cong]:
  "m = m' \<Longrightarrow> (\<And>x. m' = Inr x \<Longrightarrow> f x = g x) \<Longrightarrow> bindR m f = bindR m' g"
  by (cases m') auto

lemma bindR_Ok [simp, result_simps]: "bindR m Inr = m"
  by (cases m) auto

text \<open>The dereference of a pointer that may be null.\<close>

definition deref :: "'a option \<Rightarrow> 'a result" where
  "deref p = (case p of None \<Rightarrow> Inl NullDeref | Some x \<Rightarrow> Inr x)"

lemma deref_simps [simp, result_simps]:
  "deref None = Inl NullDeref"
  "deref (Some x) = Inr x"
  by (simp_all add: deref_def)

lemma deref_eq_Ok [simp]: "deref p = Inr x \<longleftrightarrow> p = Some x"
  by (cases p) auto

lemma nth_list_update_if:
  "i < length xs \<Longrightarrow> xs[i := v] ! j = (if j = i then v else xs ! j)"
  by (auto simp: nth_list_update)

text \<open>A list of pages of equal length, read and written as one list.\<close>

lemma length_concat_pages:
  "\<forall>p \<in> set ps. length p = n \<Longrightarrow> length (concat ps) = length ps * n"
  by (induction ps) auto

lemma concat_pages_nth:
  "\<forall>p \<in> set ps. length p = n \<Longrightarrow> k < length ps \<Longrightarrow> j < n \<Longrightarrow>
   concat ps ! (k * n + j) = ps ! k ! j"
proof (induction ps arbitrary: k)
  case (Cons p ps)
  then show ?case by (cases k) (simp_all add: nth_append)
qed simp

lemma concat_pages_update:
  "\<forall>p \<in> set ps. length p = n \<Longrightarrow> k < length ps \<Longrightarrow> j < n \<Longrightarrow>
   concat (ps[k := (ps ! k)[j := v]]) = (concat ps)[k * n + j := v]"
proof (induction ps arbitrary: k)
  case (Cons p ps)
  then show ?case by (cases k) (simp_all add: list_update_append)
qed simp

lemma count_list_update:
  "i < length xs \<Longrightarrow>
   count_list (xs[i := v]) x + (if xs ! i = x then 1 else 0) = count_list xs x + (if v = x then 1 else 0)"
proof (induction xs arbitrary: i)
  case (Cons y xs)
  show ?case
  proof (cases i)
    case (Suc j)
    with Cons.IH [of j] Cons.prems show ?thesis by (cases "y = x") auto
  qed simp
qed simp

lemma unat_eq_unat: "unat x = unat y \<longleftrightarrow> x = y"
  by (rule word_eq_iff_unsigned [symmetric])

text \<open>Sequencing of computations that may fault or not end: \<^term>\<open>None\<close> is a walk that never ends.\<close>

definition bindP :: "'a result option \<Rightarrow> ('a \<Rightarrow> 'b result option) \<Rightarrow> 'b result option" where
  "bindP m f = Option.bind m (\<lambda>r. case r of Inl e \<Rightarrow> Some (Inl e) | Inr x \<Rightarrow> f x)"

lemma bindP_simps [simp]:
  "bindP None f = None" "bindP (Some (Inl e)) f = Some (Inl e)" "bindP (Some (Inr x)) f = f x"
  by (simp_all add: bindP_def)

lemma bindP_assoc: "bindP (bindP m f) g = bindP m (\<lambda>x. bindP (f x) g)"
  by (cases m rule: option.exhaust [case_product sum.exhaust]) (auto simp: bindP_def split: option.split sum.split)

lemma bindP_cong [fundef_cong]:
  "m = m' \<Longrightarrow> (\<And>x. m' = Some (Inr x) \<Longrightarrow> f x = g x) \<Longrightarrow> bindP m f = bindP m' g"
  by (auto simp: bindP_def split: option.split sum.split intro: Option.bind_cong)

lemma bindP_Some: "bindP (Some r) (\<lambda>x. Some (f x)) = Some (bindR r f)"
  by (cases r) simp_all

lemma bindP_mono [partial_function_mono]:
  assumes "mono_option B" and "\<And>y. mono_option (\<lambda>f. C y f)"
  shows "mono_option (\<lambda>f. bindP (B f) (\<lambda>y. C y f))"
proof -
  have "mono_option (\<lambda>f. case r of Inl e \<Rightarrow> Some (Inl e) | Inr x \<Rightarrow> C x f)" for r
    by (cases r) (simp_all add: assms(2) option.const_mono)
  then show ?thesis unfolding bindP_def by (intro bind_mono assms(1))
qed

end
