(* ===== verification/Action.thy ===== *)
theory Action
  imports Prelude
begin

text \<open>
  Computations on a state that may throw, fault or not end, for the code that keeps what it has done when an
  exception leaves it: an action maps a state to its result and the state afterwards, also when the result is a fault.
  \<^term>\<open>None\<close> is a computation that never ends.
\<close>

type_synonym ('s, 'a) act = "'s \<Rightarrow> ('a result \<times> 's) option"

definition retA :: "'a \<Rightarrow> ('s, 'a) act" where
  "retA x s = Some (Ok x, s)"

definition failA :: "fault \<Rightarrow> ('s, 'a) act" where
  "failA e s = Some (Fault e, s)"

definition bindA :: "('s, 'a) act \<Rightarrow> ('a \<Rightarrow> ('s, 'b) act) \<Rightarrow> ('s, 'b) act" where
  "bindA m f s = (case m s of
       None \<Rightarrow> None
     | Some (Inl e, s) \<Rightarrow> Some (Inl e, s)
     | Some (Inr x, s) \<Rightarrow> f x s)"

definition seqA :: "('s, unit) act \<Rightarrow> ('s, 'b) act \<Rightarrow> ('s, 'b) act" where
  "seqA m n = bindA m (\<lambda>_. n)"

definition readA :: "('s \<Rightarrow> 'a) \<Rightarrow> ('s, 'a) act" where
  "readA f s = Some (Ok (f s), s)"

definition modA :: "('s \<Rightarrow> 's) \<Rightarrow> ('s, unit) act" where
  "modA f s = Some (Ok (), f s)"

text \<open>An exception leaves unless the condition holds.\<close>

definition orA :: "bool \<Rightarrow> fault \<Rightarrow> ('s, unit) act" where
  "orA b e = (if b then retA () else failA e)"

text \<open>\<open>try\<close> with one \<open>catch (...)\<close>: exceptions are handled, other faults are not.\<close>

definition catchA :: "('s, 'a) act \<Rightarrow> (string \<Rightarrow> ('s, 'a) act) \<Rightarrow> ('s, 'a) act" where
  "catchA m h s = (case m s of
       Some (Inl (Thrown ex), s) \<Rightarrow> h ex s
     | r \<Rightarrow> r)"

text \<open>A computation on a part of the state.\<close>

definition liftR :: "('s \<Rightarrow> ('a \<times> 's) result) \<Rightarrow> ('s, 'a) act" where
  "liftR m s = Some (case m s of Inl e \<Rightarrow> (Inl e, s) | Inr (x, s) \<Rightarrow> (Inr x, s))"

definition liftP :: "('s \<Rightarrow> 's result option) \<Rightarrow> ('s, unit) act" where
  "liftP m s = (case m s of None \<Rightarrow> None | Some (Inl e) \<Rightarrow> Some (Inl e, s) | Some (Inr s) \<Rightarrow> Some (Inr (), s))"

lemma act_simps [simp]:
  "retA x s = Some (Ok x, s)" "failA e s = Some (Fault e, s)" "readA f s = Some (Ok (f s), s)" "modA g s = Some (Ok (), g s)"
  "orA True e = retA ()" "orA False e = failA e"
  by (simp_all add: retA_def failA_def readA_def modA_def orA_def)

lemma bindA_run [simp]:
  "m s = Some (Inr x, s') \<Longrightarrow> bindA m f s = f x s'"
  "m s = Some (Inl e, s') \<Longrightarrow> bindA m f s = Some (Inl e, s')"
  "m s = None \<Longrightarrow> bindA m f s = None"
  by (simp_all add: bindA_def)

lemma bindA_OkE:
  assumes "bindA m f s = Some (Inr y, s')"
  obtains x s1 where "m s = Some (Inr x, s1)" "f x s1 = Some (Inr y, s')"
  using assms by (auto simp: bindA_def split: option.splits sum.splits prod.splits)

lemma seqA_run [simp]:
  "m s = Some (Inr x, s') \<Longrightarrow> seqA m n s = n s'"
  "m s = Some (Inl e, s') \<Longrightarrow> seqA m n s = Some (Inl e, s')"
  by (simp_all add: seqA_def)

lemma seqA_step: "m s = Some (Ok (), s') \<Longrightarrow> n s' = r \<Longrightarrow> seqA m n s = r"
  by simp

lemma catchA_run [simp]:
  "m s = Some (Inr x, s') \<Longrightarrow> catchA m h s = Some (Inr x, s')"
  "m s = Some (Inl (Thrown ex), s') \<Longrightarrow> catchA m h s = h ex s'"
  by (simp_all add: catchA_def)

text \<open>What every action of a sequence keeps, the sequence keeps.\<close>

definition keeps :: "('s \<Rightarrow> bool) \<Rightarrow> ('s, 'a) act \<Rightarrow> bool" where
  "keeps P m \<longleftrightarrow> (\<forall>s r s'. P s \<longrightarrow> m s = Some (r, s') \<longrightarrow> P s')"

lemma keepsD: "keeps P m \<Longrightarrow> m s = Some (r, s') \<Longrightarrow> P s \<Longrightarrow> P s'"
  by (auto simp: keeps_def)

lemma keeps_basic [intro, simp]:
  "keeps P (retA x)" "keeps P (failA e)" "keeps P (readA f)" "keeps P (orA b e)"
  by (auto simp: keeps_def orA_def)

lemma keeps_if [intro]: "keeps P m \<Longrightarrow> keeps P n \<Longrightarrow> keeps P (if b then m else n)"
  by simp

lemma keeps_modA: "(\<And>s. P s \<Longrightarrow> P (f s)) \<Longrightarrow> keeps P (modA f)"
  by (auto simp: keeps_def)

lemma keeps_bindA [intro]: "keeps P m \<Longrightarrow> (\<And>x. keeps P (f x)) \<Longrightarrow> keeps P (bindA m f)"
proof (unfold keeps_def, intro allI impI)
  fix s r s'
  assume m: "\<forall>s r s'. P s \<longrightarrow> m s = Some (r, s') \<longrightarrow> P s'" and f: "\<And>x. \<forall>s r s'. P s \<longrightarrow> f x s = Some (r, s') \<longrightarrow> P s'"
    and "P s" and run: "bindA m f s = Some (r, s')"
  obtain r0 s0 where m0: "m s = Some (r0, s0)" using run by (cases "m s") (auto simp: bindA_def)
  have "P s0" using m m0 \<open>P s\<close> by blast
  show "P s'"
  proof (cases r0)
    case (Inl e)
    with run m0 \<open>P s0\<close> show ?thesis by simp
  next
    case (Inr x)
    with run m0 have "f x s0 = Some (r, s')" by simp
    with f [of x] \<open>P s0\<close> show ?thesis by blast
  qed
qed

lemma keeps_seqA [intro]: "keeps P m \<Longrightarrow> keeps P n \<Longrightarrow> keeps P (seqA m n)"
  by (simp add: seqA_def keeps_bindA)

lemma keeps_catchA [intro]: "keeps P m \<Longrightarrow> (\<And>ex. keeps P (h ex)) \<Longrightarrow> keeps P (catchA m h)"
proof (unfold keeps_def, intro allI impI)
  fix s r s'
  assume m: "\<forall>s r s'. P s \<longrightarrow> m s = Some (r, s') \<longrightarrow> P s'" and h: "\<And>ex. \<forall>s r s'. P s \<longrightarrow> h ex s = Some (r, s') \<longrightarrow> P s'"
    and "P s" and run: "catchA m h s = Some (r, s')"
  obtain r0 s0 where m0: "m s = Some (r0, s0)" using run by (cases "m s") (auto simp: catchA_def)
  have "P s0" using m m0 \<open>P s\<close> by blast
  then show "P s'" using h run m0 by (auto simp: catchA_def split: sum.splits fault.splits)
qed

text \<open>What holds when an exception leaves an action.\<close>

definition throw_keeps :: "('s \<Rightarrow> bool) \<Rightarrow> ('s, 'a) act \<Rightarrow> bool" where
  "throw_keeps P m \<longleftrightarrow> (\<forall>s ex s'. P s \<longrightarrow> m s = Some (Fault (Thrown ex), s') \<longrightarrow> P s')"

lemma throw_keeps_bindA: "keeps P m \<Longrightarrow> (\<And>x. throw_keeps P (f x)) \<Longrightarrow> throw_keeps P (bindA m f)"
proof (unfold throw_keeps_def, intro allI impI)
  fix s ex s'
  assume m: "keeps P m" and f: "\<And>x. \<forall>s ex s'. P s \<longrightarrow> f x s = Some (Fault (Thrown ex), s') \<longrightarrow> P s'"
    and "P s" and run: "bindA m f s = Some (Fault (Thrown ex), s')"
  obtain r0 s0 where m0: "m s = Some (r0, s0)" using run by (cases "m s") (auto simp: bindA_def)
  have "P s0" using keepsD [OF m m0 \<open>P s\<close>] .
  show "P s'"
  proof (cases r0)
    case (Inl e)
    with run m0 \<open>P s0\<close> show ?thesis by simp
  next
    case (Inr x)
    with run m0 have "f x s0 = Some (Fault (Thrown ex), s')" by simp
    with f [of x] \<open>P s0\<close> show ?thesis by blast
  qed
qed

lemma throw_keeps_seqA: "keeps P m \<Longrightarrow> throw_keeps P n \<Longrightarrow> throw_keeps P (seqA m n)"
  by (simp add: seqA_def throw_keeps_bindA)

end
