(* ===== verification/Cpp_String.thy ===== *)
theory Cpp_String
  imports Prelude
begin

text \<open>
  The parts of the C++ and C standard libraries that Lorica's configuration code is written
  with: the searches and the substring of \<open>std::string\<close> (\<open>npos\<close> is \<^term>\<open>None\<close>), the C string
  behind \<open>c_str()\<close>, \<open>strtol\<close> in base 10 and its narrowing to \<open>int\<close>, and \<open>strcasecmp\<close> as an
  equality test. A \<open>long\<close> has 64 bits and an \<open>int\<close> 32, as on the LP64 platforms Lorica is
  built for.

  The last part is the generic loop that cuts a string at every occurrence of a separator,
  which Lorica writes out four times: \<open>split_on\<close> is its specification, \<open>pieces\<close> the loop over
  positions that the sources run.
\<close>

subsection \<open>Searching and cutting\<close>

primrec index_of :: "char \<Rightarrow> string \<Rightarrow> nat option" where
  "index_of c [] = None"
| "index_of c (x # xs) = (if x = c then Some 0 else map_option Suc (index_of c xs))"

text \<open>\<open>s.find(c, pos)\<close>\<close>

definition str_find :: "char \<Rightarrow> string \<Rightarrow> nat \<Rightarrow> nat option" where
  "str_find c s pos = map_option (\<lambda>i. pos + i) (index_of c (drop pos s))"

text \<open>\<open>s.rfind(c)\<close>\<close>

primrec str_rfind :: "char \<Rightarrow> string \<Rightarrow> nat option" where
  "str_rfind c [] = None"
| "str_rfind c (x # xs) =
     (case str_rfind c xs of
        Some i \<Rightarrow> Some (Suc i)
      | None \<Rightarrow> if x = c then Some 0 else None)"

primrec sub_index :: "string \<Rightarrow> string \<Rightarrow> nat option" where
  "sub_index t [] = (if t = [] then Some 0 else None)"
| "sub_index t (x # xs) =
     (if take (length t) (x # xs) = t then Some 0 else map_option Suc (sub_index t xs))"

text \<open>\<open>s.find(t, pos)\<close> for a string \<open>t\<close>\<close>

definition str_find_sub :: "string \<Rightarrow> string \<Rightarrow> nat \<Rightarrow> nat option" where
  "str_find_sub t s pos =
     (if pos \<le> length s then map_option (\<lambda>i. pos + i) (sub_index t (drop pos s)) else None)"

text \<open>
  \<open>s.substr(pos, n)\<close> and \<open>s.substr(pos)\<close>. The library throws when \<open>pos\<close> is beyond the end;
  every position Lorica passes comes from a search in the same string, so that it is not
  (\<open>str_find_less\<close> and \<open>str_find_sub_bound\<close> below).
\<close>

definition substr :: "string \<Rightarrow> nat \<Rightarrow> nat \<Rightarrow> string" where
  "substr s pos n = take n (drop pos s)"

definition substr_from :: "string \<Rightarrow> nat \<Rightarrow> string" where
  "substr_from s pos = drop pos s"

text \<open>The characters a C function sees through \<open>s.c_str()\<close>: up to the first NUL.\<close>

definition c_str :: "string \<Rightarrow> string" where
  "c_str s = takeWhile (\<lambda>c. c \<noteq> CHR 0x00) s"

lemma index_of_None [simp]: "index_of c s = None \<longleftrightarrow> c \<notin> set s"
  by (induction s) auto

lemma index_of_notin [simp]: "c \<notin> set s \<Longrightarrow> index_of c s = None"
  by simp

lemma index_of_Some_takeWhile:
  "index_of c s = Some i \<Longrightarrow> i < length s \<and> take i s = takeWhile (\<lambda>x. x \<noteq> c) s \<and> s ! i = c"
  by (induction s arbitrary: i) auto

lemma index_of_append:
  "c \<notin> set xs \<Longrightarrow> index_of c (xs @ c # ys) = Some (length xs)"
  by (induction xs) auto

lemma str_find_None: "str_find c s pos = None \<longleftrightarrow> c \<notin> set (drop pos s)"
  by (simp add: str_find_def)

lemma str_find_notin [simp]: "c \<notin> set (drop pos s) \<Longrightarrow> str_find c s pos = None"
  by (simp add: str_find_None)

lemma str_find_ge: "str_find c s pos = Some i \<Longrightarrow> pos \<le> i"
  by (auto simp: str_find_def)

lemma str_find_less: "str_find c s pos = Some i \<Longrightarrow> i < length s"
  by (auto simp: str_find_def dest: index_of_Some_takeWhile)

lemma str_find_shrinks:
  "str_find c s pos = Some i \<Longrightarrow> length s - Suc i < length s - pos"
  "Some i = str_find c s pos \<Longrightarrow> length s - Suc i < length s - pos"
proof -
  show "length s - Suc i < length s - pos" if "str_find c s pos = Some i"
    using str_find_ge [OF that] str_find_less [OF that] by arith
  then show "length s - Suc i < length s - pos" if "Some i = str_find c s pos"
    using that by simp
qed

lemma str_find_0 [simp]: "str_find c s 0 = index_of c s"
  by (simp add: str_find_def option.map_ident)

lemma str_rfind_None [simp]: "str_rfind c s = None \<longleftrightarrow> c \<notin> set s"
  by (induction s) (auto split: option.splits)

lemma str_rfind_notin [simp]: "c \<notin> set s \<Longrightarrow> str_rfind c s = None"
  by simp

lemma str_rfind_append [simp]:
  "c \<notin> set ys \<Longrightarrow> str_rfind c (xs @ c # ys) = Some (length xs)"
  by (induction xs) (auto split: option.splits)

lemma str_rfind_Some:
  "str_rfind c s = Some i \<Longrightarrow> i < length s \<and> s ! i = c"
  by (induction s arbitrary: i) (auto split: option.splits if_splits)

lemma sub_index_bound: "sub_index t s = Some i \<Longrightarrow> i + length t \<le> length s"
proof (induction s arbitrary: i)
  case (Cons x xs)
  show ?case
  proof (cases "take (length t) (x # xs) = t")
    case True
    then have "length t \<le> length (x # xs)" by (metis length_take min.cobounded1)
    with True Cons.prems show ?thesis by (simp split: if_splits)
  next
    case False
    with Cons.prems obtain j where j: "sub_index t xs = Some j" and "i = Suc j"
      by auto
    with Cons.IH [OF j] show ?thesis by simp
  qed
qed (auto split: if_splits)

lemma str_find_sub_bound:
  "str_find_sub t s pos = Some i \<Longrightarrow> pos \<le> i \<and> i + length t \<le> length s"
  by (auto simp: str_find_sub_def split: if_splits dest: sub_index_bound)

lemma sub_index_self [simp]: "sub_index t (t @ ys) = Some 0"
proof (cases "t @ ys")
  case (Cons x xs)
  then have "take (length t) (x # xs) = t" by (metis append_eq_conv_conj)
  with Cons show ?thesis by simp
qed simp

lemma c_str_id: "CHR 0x00 \<notin> set s \<Longrightarrow> c_str s = s"
  unfolding c_str_def by (rule takeWhile_eq_all_conv [THEN iffD2]) blast

lemma c_str_idem [simp]: "c_str (c_str s) = c_str s"
  unfolding c_str_def by (induction s) (auto dest: set_takeWhileD)

subsection \<open>Numbers\<close>

text \<open>The decimal digits and the white space of the C locale.\<close>

definition isspace :: "char \<Rightarrow> bool" where
  "isspace c \<longleftrightarrow> c = CHR '' '' \<or> c = CHR 0x09 \<or> c = CHR 0x0A \<or> c = CHR 0x0B \<or> c = CHR 0x0C
     \<or> c = CHR 0x0D"

definition isdigit :: "char \<Rightarrow> bool" where
  "isdigit c \<longleftrightarrow> 48 \<le> (of_char c :: nat) \<and> (of_char c :: nat) \<le> 57"

definition digit_val :: "char \<Rightarrow> int" where
  "digit_val c = (of_char c :: int) - 48"

fun dec_val :: "int \<Rightarrow> string \<Rightarrow> int" where
  "dec_val n [] = n"
| "dec_val n (c # cs) = dec_val (10 * n + digit_val c) cs"

definition long_max :: int where
  "long_max = 9223372036854775807"

definition long_min :: int where
  "long_min = - 9223372036854775808"

definition clamp_long :: "int \<Rightarrow> int" where
  "clamp_long v = max long_min (min long_max v)"

definition strip_sign :: "string \<Rightarrow> bool \<times> string" where
  "strip_sign s =
     (case s of
        [] \<Rightarrow> (False, [])
      | c # cs \<Rightarrow>
          if c = CHR ''-'' then (True, cs)
          else if c = CHR ''+'' then (False, cs)
          else (False, s))"

text \<open>
  \<open>strtol(s, &end, 10)\<close>: the value and the characters from \<open>end\<close> on. White space is
  skipped, a sign is read, then the digits; without a digit the value is 0 and \<open>end\<close> is the
  start of \<open>s\<close>. Values out of range are clamped.
\<close>

definition strtol10 :: "string \<Rightarrow> int \<times> string" where
  "strtol10 s =
     (let (neg, t) = strip_sign (dropWhile isspace s);
          ds = takeWhile isdigit t
      in if ds = [] then (0, s)
         else (clamp_long (if neg then - dec_val 0 ds else dec_val 0 ds), dropWhile isdigit t))"

text \<open>\<open>static_cast<int>\<close> of a \<open>long\<close>\<close>

definition int_cast :: "int \<Rightarrow> int" where
  "int_cast v = (v + 2147483648) mod 4294967296 - 2147483648"

lemma int_cast_range: "- 2147483648 \<le> int_cast v \<and> int_cast v \<le> 2147483647"
proof -
  have "0 \<le> (v + 2147483648) mod 4294967296 \<and> (v + 2147483648) mod 4294967296 < 4294967296"
    by simp
  then show ?thesis by (simp add: int_cast_def)
qed

lemma int_cast_id: "- 2147483648 \<le> v \<Longrightarrow> v \<le> 2147483647 \<Longrightarrow> int_cast v = v"
  by (simp add: int_cast_def mod_pos_pos_trivial)

text \<open>The decimal text of a number, as \<open>itoa\<close> in base 10 is documented to print it.\<close>

fun nat_text :: "nat \<Rightarrow> string" where
  "nat_text n = (if n < 10 then [char_of (n + 48)] else nat_text (n div 10) @ [char_of (n mod 10 + 48)])"

declare nat_text.simps [simp del]

definition dec_text :: "int \<Rightarrow> string" where
  "dec_text v = (if v < 0 then ''-'' @ nat_text (nat (- v)) else nat_text (nat v))"

lemma of_char_digit: "d < 10 \<Longrightarrow> (of_char (char_of (d + 48 :: nat)) :: nat) = d + 48"
  by (simp add: of_char_of)

lemma of_char_int: "(of_char c :: int) = int (of_char c)"
  by (metis of_nat_of_char)

lemma isdigit_digit: "d < 10 \<Longrightarrow> isdigit (char_of (d + 48 :: nat))"
  by (simp add: isdigit_def of_char_of)

lemma digit_val_digit: "d < 10 \<Longrightarrow> digit_val (char_of (d + 48 :: nat)) = int d"
  by (simp add: digit_val_def of_char_int of_char_of)

lemma dec_val_snoc: "dec_val a (cs @ [c]) = 10 * dec_val a cs + digit_val c"
  by (induction cs arbitrary: a) auto

lemma nat_text_digits: "\<forall>c \<in> set (nat_text n). isdigit c"
proof (induction n rule: nat_text.induct)
  case (1 n)
  then show ?case by (subst nat_text.simps) (auto simp: isdigit_digit)
qed

lemma nat_text_nonempty [simp]: "nat_text n \<noteq> []"
  by (subst nat_text.simps) simp

lemma dec_val_nat_text: "dec_val 0 (nat_text n) = int n"
proof (induction n rule: nat_text.induct)
  case (1 n)
  show ?case
  proof (cases "n < 10")
    case True
    then show ?thesis by (simp add: nat_text.simps [of n] digit_val_digit)
  next
    case False
    then have "dec_val 0 (nat_text n) = 10 * int (n div 10) + int (n mod 10)"
      using 1 by (simp add: nat_text.simps [of n] dec_val_snoc digit_val_digit)
    then show ?thesis by (simp add: zdiv_int zmod_int)
  qed
qed

lemma isdigit_not_space: "isdigit c \<Longrightarrow> \<not> isspace c"
  by (auto simp: isdigit_def isspace_def)

lemma isdigit_neq:
  "isdigit c \<Longrightarrow> c \<noteq> CHR ''-''" "isdigit c \<Longrightarrow> c \<noteq> CHR ''+''"
  "isdigit c \<Longrightarrow> c \<noteq> CHR '':''" "isdigit c \<Longrightarrow> c \<noteq> CHR ''/''" "isdigit c \<Longrightarrow> c \<noteq> CHR 0x00"
  "isdigit c \<Longrightarrow> c \<noteq> CHR '',''" "isdigit c \<Longrightarrow> c \<noteq> CHR '' ''"
  by (auto simp: isdigit_def)

lemma strtol10_digits:
  assumes ds: "ds \<noteq> []" "\<forall>c \<in> set ds. isdigit c" and rest: "rest = [] \<or> \<not> isdigit (hd rest)"
  shows "strtol10 (ds @ rest) = (clamp_long (dec_val 0 ds), rest)"
proof -
  from ds obtain c cs where c: "ds = c # cs" "isdigit c" by (cases ds) auto
  have ws: "dropWhile isspace (ds @ rest) = ds @ rest"
    using c by (simp add: isdigit_not_space)
  have sg: "strip_sign (ds @ rest) = (False, ds @ rest)"
    using c by (simp add: strip_sign_def isdigit_neq)
  have "takeWhile isdigit rest = []" "dropWhile isdigit rest = rest"
    using rest by (cases rest; auto)+
  then have "takeWhile isdigit (ds @ rest) = ds" "dropWhile isdigit (ds @ rest) = rest"
    using ds by (simp_all add: takeWhile_append dropWhile_append)
  with ds ws sg show ?thesis by (simp add: strtol10_def)
qed

lemma strtol10_dec_text:
  assumes "0 \<le> v" "v \<le> long_max" shows "strtol10 (dec_text v) = (v, [])"
proof -
  have "strtol10 (nat_text (nat v)) = (clamp_long (dec_val 0 (nat_text (nat v))), [])"
    using strtol10_digits [of "nat_text (nat v)" "[]"] nat_text_digits by simp
  with assms show ?thesis
    by (simp add: dec_text_def dec_val_nat_text clamp_long_def long_min_def)
qed

lemma dec_text_chars: "0 \<le> v \<Longrightarrow> c \<in> set (dec_text v) \<Longrightarrow> isdigit c"
  using nat_text_digits by (simp add: dec_text_def)

subsection \<open>Comparison without case\<close>

definition to_lower :: "char \<Rightarrow> char" where
  "to_lower c =
     (if 65 \<le> (of_char c :: nat) \<and> (of_char c :: nat) \<le> 90 then char_of ((of_char c :: nat) + 32) else c)"

text \<open>\<open>strcasecmp(a, b) == 0\<close>\<close>

definition strcase_eq :: "string \<Rightarrow> string \<Rightarrow> bool" where
  "strcase_eq a b \<longleftrightarrow> map to_lower a = map to_lower b"

subsection \<open>Cutting a string at a separator\<close>

primrec split_on :: "char \<Rightarrow> string \<Rightarrow> string list" where
  "split_on c [] = [[]]"
| "split_on c (x # xs) =
     (if x = c then [] # split_on c xs
      else case split_on c xs of [] \<Rightarrow> [[x]] | h # t \<Rightarrow> (x # h) # t)"

lemma split_on_Nil [simp]: "split_on c s \<noteq> []"
  by (induction s) (auto split: list.splits)

lemma split_on_no_sep: "c \<notin> set s \<Longrightarrow> split_on c s = [s]"
  by (induction s) auto

lemma split_on_append:
  "c \<notin> set xs \<Longrightarrow> split_on c (xs @ c # ys) = xs # split_on c ys"
  by (induction xs) auto

text \<open>
  The loop: from position \<open>pos\<close>, search the separator, cut, go on after it. Each piece is
  handed over as it is found.
\<close>

function pieces :: "char \<Rightarrow> string \<Rightarrow> nat \<Rightarrow> string list" where
  "pieces c s pos =
     (case str_find c s pos of
        None \<Rightarrow> [substr_from s pos]
      | Some tpos \<Rightarrow> substr s pos (tpos - pos) # pieces c s (tpos + 1))"
  by pat_completeness auto
termination
  by (relation "measure (\<lambda>(c, s, pos). length s - pos)")
     (auto simp: str_find_shrinks)

declare pieces.simps [simp del]

lemma pieces_split_on: "pieces c s pos = split_on c (drop pos s)"
proof (induction c s pos rule: pieces.induct)
  case (1 c s pos)
  show ?case
  proof (cases "str_find c s pos")
    case None
    then show ?thesis
      by (simp add: pieces.simps [of c s pos] substr_from_def str_find_None split_on_no_sep)
  next
    case (Some tpos)
    then obtain i where i: "index_of c (drop pos s) = Some i" and tpos: "tpos = pos + i"
      by (auto simp: str_find_def)
    let ?d = "drop pos s"
    from i have "i < length ?d" and "take i ?d = takeWhile (\<lambda>x. x \<noteq> c) ?d" and "?d ! i = c"
      by (auto dest: index_of_Some_takeWhile)
    then have d: "?d = take i ?d @ c # drop (Suc i) ?d" and notin: "c \<notin> set (take i ?d)"
      using id_take_nth_drop [of i ?d] by (auto dest: set_takeWhileD)
    have "split_on c ?d = take i ?d # split_on c (drop (Suc i) ?d)"
      using split_on_append [OF notin, of "drop (Suc i) ?d"] d by metis
    with 1 [OF Some] Some tpos show ?thesis
      by (simp add: pieces.simps [of c s pos] substr_def add.commute)
  qed
qed

end
