(* ===== verification/FileConfig.thy ===== *)
theory FileConfig
  imports Cpp_String
begin

text \<open>
  The configuration file (src/src/lorica/FileConfig.h and FileConfig.cpp). The object keeps
  a \<open>std::map<int, std::string>\<close> from the hash of a token to its accumulated value, the name
  of the file and the debug level. \<open>ACE::hash_pjw\<close> is a function of the ACE library and the
  file system is outside the program: both are parameters (\<open>hash\<close>, already narrowed to the
  \<open>int\<close> key, and \<open>read_file\<close>, which gives the content of a file that can be opened).

  \<open>load_line\<close> is the body of the loop in \<open>load()\<close>. \<open>line_entry\<close> and \<open>join_values\<close> specify
  what a line of the file says and what a token means after several lines; \<open>load_lookup\<close>
  shows that the table answers every look-up as the specification does, whenever the hash
  separates the tokens in play.
\<close>

record file_config =
  configs :: "int \<rightharpoonup> string"
  file_name :: string
  cfg_debug_level :: int

definition new_file_config :: file_config where
  "new_file_config = \<lparr>configs = Map.empty, file_name = [], cfg_debug_level = 0\<rparr>"

subsection \<open>The table\<close>

definition cfg_insert :: "(string \<Rightarrow> int) \<Rightarrow> string \<Rightarrow> string \<Rightarrow> file_config \<Rightarrow> file_config" where
  "cfg_insert hash token val cfg =
     cfg\<lparr>configs := (configs cfg)(hash (c_str token) \<mapsto> c_str val)\<rparr>"

definition cfg_extract :: "(string \<Rightarrow> int) \<Rightarrow> file_config \<Rightarrow> string \<Rightarrow> string \<Rightarrow> string" where
  "cfg_extract hash cfg token d =
     (case configs cfg (hash (c_str token)) of
        Some v \<Rightarrow> v
      | None \<Rightarrow> d)"

definition get_value :: "(string \<Rightarrow> int) \<Rightarrow> file_config \<Rightarrow> string \<Rightarrow> string \<Rightarrow> string" where
  "get_value hash cfg token d = cfg_extract hash cfg token d"

definition get_long_value :: "(string \<Rightarrow> int) \<Rightarrow> file_config \<Rightarrow> string \<Rightarrow> int \<Rightarrow> int" where
  "get_long_value hash cfg token d =
     (let val = get_value hash cfg token [] in
      if length val \<noteq> 0 then
        (let (temp, rest) = strtol10 (c_str val) in if rest = [] then temp else d)
      else d)"

definition get_bool_value :: "(string \<Rightarrow> int) \<Rightarrow> file_config \<Rightarrow> string \<Rightarrow> bool \<Rightarrow> bool" where
  "get_bool_value hash cfg token d =
     (let val = get_value hash cfg token [] in
      if strcase_eq (c_str val) ''yes'' \<or> strcase_eq (c_str val) ''true'' then True
      else if strcase_eq (c_str val) ''no'' \<or> strcase_eq (c_str val) ''false'' then False
      else d)"

definition unload :: "file_config \<Rightarrow> file_config" where
  "unload cfg = cfg\<lparr>configs := Map.empty\<rparr>"

subsection \<open>Reading a line\<close>

text \<open>\<open>str.find_last_not_of(char_set)\<close>\<close>

primrec find_last_not_of :: "char list \<Rightarrow> string \<Rightarrow> nat option" where
  "find_last_not_of cs [] = None"
| "find_last_not_of cs (x # xs) =
     (case find_last_not_of cs xs of
        Some i \<Rightarrow> Some (Suc i)
      | None \<Rightarrow> if x \<in> set cs then None else Some 0)"

definition rtrim :: "string \<Rightarrow> char list \<Rightarrow> string" where
  "rtrim str char_set =
     (case find_last_not_of char_set str of
        None \<Rightarrow> []
      | Some n \<Rightarrow> substr str 0 (n + 1))"

text \<open>
  The loop that overwrites every occurrence of a character by a blank. The sources run it
  for a carriage return and for a tab; for the blank itself it would not end, and the first
  branch makes the function total there.
\<close>

function blank_out :: "char \<Rightarrow> string \<Rightarrow> nat \<Rightarrow> string" where
  "blank_out c line pos =
     (if c = CHR '' '' then line
      else case str_find c line pos of
        None \<Rightarrow> line
      | Some p \<Rightarrow> blank_out c (line[p := CHR '' '']) p)"
  by pat_completeness auto
termination
proof (relation "measure (\<lambda>(c, line, pos). length (filter (\<lambda>x. x = c) line))", goal_cases)
  case (2 c line pos p)
  then have p: "p < length line" "line ! p = c"
    by (auto simp: str_find_def dest: index_of_Some_takeWhile)
  then have "filter (\<lambda>x. x = c) line =
      filter (\<lambda>x. x = c) (take p line) @ c # filter (\<lambda>x. x = c) (drop (Suc p) line)"
    by (subst id_take_nth_drop [OF p(1)]) simp
  with 2 p show ?case by (simp add: upd_conv_take_nth_drop)
qed simp

declare blank_out.simps [simp del]

text \<open>The body of the loop over the lines of the file.\<close>

definition load_line :: "(string \<Rightarrow> int) \<Rightarrow> file_config \<Rightarrow> string \<Rightarrow> file_config" where
  "load_line hash cfg line =
     (if line = [] then cfg
      else if line ! 0 = CHR ''#'' then cfg
      else let line = (case str_find CHR ''#'' line 0 of None \<Rightarrow> line | Some pos \<Rightarrow> take pos line) in
      if line = [] then cfg
      else let line = blank_out CHR 0x0D line 0;
               line = blank_out CHR 0x09 line 0;
               line = rtrim line '' '' in
      if line = [] then cfg
      else case str_find CHR '' '' line 0 of
        None \<Rightarrow> cfg
      | Some pos \<Rightarrow>
          let token = substr line 0 pos in
          if pos + 2 > length line then cfg
          else let cur_val = substr_from line (pos + 1);
                   accru_val = get_value hash cfg token [];
                   accru_val = (if accru_val = [] then cur_val else accru_val @ '' '' @ cur_val)
               in cfg_insert hash token accru_val cfg)"

text \<open>
  \<open>std::getline\<close> in a loop on \<open>!eof()\<close> yields the text between the line feeds, the empty
  text after the last one included.
\<close>

definition load :: "(string \<Rightarrow> int) \<Rightarrow> (string \<Rightarrow> string option) \<Rightarrow> file_config \<Rightarrow> bool \<times> file_config" where
  "load hash read_file cfg =
     (if file_name cfg = [] then (False, cfg)
      else let cfg = unload cfg in
      case read_file (c_str (file_name cfg)) of
        None \<Rightarrow> (False, cfg)
      | Some content \<Rightarrow> (True, foldl (load_line hash) cfg (split_on CHR 0x0A content)))"

text \<open>\<open>init\<close> throws \<open>InitError\<close> when the file cannot be loaded.\<close>

definition cfg_init ::
    "(string \<Rightarrow> int) \<Rightarrow> (string \<Rightarrow> string option) \<Rightarrow> string \<Rightarrow> int \<Rightarrow> file_config \<Rightarrow> unit result \<times> file_config" where
  "cfg_init hash read_file fname lvl cfg =
     (let (ok, cfg) = load hash read_file (cfg\<lparr>file_name := fname, cfg_debug_level := lvl\<rparr>)
      in (if ok then Ok () else Fault (Thrown ''InitError''), cfg))"

subsection \<open>What a line says\<close>

definition blank_char :: "char \<Rightarrow> char" where
  "blank_char c = (if c = CHR 0x0D \<or> c = CHR 0x09 then CHR '' '' else c)"

definition trim_right :: "string \<Rightarrow> string" where
  "trim_right s = rev (dropWhile (\<lambda>c. c = CHR '' '') (rev s))"

definition line_entry :: "string \<Rightarrow> (string \<times> string) option" where
  "line_entry line =
     (let l = trim_right (map blank_char (takeWhile (\<lambda>c. c \<noteq> CHR ''#'') line)) in
      if CHR '' '' \<in> set l
      then Some (takeWhile (\<lambda>c. c \<noteq> CHR '' '') l, tl (dropWhile (\<lambda>c. c \<noteq> CHR '' '') l))
      else None)"

definition file_entries :: "string \<Rightarrow> (string \<times> string) list" where
  "file_entries content = List.map_filter line_entry (split_on CHR 0x0A content)"

fun join_values :: "string list \<Rightarrow> string" where
  "join_values [] = []"
| "join_values [v] = v"
| "join_values (v # w # vs) = v @ '' '' @ join_values (w # vs)"

definition values_of :: "string \<Rightarrow> (string \<times> string) list \<Rightarrow> string list" where
  "values_of t es = map snd (filter (\<lambda>e. fst e = t) es)"

subsection \<open>The loop body computes the entry of the line\<close>

definition add_entry :: "(string \<Rightarrow> int) \<Rightarrow> file_config \<Rightarrow> string \<times> string \<Rightarrow> file_config" where
  "add_entry hash cfg e =
     (let a = get_value hash cfg (fst e) []
      in cfg_insert hash (fst e) (if a = [] then snd e else a @ '' '' @ snd e) cfg)"

lemma blank_out_map:
  "c \<noteq> CHR '' '' \<Longrightarrow> c \<notin> set (take pos line) \<Longrightarrow>
     blank_out c line pos = map (\<lambda>x. if x = c then CHR '' '' else x) line"
proof (induction c line pos rule: blank_out.induct)
  case (1 c line pos)
  show ?case
  proof (cases "str_find c line pos")
    case None
    then have "c \<notin> set (drop pos line)" by (simp add: str_find_None)
    with "1.prems" have "c \<notin> set line" by (metis UnE append_take_drop_id set_append)
    then have "map (\<lambda>x. if x = c then CHR '' '' else x) line = line"
      by (intro map_idI) auto
    with None "1.prems" show ?thesis by (simp add: blank_out.simps [of c line pos])
  next
    case (Some p)
    then obtain i where i: "index_of c (drop pos line) = Some i" and p: "p = pos + i"
      by (auto simp: str_find_def)
    from index_of_Some_takeWhile [OF i]
    have "i < length (drop pos line)" and tk: "take i (drop pos line) = takeWhile (\<lambda>x. x \<noteq> c) (drop pos line)"
      and at: "drop pos line ! i = c" by auto
    then have less: "p < length line" and at: "line ! p = c"
      using p by (auto simp: nth_drop)
    have "c \<notin> set (take i (drop pos line))" using tk by (auto dest: set_takeWhileD)
    with "1.prems" p have notin: "c \<notin> set (take p line)"
      by (simp add: take_add)
    then have "c \<notin> set (take p (line[p := CHR '' '']))" by simp
    with 1 Some have "blank_out c line pos =
        map (\<lambda>x. if x = c then CHR '' '' else x) (line[p := CHR '' ''])"
      by (simp add: blank_out.simps [of c line pos])
    also have "\<dots> = map (\<lambda>x. if x = c then CHR '' '' else x) line"
      using less at by (intro nth_equalityI) (auto simp: nth_list_update)
    finally show ?thesis .
  qed
qed

lemma find_last_not_of_None: "find_last_not_of cs s = None \<longleftrightarrow> set s \<subseteq> set cs"
  by (induction s) (auto split: option.splits)

lemma rtrim_dropWhile: "rtrim s cs = rev (dropWhile (\<lambda>c. c \<in> set cs) (rev s))"
proof (induction s)
  case Nil
  show ?case by (simp add: rtrim_def)
next
  case (Cons x xs)
  show ?case
  proof (cases "find_last_not_of cs xs")
    case None
    then have "set xs \<subseteq> set cs" by (simp add: find_last_not_of_None)
    with None show ?thesis
      by (auto simp: rtrim_def substr_def dropWhile_append)
  next
    case (Some i)
    then have "\<not> set xs \<subseteq> set cs" by (metis find_last_not_of_None option.distinct(1))
    then have "\<exists>y \<in> set (rev xs). y \<notin> set cs" by auto
    with Some Cons.IH show ?thesis
      by (auto simp: rtrim_def substr_def dropWhile_append)
  qed
qed

lemma rtrim_blank: "rtrim s '' '' = trim_right s"
  by (simp add: rtrim_dropWhile trim_right_def)

lemma blank_out_both:
  "blank_out CHR 0x09 (blank_out CHR 0x0D line 0) 0 = map blank_char line"
  by (simp add: blank_out_map blank_char_def o_def)

lemma trim_right_last: "trim_right s \<noteq> [] \<Longrightarrow> last (trim_right s) \<noteq> CHR '' ''"
  using hd_dropWhile [of "\<lambda>c. c = CHR '' ''" "rev s"] by (auto simp: trim_right_def last_rev)

lemma set_trim_right: "set (trim_right s) \<subseteq> set s"
  unfolding trim_right_def by (auto dest: set_dropWhileD)

lemma line_entry_value: "line_entry line = Some (t, v) \<Longrightarrow> v \<noteq> []"
proof -
  assume e: "line_entry line = Some (t, v)"
  define l where "l = trim_right (map blank_char (takeWhile (\<lambda>c. c \<noteq> CHR ''#'') line))"
  from e have sp: "CHR '' '' \<in> set l" and v: "v = tl (dropWhile (\<lambda>c. c \<noteq> CHR '' '') l)"
    by (auto simp: line_entry_def Let_def l_def split: if_splits)
  from sp have ne: "dropWhile (\<lambda>c. c \<noteq> CHR '' '') l \<noteq> []"
    by auto
  from hd_dropWhile [OF this] have hd: "hd (dropWhile (\<lambda>c. c \<noteq> CHR '' '') l) = CHR '' ''"
    by simp
  have "last (dropWhile (\<lambda>c. c \<noteq> CHR '' '') l) = last l"
    using last_append [of "takeWhile (\<lambda>c. c \<noteq> CHR '' '') l" "dropWhile (\<lambda>c. c \<noteq> CHR '' '') l"] sp
    by auto
  also have "\<dots> \<noteq> CHR '' ''"
    using sp unfolding l_def by (intro trim_right_last) auto
  finally show "v \<noteq> []"
    using ne hd v by (cases "dropWhile (\<lambda>c. c \<noteq> CHR '' '') l") auto
qed

lemma line_entry_chars:
  assumes "line_entry line = Some (t, v)"
  shows "set t \<subseteq> insert CHR '' '' (set line)" and "set v \<subseteq> insert CHR '' '' (set line)"
proof -
  define l where "l = trim_right (map blank_char (takeWhile (\<lambda>c. c \<noteq> CHR ''#'') line))"
  have "set l \<subseteq> blank_char ` set line"
    unfolding l_def using set_trim_right by (fastforce dest: set_takeWhileD)
  also have "\<dots> \<subseteq> insert CHR '' '' (set line)"
    by (auto simp: blank_char_def)
  finally have l: "set l \<subseteq> insert CHR '' '' (set line)" .
  from assms have tv: "t = takeWhile (\<lambda>c. c \<noteq> CHR '' '') l" "v = tl (dropWhile (\<lambda>c. c \<noteq> CHR '' '') l)"
    by (auto simp: line_entry_def Let_def l_def split: if_splits)
  from tv(1) l show "set t \<subseteq> insert CHR '' '' (set line)"
    by (auto dest: set_takeWhileD)
  have "set v \<subseteq> set l"
  proof
    fix c assume "c \<in> set v"
    then have "c \<in> set (dropWhile (\<lambda>c. c \<noteq> CHR '' '') l)"
      unfolding tv(2) by (rule list.set_sel(2) [rotated]) (use \<open>c \<in> set v\<close> tv(2) in force)
    then show "c \<in> set l" by (rule set_dropWhileD)
  qed
  with l show "set v \<subseteq> insert CHR '' '' (set line)" by blast
qed

lemma index_of_takeWhile:
  "index_of c s = Some i \<Longrightarrow>
     substr s 0 i = takeWhile (\<lambda>x. x \<noteq> c) s \<and> substr_from s (i + 1) = tl (dropWhile (\<lambda>x. x \<noteq> c) s)"
  by (induction s arbitrary: i) (auto simp: substr_def substr_from_def)

lemma comment_cut:
  "(case str_find CHR ''#'' line 0 of None \<Rightarrow> line | Some pos \<Rightarrow> take pos line) =
     takeWhile (\<lambda>c. c \<noteq> CHR ''#'') line"
proof (cases "index_of CHR ''#'' line")
  case None
  then have "takeWhile (\<lambda>c. c \<noteq> CHR ''#'') line = line"
    by (intro takeWhile_eq_all_conv [THEN iffD2]) auto
  with None show ?thesis by (simp only: str_find_0 option.case)
qed (auto dest: index_of_Some_takeWhile)

lemma load_line_core:
  assumes l: "l = trim_right s"
  shows "(case str_find CHR '' '' l 0 of
        None \<Rightarrow> cfg
      | Some pos \<Rightarrow>
          if pos + 2 > length l then cfg else add_entry hash cfg (substr l 0 pos, substr_from l (pos + 1))) =
     (if CHR '' '' \<in> set l
      then add_entry hash cfg (takeWhile (\<lambda>c. c \<noteq> CHR '' '') l, tl (dropWhile (\<lambda>c. c \<noteq> CHR '' '') l))
      else cfg)"
proof (cases "index_of CHR '' '' l")
  case None
  then show ?thesis by auto
next
  case (Some i)
  then have i: "i < length l" "l ! i = CHR '' ''"
    by (auto dest: index_of_Some_takeWhile)
  then have ne: "l \<noteq> []" and sp: "CHR '' '' \<in> set l" by (auto simp: in_set_conv_nth)
  have "last l \<noteq> CHR '' ''" using trim_right_last [of s] ne l by simp
  then have "i \<noteq> length l - 1" using i ne by (metis last_conv_nth)
  with i have "i + 2 \<le> length l" by arith
  with Some sp index_of_takeWhile [OF Some] show ?thesis by simp
qed

lemma load_line_entry:
  "load_line hash cfg line =
     (case line_entry line of None \<Rightarrow> cfg | Some e \<Rightarrow> add_entry hash cfg e)"
proof -
  define s where "s = takeWhile (\<lambda>c. c \<noteq> CHR ''#'') line"
  define l where "l = trim_right (map blank_char s)"
  have lhs: "load_line hash cfg line =
      (if line = [] \<or> line ! 0 = CHR ''#'' \<or> s = [] \<or> l = [] then cfg
       else (case str_find CHR '' '' l 0 of
          None \<Rightarrow> cfg
        | Some pos \<Rightarrow>
            if pos + 2 > length l then cfg
            else add_entry hash cfg (substr l 0 pos, substr_from l (pos + 1))))"
    unfolding load_line_def comment_cut s_def [symmetric]
    by (simp add: Let_def blank_out_both rtrim_blank l_def add_entry_def split: option.split)
  have rhs: "(case line_entry line of None \<Rightarrow> cfg | Some e \<Rightarrow> add_entry hash cfg e) =
      (if CHR '' '' \<in> set l
      then add_entry hash cfg (takeWhile (\<lambda>c. c \<noteq> CHR '' '') l, tl (dropWhile (\<lambda>c. c \<noteq> CHR '' '') l))
      else cfg)"
    by (simp add: line_entry_def s_def [symmetric] l_def [symmetric] Let_def)
  have "l = []" if "line = [] \<or> line ! 0 = CHR ''#'' \<or> s = []"
    using that by (cases line) (auto simp: l_def s_def trim_right_def)
  then show ?thesis
    unfolding lhs rhs load_line_core [OF l_def] by auto
qed

lemma foldl_load_line:
  "foldl (load_line hash) cfg ls = foldl (add_entry hash) cfg (List.map_filter line_entry ls)"
  by (induction ls arbitrary: cfg) (auto simp: load_line_entry List.map_filter_simps split: option.splits)

subsection \<open>Loading a file\<close>

text \<open>
  \<open>table_ok\<close>: on the tokens \<open>T\<close>, the table holds for each token with entries the values of
  these entries, joined by blanks, and nothing for the others.
\<close>

definition table_ok :: "(string \<Rightarrow> int) \<Rightarrow> string set \<Rightarrow> (string \<times> string) list \<Rightarrow> file_config \<Rightarrow> bool" where
  "table_ok hash T es cfg \<longleftrightarrow>
     (\<forall>t \<in> T. configs cfg (hash t) =
        (if values_of t es = [] then None else Some (join_values (values_of t es))))"

lemma join_values_snoc:
  "vs \<noteq> [] \<Longrightarrow> join_values (vs @ [v]) = join_values vs @ '' '' @ v"
  by (induction vs rule: join_values.induct) auto

lemma join_values_empty:
  "vs \<noteq> [] \<Longrightarrow> [] \<notin> set vs \<Longrightarrow> join_values vs \<noteq> []"
  by (induction vs rule: join_values.induct) auto

lemma values_of_snoc:
  "values_of t (es @ [e]) = values_of t es @ (if fst e = t then [snd e] else [])"
  by (simp add: values_of_def)

lemma join_values_chars:
  "set (join_values vs) \<subseteq> insert CHR '' '' (\<Union> (set ` set vs))"
  by (induction vs rule: join_values.induct) auto

lemma table_ok_add_entry:
  assumes ok: "table_ok hash T es cfg" and inj: "inj_on hash T" and T: "fst e \<in> T"
    and nul: "\<forall>e' \<in> set (es @ [e]). CHR 0x00 \<notin> set (fst e') \<and> CHR 0x00 \<notin> set (snd e')"
    and ne: "\<forall>e' \<in> set (es @ [e]). snd e' \<noteq> []"
  shows "table_ok hash T (es @ [e]) (add_entry hash cfg e)"
  unfolding table_ok_def
proof
  fix t assume t: "t \<in> T"
  let ?vs = "values_of (fst e) es"
  let ?val = "join_values (values_of (fst e) (es @ [e]))"
  have tok: "c_str (fst e) = fst e" and "CHR 0x00 \<notin> set (snd e)" using nul by (auto intro: c_str_id)
  have sub: "\<Union> (set ` set (values_of (fst e) (es @ [e]))) \<subseteq> \<Union> (set ` snd ` set (es @ [e]))"
    by (auto simp: values_of_def)
  have "CHR 0x00 \<notin> set ?val"
    using join_values_chars [of "values_of (fst e) (es @ [e])"] sub nul by fastforce
  then have val: "c_str ?val = ?val" by (rule c_str_id)
  have vs: "[] \<notin> set ?vs" using ne by (auto simp: values_of_def)
  have "get_value hash cfg (fst e) [] = join_values ?vs"
    using ok T tok by (auto simp: table_ok_def get_value_def cfg_extract_def split: option.splits)
  then have add: "add_entry hash cfg e = cfg_insert hash (fst e) ?val cfg"
    using join_values_empty [OF _ vs]
    by (cases "?vs = []") (simp_all add: add_entry_def Let_def values_of_snoc join_values_snoc)
  show "configs (add_entry hash cfg e) (hash t) =
      (if values_of t (es @ [e]) = [] then None else Some (join_values (values_of t (es @ [e]))))"
  proof (cases "t = fst e")
    case True
    then show ?thesis unfolding add by (simp add: cfg_insert_def tok val) (simp add: values_of_snoc)
  next
    case False
    with inj t T have "hash t \<noteq> hash (fst e)" by (auto dest: inj_onD)
    with False ok t show ?thesis
      unfolding add by (simp add: cfg_insert_def tok values_of_snoc table_ok_def)
  qed
qed

lemma table_ok_foldl:
  assumes "inj_on hash T" and "fst ` set es \<subseteq> T"
    and "\<forall>e \<in> set es. CHR 0x00 \<notin> set (fst e) \<and> CHR 0x00 \<notin> set (snd e)"
    and "\<forall>e \<in> set es. snd e \<noteq> []"
    and "configs cfg = Map.empty"
  shows "table_ok hash T es (foldl (add_entry hash) cfg es)"
  using assms(2-4)
proof (induction es rule: rev_induct)
  case Nil
  show ?case using assms(5) by (simp add: table_ok_def values_of_def)
next
  case (snoc e es)
  then show ?case
    by (simp add: table_ok_add_entry [OF _ assms(1)])
qed

lemma Union_split_on: "\<Union> (set ` set (split_on c s)) \<subseteq> set s"
proof (induction s)
  case (Cons x xs)
  obtain h t where "split_on c xs = h # t"
    using split_on_Nil by (metis neq_Nil_conv)
  with Cons show ?case by auto
qed simp

lemma set_split_on: "l \<in> set (split_on c s) \<Longrightarrow> set l \<subseteq> set s"
  using Union_split_on [of c s] by blast

lemma file_entries_chars:
  assumes "CHR 0x00 \<notin> set content" and "e \<in> set (file_entries content)"
  shows "CHR 0x00 \<notin> set (fst e) \<and> CHR 0x00 \<notin> set (snd e) \<and> snd e \<noteq> []"
proof -
  from assms(2) obtain l where l: "l \<in> set (split_on CHR 0x0A content)" and e: "line_entry l = Some e"
    by (auto simp: file_entries_def List.map_filter_def)
  from e have e': "line_entry l = Some (fst e, snd e)" by simp
  have "CHR 0x00 \<notin> set l" using set_split_on [OF l] assms(1) by blast
  with line_entry_chars [OF e'] line_entry_value [OF e'] show ?thesis
    by auto
qed

lemma load_result:
  assumes "fname = file_name cfg" and "fname \<noteq> []" and "read_file (c_str fname) = Some content"
  shows "load hash read_file cfg =
           (True, foldl (add_entry hash) (unload cfg) (file_entries content))"
  using assms by (simp add: load_def unload_def Let_def foldl_load_line file_entries_def)

subsection \<open>Properties\<close>

lemma load_values:
  assumes "fname \<noteq> []" and "read_file (c_str fname) = Some content"
    and "CHR 0x00 \<notin> set content" and "CHR 0x00 \<notin> set t"
    and "inj_on hash (insert t (fst ` set (file_entries content)))"
  shows "fst (cfg_init hash read_file fname lvl cfg) = Ok ()
    \<and> get_value hash (snd (cfg_init hash read_file fname lvl cfg)) t d =
        (if values_of t (file_entries content) = [] then d
         else join_values (values_of t (file_entries content)))"
proof -
  let ?cfg = "cfg\<lparr>file_name := fname, cfg_debug_level := lvl\<rparr>"
  let ?es = "file_entries content"
  let ?tab = "foldl (add_entry hash) (unload ?cfg) ?es"
  have "load hash read_file ?cfg = (True, ?tab)"
    by (rule load_result) (use assms in auto)
  then have init: "cfg_init hash read_file fname lvl cfg = (Ok (), ?tab)"
    by (simp add: cfg_init_def)
  have "table_ok hash (insert t (fst ` set ?es)) ?es ?tab"
    by (rule table_ok_foldl [OF assms(5)])
      (use file_entries_chars [OF assms(3)] in \<open>auto simp: unload_def\<close>)
  with init assms(4) show ?thesis
    by (simp add: table_ok_def get_value_def cfg_extract_def c_str_id)
qed

text \<open>
  C15: The look-up table of a loaded configuration file means what the file says: a token has
  the values of its lines, comments and trailing white space removed, in the order of the
  file and separated by blanks; a token without a line has the default. This holds whenever
  \<open>ACE::hash_pjw\<close> separates the token from the tokens of the file.
\<close>

theorem load_lookup:
  assumes "fname \<noteq> []" and "read_file (c_str fname) = Some content"
    and "CHR 0x00 \<notin> set content" and "CHR 0x00 \<notin> set t"
    and "inj_on hash (insert t (fst ` set (file_entries content)))"
  shows "fst (cfg_init hash read_file fname lvl cfg) = Ok ()
    \<and> get_value hash (snd (cfg_init hash read_file fname lvl cfg)) t d =
        (if values_of t (file_entries content) = [] then d
         else join_values (values_of t (file_entries content)))"
  using assms by (rule load_values)

definition sample_hash :: "string \<Rightarrow> int" where
  "sample_hash s = foldl (\<lambda>h c. 31 * h + of_char c) 0 s"

definition sample_file :: string where
  "sample_file = ''A 1 # x'' @ [CHR 0x0A] @ ''# all'' @ [CHR 0x0D, CHR 0x0A] @ ''B'' @ [CHR 0x09] @ ''u v ''
     @ [CHR 0x0A] @ ''A 2'' @ [CHR 0x0D, CHR 0x0A]"

lemma sample_file_entries: "file_entries sample_file = [(''A'', ''1''), (''B'', ''u v''), (''A'', ''2'')]"
  by code_simp

theorem load_lookup_witness:
  "get_value sample_hash (snd (cfg_init sample_hash (\<lambda>_. Some sample_file) ''lorica.conf'' 0 new_file_config))
     ''A'' ''none'' = ''1 2''"
proof -
  have "CHR 0x00 \<notin> set sample_file" by code_simp
  moreover have "inj_on sample_hash (insert ''A'' (fst ` set (file_entries sample_file)))"
    by (simp add: sample_file_entries inj_on_def sample_hash_def)
  ultimately show ?thesis
    using load_lookup [of "''lorica.conf''" "\<lambda>_. Some sample_file" sample_file "''A''" sample_hash 0
        new_file_config "''none''"]
    by (simp add: sample_file_entries values_of_def)
qed

text \<open>
  Initialisation throws \<open>InitError\<close> exactly if the file name is empty or the file cannot be
  opened; a file that cannot be opened leaves an empty table, not the one loaded before.
\<close>

theorem init_error:
  "(fst (cfg_init hash read_file fname lvl cfg) = Fault (Thrown ''InitError'')
     \<longleftrightarrow> fname = [] \<or> read_file (c_str fname) = None)
   \<and> (fst (cfg_init hash read_file fname lvl cfg) = Ok ()
     \<longleftrightarrow> fname \<noteq> [] \<and> read_file (c_str fname) \<noteq> None)
   \<and> configs (snd (cfg_init hash read_file fname lvl cfg)) =
       (if fname = [] then configs cfg
        else case read_file (c_str fname) of
          None \<Rightarrow> Map.empty
        | Some content \<Rightarrow>
            configs (foldl (add_entry hash) (unload (cfg\<lparr>file_name := fname, cfg_debug_level := lvl\<rparr>))
              (file_entries content)))"
  by (auto simp: cfg_init_def load_def unload_def Let_def foldl_load_line file_entries_def
      split: option.splits prod.splits)

end
