(* ===== verification/Endpoint.thy ===== *)
theory Endpoint
  imports Cpp_String
begin

text \<open>
  Endpoints (src/src/lorica/ConfigBase.h and ConfigBase.cpp): the addresses of network
  interfaces, the class \<open>Config::Endpoint\<close> with its textual form, and the form in which an
  endpoint is handed to TAO.

  What the operating system and ACE contribute is a parameter, the record \<open>os_env\<close>: the list
  that the \<open>k\<close>-th call of \<open>getifaddrs\<close> returns (with the text that \<open>inet_ntop\<close> gives for each
  address), the host name, the \<open>k\<close>-th generated UUID and \<open>ACE_OS::itoa\<close> in base 10. Since the
  world outside changes between two calls, the operations that look at it take a counter of
  the queries made so far and return the new one.

  \<open>parse_string\<close> is cut where the source has a comment: the address, the two interface name
  extensions, the default host name, the modifiers.
\<close>

subsection \<open>Interfaces and their addresses\<close>

datatype family = AF_INET | AF_INET6 | AF_OTHER

text \<open>A socket address: its family and the text of \<open>inet_ntop\<close> (\<^term>\<open>None\<close> when that fails).\<close>

record sock_addr =
  sa_family :: family
  sa_text :: "string option"

record net_if =
  ifa_name :: string
  ifa_up :: bool
  ifa_addr :: "sock_addr option"

record os_env =
  if_list :: "nat \<Rightarrow> net_if list option"
  os_hostname :: string
  gen_uuid :: "nat \<Rightarrow> string"
  itoa10 :: "int \<Rightarrow> string"

text \<open>The addresses that \<open>get_first_external_ip\<close> passes over.\<close>

definition skipped_address :: "family \<Rightarrow> string \<Rightarrow> bool" where
  "skipped_address fam buf =
     (case fam of
        AF_INET \<Rightarrow> buf = ''127.0.0.1'' \<or> (buf \<noteq> [] \<and> buf ! 0 = CHR ''0'')
      | AF_INET6 \<Rightarrow> buf = ''0:0:0:0:0:0:0:0'' \<or> buf = ''::1'' \<or> buf = ''0:0:0:0:0:0:0:1''
      | AF_OTHER \<Rightarrow> False)"

fun first_external_loop :: "family \<Rightarrow> net_if list \<Rightarrow> string option" where
  "first_external_loop fam [] = None"
| "first_external_loop fam (ifa # rest) =
     (case ifa_addr ifa of
        None \<Rightarrow> first_external_loop fam rest
      | Some sa \<Rightarrow>
          if \<not> ifa_up ifa then first_external_loop fam rest
          else if ifa_name ifa \<in> set [''lo0''] then first_external_loop fam rest
          else if sa_family sa = fam then
            (case sa_text sa of
               None \<Rightarrow> first_external_loop fam rest
             | Some buf \<Rightarrow>
                 if skipped_address fam buf then first_external_loop fam rest else Some buf)
          else first_external_loop fam rest)"

definition non_empty_text :: "string option \<Rightarrow> string option" where
  "non_empty_text r = (case r of None \<Rightarrow> None | Some s \<Rightarrow> if s = [] then None else Some s)"

definition get_first_external_ip :: "family \<Rightarrow> net_if list option \<Rightarrow> string option" where
  "get_first_external_ip fam addrs =
     (case addrs of
        None \<Rightarrow> None
      | Some ifs \<Rightarrow>
          if fam \<noteq> AF_INET \<and> fam \<noteq> AF_INET6 then None
          else non_empty_text (first_external_loop fam ifs))"

fun ifname_loop :: "family \<Rightarrow> string \<Rightarrow> net_if list \<Rightarrow> string option" where
  "ifname_loop fam ifname [] = None"
| "ifname_loop fam ifname (ifa # rest) =
     (case ifa_addr ifa of
        None \<Rightarrow> ifname_loop fam ifname rest
      | Some sa \<Rightarrow>
          if \<not> ifa_up ifa then ifname_loop fam ifname rest
          else if ifa_name ifa \<noteq> ifname then ifname_loop fam ifname rest
          else if sa_family sa = fam then sa_text sa
          else ifname_loop fam ifname rest)"

definition get_ip_from_ifname :: "family \<Rightarrow> string \<Rightarrow> net_if list option \<Rightarrow> string option" where
  "get_ip_from_ifname fam ifname addrs =
     (case addrs of
        None \<Rightarrow> None
      | Some ifs \<Rightarrow>
          if fam \<noteq> AF_INET \<and> fam \<noteq> AF_INET6 then None
          else non_empty_text (ifname_loop fam ifname ifs))"

subsection \<open>Endpoints\<close>

definition LORICA_DEFAULT_INSIDE_FACING_PORT :: int where
  "LORICA_DEFAULT_INSIDE_FACING_PORT = 4080"

definition LORICA_DEFAULT_INSIDE_FACING_PORT_SEC :: int where
  "LORICA_DEFAULT_INSIDE_FACING_PORT_SEC = 4081"

definition LORICA_DEFAULT_OUTSIDE_FACING_PORT :: int where
  "LORICA_DEFAULT_OUTSIDE_FACING_PORT = 4082"

definition LORICA_DEFAULT_OUTSIDE_FACING_PORT_SEC :: int where
  "LORICA_DEFAULT_OUTSIDE_FACING_PORT_SEC = 4083"

definition SYS_PORT :: int where
  "SYS_PORT = -1"

lemmas port_defs =
  LORICA_DEFAULT_INSIDE_FACING_PORT_def LORICA_DEFAULT_INSIDE_FACING_PORT_SEC_def
  LORICA_DEFAULT_OUTSIDE_FACING_PORT_def LORICA_DEFAULT_OUTSIDE_FACING_PORT_SEC_def

record endpoint =
  ep_external :: bool
  ep_hostname :: string
  ep_port :: int
  ep_alias :: string
  ep_is_ipv6 :: bool
  ep_ssl_port :: int

definition new_endpoint :: endpoint where
  "new_endpoint = \<lparr>ep_external = False, ep_hostname = [], ep_port = 0, ep_alias = [],
     ep_is_ipv6 = False, ep_ssl_port = 0\<rparr>"

definition endpoint_assign :: "endpoint \<Rightarrow> endpoint \<Rightarrow> endpoint" where
  "endpoint_assign self a =
     self\<lparr>ep_external := ep_external a, ep_hostname := ep_hostname a, ep_port := ep_port a,
          ep_is_ipv6 := ep_is_ipv6 a, ep_alias := ep_alias a, ep_ssl_port := ep_ssl_port a\<rparr>"

text \<open>\<open>operator!=\<close>, with the comparison of \<open>is_ipv6_\<close> as the source has it.\<close>

definition endpoint_neq :: "endpoint \<Rightarrow> endpoint \<Rightarrow> bool" where
  "endpoint_neq self a \<longleftrightarrow>
     ep_external self \<noteq> ep_external a
     \<or> ep_hostname self \<noteq> ep_hostname a
     \<or> ep_port self \<noteq> ep_port a
     \<or> ep_alias self \<noteq> ep_alias a
     \<or> ep_is_ipv6 self \<noteq> ep_is_ipv6 self
     \<or> ep_ssl_port self \<noteq> ep_ssl_port a"

definition as_tao_endpoint :: "os_env \<Rightarrow> endpoint \<Rightarrow> string \<Rightarrow> string" where
  "as_tao_endpoint env ep arg =
     (let arg = arg @ ''iiop://1.2@'';
          options = [];
          arg = (if ep_is_ipv6 ep then arg @ ''['' @ ep_hostname ep @ '']:''
                 else arg @ ep_hostname ep @ '':'');
          arg = (if SYS_PORT \<noteq> ep_port ep then arg @ itoa10 env (ep_port ep) else arg);
          options = (if ep_ssl_port ep \<noteq> 0
                     then options @ ''/ssl_port='' @ itoa10 env (ep_ssl_port ep) else options);
          options = (if ep_alias ep \<noteq> []
                     then options @ (if options = [] then ''/'' else '','')
                            @ ''hostname_in_ior='' @ ep_alias ep
                     else options)
      in arg @ options)"

subsection \<open>Parsing an endpoint\<close>

text \<open>\<open>parse_string\<close>, first part: the port and the host name as written.\<close>

definition parse_address :: "endpoint \<Rightarrow> string \<Rightarrow> bool \<Rightarrow> bool \<times> endpoint" where
  "parse_address self primary_addr outside_facing =
     (case str_rfind CHR '':'' primary_addr of
        None \<Rightarrow> (False, self)
      | Some port_sep \<Rightarrow>
          let port = int_cast (fst (strtol10 (c_str (substr_from primary_addr (port_sep + 1)))));
              port = (if 0 \<ge> port then
                        (if outside_facing then LORICA_DEFAULT_OUTSIDE_FACING_PORT
                         else LORICA_DEFAULT_INSIDE_FACING_PORT)
                      else port);
              self = self\<lparr>ep_port := port\<rparr>
          in
          if port_sep = 0 then (True, self\<lparr>ep_hostname := []\<rparr>)
          else if port_sep = 2 \<and> primary_addr ! 0 = CHR ''['' \<and> primary_addr ! 1 = CHR '']''
          then (True, self\<lparr>ep_is_ipv6 := True, ep_hostname := []\<rparr>)
          else if primary_addr ! 0 = CHR ''['' \<and> primary_addr ! (port_sep - 1) = CHR '']''
          then (True, self\<lparr>ep_is_ipv6 := True, ep_hostname := substr primary_addr 1 (port_sep - 2)\<rparr>)
          else (True, self\<lparr>ep_hostname := substr primary_addr 0 port_sep\<rparr>))"

text \<open>
  \<open>parse_string\<close>, the loop that asks for the address of an interface until there is one. Each
  turn reads \<open>hostname_[1]\<close>, and a failed turn sets \<open>hostname_\<close> to the empty string.
\<close>

function auto_address ::
    "os_env \<Rightarrow> family \<Rightarrow> string \<Rightarrow> string \<Rightarrow> nat \<Rightarrow> (string \<times> nat) result" where
  "auto_address env fam ifname hostname k =
     (if length hostname \<le> 1 then Fault BadSubscript
      else
        (let ip_addr = (if hostname ! 1 = CHR ''?'' then get_first_external_ip fam (if_list env k)
                        else get_ip_from_ifname fam (c_str ifname) (if_list env k))
         in case ip_addr of
              Some a \<Rightarrow> Ok (a, k + 1)
            | None \<Rightarrow> auto_address env fam ifname [] (k + 1)))"
  by pat_completeness auto
termination
  by (relation "measure (\<lambda>(env, fam, ifname, hostname, k). length hostname)") auto

text \<open>\<open>parse_string\<close>, the interface name extensions for IPv4 and IPv6.\<close>

definition resolve_ipv4 :: "os_env \<Rightarrow> endpoint \<Rightarrow> nat \<Rightarrow> (endpoint \<times> nat) result" where
  "resolve_ipv4 env self k =
     (if ep_hostname self \<noteq> [] \<and> ep_hostname self ! 0 = CHR ''%'' then
        (let ifname = substr_from (ep_hostname self) 1 in
         if ifname = [] then Ok (self\<lparr>ep_hostname := []\<rparr>, k)
         else bindR (auto_address env AF_INET ifname (ep_hostname self) k)
                (\<lambda>(a, k). Ok (self\<lparr>ep_hostname := a\<rparr>, k)))
      else Ok (self, k))"

definition resolve_ipv6 :: "os_env \<Rightarrow> endpoint \<Rightarrow> nat \<Rightarrow> (endpoint \<times> nat) result" where
  "resolve_ipv6 env self k =
     (if ep_hostname self \<noteq> [] \<and> ep_hostname self ! 0 = CHR ''+'' then
        (let ifname = substr_from (ep_hostname self) 1;
             self = self\<lparr>ep_is_ipv6 := True\<rparr> in
         if ifname = [] then Ok (self\<lparr>ep_hostname := []\<rparr>, k)
         else bindR (auto_address env AF_INET6 ifname (ep_hostname self) k)
                (\<lambda>(a, k). Ok (self\<lparr>ep_hostname := a\<rparr>, k)))
      else Ok (self, k))"

definition default_hostname :: "os_env \<Rightarrow> endpoint \<Rightarrow> endpoint" where
  "default_hostname env self =
     (if ep_hostname self = [] then self\<lparr>ep_hostname := os_hostname env\<rparr> else self)"

text \<open>The text from \<open>begin\<close> to the next comma, or to the end.\<close>

definition option_text :: "string \<Rightarrow> nat \<Rightarrow> nat \<Rightarrow> string" where
  "option_text ep_str opt beg =
     (case str_find CHR '','' ep_str opt of
        None \<Rightarrow> substr_from ep_str beg
      | Some comma \<Rightarrow> substr ep_str beg (comma - beg))"

text \<open>\<open>parse_string\<close>, last part: the modifiers after the slash.\<close>

definition parse_options ::
    "os_env \<Rightarrow> endpoint \<Rightarrow> string \<Rightarrow> nat \<Rightarrow> bool \<Rightarrow> nat \<Rightarrow> bool \<times> endpoint \<times> nat" where
  "parse_options env self ep_str option_pos outside_facing k =
     (let self = (case str_find_sub ''alias='' ep_str option_pos of
                    None \<Rightarrow> self
                  | Some opt \<Rightarrow> self\<lparr>ep_alias := option_text ep_str opt (opt + length ''alias='')\<rparr>)
      in
      if str_find_sub ''random_alias'' ep_str option_pos \<noteq> None
         \<and> str_find_sub ''alias='' ep_str option_pos \<noteq> None
      then (False, self, k)
      else
        (let (self, k) = (if str_find_sub ''random_alias'' ep_str option_pos \<noteq> None
                          then (self\<lparr>ep_alias := c_str (gen_uuid env k)\<rparr>, k + 1) else (self, k))
         in
         case str_find_sub ''ssl_port='' ep_str option_pos of
           None \<Rightarrow> (True, self, k)
         | Some opt \<Rightarrow>
             let portstr = option_text ep_str opt (opt + length ''ssl_port='');
                 p = int_cast (fst (strtol10 (c_str portstr)));
                 p = (if 0 \<ge> p then
                        (if outside_facing then LORICA_DEFAULT_OUTSIDE_FACING_PORT_SEC
                         else LORICA_DEFAULT_INSIDE_FACING_PORT_SEC)
                      else p)
             in (True, self\<lparr>ep_ssl_port := p\<rparr>, k)))"

definition parse_string ::
    "os_env \<Rightarrow> endpoint \<Rightarrow> string \<Rightarrow> bool \<Rightarrow> nat \<Rightarrow> (bool \<times> endpoint \<times> nat) result" where
  "parse_string env self ep_str outside_facing k =
     (let self = self\<lparr>ep_is_ipv6 := False, ep_ssl_port := 0\<rparr>;
          option_pos = str_find CHR ''/'' ep_str 0;
          primary_addr = (case option_pos of None \<Rightarrow> ep_str | Some p \<Rightarrow> substr ep_str 0 p);
          (ok, self) = parse_address self primary_addr outside_facing
      in
      if \<not> ok then Ok (False, self, k)
      else
        bindR (resolve_ipv4 env self k) (\<lambda>(self, k).
        bindR (resolve_ipv6 env self k) (\<lambda>(self, k).
          let self = default_hostname env self in
          case option_pos of
            None \<Rightarrow> Ok (True, self, k)
          | Some p \<Rightarrow> Ok (parse_options env self ep_str (p + 1) outside_facing k))))"

subsection \<open>The address loop\<close>

text \<open>One look at the interfaces, as the body of the loop makes it.\<close>

definition query_address :: "os_env \<Rightarrow> family \<Rightarrow> string \<Rightarrow> string \<Rightarrow> nat \<Rightarrow> string option" where
  "query_address env fam ifname hostname k =
     (if hostname ! 1 = CHR ''?'' then get_first_external_ip fam (if_list env k)
      else get_ip_from_ifname fam (c_str ifname) (if_list env k))"

declare auto_address.simps [simp del]

lemma auto_address_once:
  "auto_address env fam ifname hostname k =
     (if length hostname \<le> 1 then Fault BadSubscript
      else case query_address env fam ifname hostname k of
             Some a \<Rightarrow> Ok (a, k + 1)
           | None \<Rightarrow> Fault BadSubscript)"
proof -
  have nil: "auto_address env fam ifname [] j = Fault BadSubscript" for j
    by (simp add: auto_address.simps)
  show ?thesis
    by (subst auto_address.simps) (simp add: query_address_def Let_def nil split: option.split)
qed

lemma non_empty_text_Some: "non_empty_text r = Some a \<Longrightarrow> a \<noteq> []"
  by (auto simp: non_empty_text_def split: option.splits if_splits)

lemma query_address_nonempty: "query_address env fam ifname hostname k = Some a \<Longrightarrow> a \<noteq> []"
  by (auto simp: query_address_def get_first_external_ip_def get_ip_from_ifname_def
      split: if_splits option.splits dest: non_empty_text_Some)

lemma auto_address_nonempty: "auto_address env fam ifname hostname k = Ok (a, k') \<Longrightarrow> a \<noteq> []"
  by (auto simp: auto_address_once split: if_splits option.splits dest: query_address_nonempty)

lemma auto_address_fault: "auto_address env fam ifname hostname k = Fault f \<Longrightarrow> f = BadSubscript"
  by (auto simp: auto_address_once split: if_splits option.splits)

subsection \<open>Frames and bounds\<close>

lemma parse_address_frame:
  assumes "parse_address self s out = (ok, ep)"
  shows "ep_external ep = ep_external self" and "ep_alias ep = ep_alias self"
    and "ep_ssl_port ep = ep_ssl_port self"
  using assms by (auto simp: parse_address_def Let_def split: option.splits if_splits)

lemma parse_address_ok: "fst (parse_address self s out) \<longleftrightarrow> CHR '':'' \<in> set s"
proof (cases "str_rfind CHR '':'' s")
  case None
  then show ?thesis by (simp add: parse_address_def)
next
  case (Some i)
  then have "CHR '':'' \<in> set s" by (metis option.distinct(1) str_rfind_None)
  with Some show ?thesis by (simp add: parse_address_def Let_def)
qed

lemma parse_address_port:
  "parse_address self s out = (True, ep) \<Longrightarrow> 0 < ep_port ep \<and> ep_port ep \<le> 2147483647"
  using int_cast_range
  by (auto simp: parse_address_def Let_def port_defs split: option.splits if_splits)

lemma resolve_frame:
  "resolve_ipv4 env self k = Ok (ep, k') \<Longrightarrow>
     ep_external ep = ep_external self \<and> ep_alias ep = ep_alias self
     \<and> ep_ssl_port ep = ep_ssl_port self \<and> ep_port ep = ep_port self"
  "resolve_ipv6 env self k = Ok (ep, k') \<Longrightarrow>
     ep_external ep = ep_external self \<and> ep_alias ep = ep_alias self
     \<and> ep_ssl_port ep = ep_ssl_port self \<and> ep_port ep = ep_port self"
  by (auto simp: resolve_ipv4_def resolve_ipv6_def Let_def bindR_eq_Ok split: if_splits)

lemma resolve_fault:
  "resolve_ipv4 env self k = Fault f \<Longrightarrow> f = BadSubscript"
  "resolve_ipv6 env self k = Fault f \<Longrightarrow> f = BadSubscript"
  by (auto simp: resolve_ipv4_def resolve_ipv6_def Let_def bindR_eq_Fault
      split: if_splits dest: auto_address_fault)

lemma resolve_id:
  "ep_hostname self = [] \<or> ep_hostname self ! 0 \<noteq> CHR ''%'' \<Longrightarrow> resolve_ipv4 env self k = Ok (self, k)"
  "ep_hostname self = [] \<or> ep_hostname self ! 0 \<noteq> CHR ''+'' \<Longrightarrow> resolve_ipv6 env self k = Ok (self, k)"
  by (auto simp: resolve_ipv4_def resolve_ipv6_def)

lemma default_hostname_frame [simp]:
  "ep_external (default_hostname env self) = ep_external self"
  "ep_alias (default_hostname env self) = ep_alias self"
  "ep_ssl_port (default_hostname env self) = ep_ssl_port self"
  "ep_port (default_hostname env self) = ep_port self"
  "ep_is_ipv6 (default_hostname env self) = ep_is_ipv6 self"
  by (simp_all add: default_hostname_def)

lemma default_hostname_nonempty:
  "os_hostname env \<noteq> [] \<Longrightarrow> ep_hostname (default_hostname env self) \<noteq> []"
  by (simp add: default_hostname_def)

lemma parse_options_frame:
  "parse_options env self s p out k = (ok, ep, k') \<Longrightarrow>
     ep_external ep = ep_external self \<and> ep_port ep = ep_port self
     \<and> ep_hostname ep = ep_hostname self \<and> ep_is_ipv6 ep = ep_is_ipv6 self"
  by (auto simp: parse_options_def Let_def split: option.splits if_splits)

lemma parse_options_ok:
  "fst (parse_options env self s p out k) \<longleftrightarrow>
     \<not> (str_find_sub ''random_alias'' s p \<noteq> None \<and> str_find_sub ''alias='' s p \<noteq> None)"
  by (simp add: parse_options_def Let_def split: option.split prod.split)

lemma parse_options_ssl:
  "parse_options env self s p out k = (True, ep, k') \<Longrightarrow> ep_ssl_port self = 0 \<Longrightarrow>
     0 \<le> ep_ssl_port ep \<and> ep_ssl_port ep \<le> 2147483647"
  using int_cast_range [of "fst (strtol10 (c_str _))"]
  by (auto simp: parse_options_def Let_def port_defs split: option.splits if_splits prod.splits)

subsection \<open>Parsing as a whole\<close>

text \<open>The address part of an endpoint string and the position after the slash.\<close>

definition primary_part :: "string \<Rightarrow> string" where
  "primary_part s = takeWhile (\<lambda>c. c \<noteq> CHR ''/'') s"

lemma primary_addr_eq:
  "(case str_find CHR ''/'' s 0 of None \<Rightarrow> s | Some p \<Rightarrow> substr s 0 p) = primary_part s"
proof (cases "index_of CHR ''/'' s")
  case None
  then have "takeWhile (\<lambda>c. c \<noteq> CHR ''/'') s = s"
    by (intro takeWhile_eq_all_conv [THEN iffD2]) auto
  with None show ?thesis by (simp only: str_find_0 option.case primary_part_def)
qed (auto simp: primary_part_def substr_def dest: index_of_Some_takeWhile)

text \<open>The host name that \<open>parse_address\<close> reads, where there is a port separator.\<close>

lemma parse_string_cases:
  assumes "parse_string env self s out k = r"
  obtains (no_port) ep where "CHR '':'' \<notin> set (primary_part s)" and "r = Ok (False, ep, k)"
  | (fault) "CHR '':'' \<in> set (primary_part s)" and "r = Fault BadSubscript"
  | (parsed) ep0 ep1 ep2 k1 k2 where
      "parse_address (self\<lparr>ep_is_ipv6 := False, ep_ssl_port := 0\<rparr>) (primary_part s) out = (True, ep0)"
      and "resolve_ipv4 env ep0 k = Ok (ep1, k1)" and "resolve_ipv6 env ep1 k1 = Ok (ep2, k2)"
      and "r = (case str_find CHR ''/'' s 0 of
                  None \<Rightarrow> Ok (True, default_hostname env ep2, k2)
                | Some p \<Rightarrow> Ok (parse_options env (default_hostname env ep2) s (p + 1) out k2))"
proof -
  let ?self = "self\<lparr>ep_is_ipv6 := False, ep_ssl_port := 0\<rparr>"
  obtain ok ep0 where pa: "parse_address ?self (primary_part s) out = (ok, ep0)" by force
  have r: "r = (if \<not> ok then Ok (False, ep0, k)
      else bindR (resolve_ipv4 env ep0 k) (\<lambda>(self, k).
           bindR (resolve_ipv6 env self k) (\<lambda>(self, k).
             case str_find CHR ''/'' s 0 of
               None \<Rightarrow> Ok (True, default_hostname env self, k)
             | Some p \<Rightarrow> Ok (parse_options env (default_hostname env self) s (p + 1) out k))))"
    unfolding assms [symmetric] parse_string_def Let_def primary_addr_eq pa prod.case ..
  have ok: "ok \<longleftrightarrow> CHR '':'' \<in> set (primary_part s)"
    using parse_address_ok [of ?self "primary_part s" out] pa by simp
  show thesis
  proof (cases ok)
    case False
    with ok r show thesis by (intro no_port) auto
  next
    case True
    show thesis
    proof (cases "resolve_ipv4 env ep0 k")
      case (Inl f)
      with True ok r show thesis by (intro fault) (auto dest: resolve_fault)
    next
      case (Inr a)
      obtain ep1 k1 where a: "a = (ep1, k1)" by force
      show thesis
      proof (cases "resolve_ipv6 env ep1 k1")
        case (Inl f)
        with True ok r Inr a show thesis by (intro fault) (auto dest: resolve_fault)
      next
        case (Inr b)
        with True r \<open>resolve_ipv4 env ep0 k = Inr a\<close> a pa show thesis
          by (cases b) (rule parsed, auto)
      qed
    qed
  qed
qed

text \<open>The port that a text stands for, with the default for what is not a positive number.\<close>

definition port_value :: "string \<Rightarrow> bool \<Rightarrow> int" where
  "port_value ps out =
     (let p = int_cast (fst (strtol10 (c_str ps))) in
      if 0 \<ge> p then (if out then 4082 else 4080) else p)"

lemma port_value_dec:
  assumes "0 < p" "p \<le> 2147483647" shows "port_value (dec_text p) out = p"
proof -
  have "CHR 0x00 \<notin> set (dec_text p)" using dec_text_chars [of p] assms isdigit_neq(5) by fastforce
  with assms show ?thesis
    by (simp add: port_value_def c_str_id strtol10_dec_text long_max_def int_cast_id)
qed

lemma parse_address_host:
  assumes "CHR '':'' \<notin> set ps" and "h \<noteq> []" and "h ! 0 \<noteq> CHR ''[''"
  shows "parse_address self (h @ '':'' @ ps) out =
           (True, self\<lparr>ep_port := port_value ps out, ep_hostname := h\<rparr>)"
  using assms
  by (simp add: parse_address_def Let_def port_value_def port_defs substr_from_def substr_def nth_append)

lemma parse_address_ipv6:
  assumes "CHR '':'' \<notin> set ps"
  shows "parse_address self (''['' @ h @ '']:'' @ ps) out =
           (True, self\<lparr>ep_port := port_value ps out, ep_is_ipv6 := True, ep_hostname := h\<rparr>)"
proof -
  have rf: "str_rfind CHR '':'' (''['' @ h @ '']:'' @ ps) = Some (length h + 2)"
    using str_rfind_append [OF assms, of "''['' @ h @ '']''"] by simp
  have br: "(''['' @ h @ '']:'' @ ps) ! (length h + 1) = CHR '']''"
    by (simp add: nth_append)
  show ?thesis
  proof (cases "h = []")
    case True
    with rf show ?thesis
      by (simp add: parse_address_def Let_def port_value_def port_defs substr_from_def)
  next
    case False
    have tk: "substr (''['' @ h @ '']:'' @ ps) 1 (length h) = h"
      by (simp add: substr_def)
    have dr: "substr_from (''['' @ h @ '']:'' @ ps) (length h + 3) = ps"
      by (simp add: substr_from_def numeral_eq_Suc)
    from False rf br tk dr show ?thesis
      by (simp add: parse_address_def Let_def port_value_def port_defs numeral_eq_Suc)
  qed
qed

lemma primary_part_id: "CHR ''/'' \<notin> set s \<Longrightarrow> primary_part s = s"
  unfolding primary_part_def by (rule takeWhile_eq_all_conv [THEN iffD2]) auto

lemma parse_string_plain:
  assumes "CHR ''/'' \<notin> set s"
    and "parse_address (self\<lparr>ep_is_ipv6 := False, ep_ssl_port := 0\<rparr>) s out = (True, ep)"
    and "ep_hostname ep \<noteq> []" and "ep_hostname ep ! 0 \<noteq> CHR ''%''" and "ep_hostname ep ! 0 \<noteq> CHR ''+''"
  shows "parse_string env self s out k = Ok (True, ep, k)"
proof -
  note pp = primary_part_id [OF assms(1)]
  have sl: "str_find CHR ''/'' s 0 = None" using assms(1) by simp
  have "parse_string env self s out k = Ok (True, default_hostname env ep, k)"
    unfolding parse_string_def Let_def primary_addr_eq pp assms(2) prod.case
    using assms(3-5) sl by (simp add: resolve_id)
  with assms(3) show ?thesis by (simp add: default_hostname_def)
qed

subsection \<open>Properties\<close>

text \<open>
  C16: The shape of every endpoint that \<open>parse_string\<close> accepts, on a system whose own host name is not empty: its port is a positive
  \<open>int\<close> (ports above 65535 are accepted too, as in the example below), its SSL port is an \<open>int\<close> that is not negative, and its host name is not empty. The
  flag \<open>is_external_\<close> of the object is left as it was: \<open>parse_string\<close> does not set it from its own argument for the side.
\<close>

theorem parse_string_endpoint:
  assumes "parse_string env self s out k = Ok (True, ep, k')" and "os_hostname env \<noteq> []"
  shows "0 < ep_port ep \<and> ep_port ep \<le> 2147483647 \<and> 0 \<le> ep_ssl_port ep
    \<and> ep_ssl_port ep \<le> 2147483647 \<and> ep_hostname ep \<noteq> [] \<and> ep_external ep = ep_external self"
  using assms(1)
proof (cases rule: parse_string_cases)
  case (parsed ep0 ep1 ep2 k1 k2)
  let ?ep = "default_hostname env ep2"
  have ep: "0 < ep_port ?ep \<and> ep_port ?ep \<le> 2147483647 \<and> ep_ssl_port ?ep = 0
      \<and> ep_external ?ep = ep_external self \<and> ep_hostname ?ep \<noteq> []"
    using parse_address_port [OF parsed(1)] parse_address_frame [OF parsed(1)]
      resolve_frame(1) [OF parsed(2)] resolve_frame(2) [OF parsed(3)]
      default_hostname_nonempty [OF assms(2)] by simp
  show ?thesis
  proof (cases "str_find CHR ''/'' s 0")
    case None
    with parsed(4) ep show ?thesis by simp
  next
    case (Some p)
    with parsed(4) have po: "parse_options env ?ep s (p + 1) out k2 = (True, ep, k')"
      by simp
    from ep parse_options_frame [OF po] parse_options_ssl [OF po] show ?thesis by simp
  qed
qed auto

definition sample_env :: os_env where
  "sample_env = \<lparr>if_list = (\<lambda>_. Some []), os_hostname = ''gate'', gen_uuid = (\<lambda>k. ''uuid-'' @ nat_text k),
     itoa10 = dec_text\<rparr>"

theorem parse_string_endpoint_witness:
  "\<exists>ep. parse_string sample_env new_endpoint ''[]:70000/ssl_port=0,alias=a.org'' True 0 = Ok (True, ep, 0)
     \<and> 0 < ep_port ep \<and> ep_hostname ep \<noteq> [] \<and> 0 \<le> ep_ssl_port ep"
proof -
  let ?ep = "\<lparr>ep_external = False, ep_hostname = ''gate'', ep_port = 70000, ep_alias = ''a.org'',
     ep_is_ipv6 = True, ep_ssl_port = 4083\<rparr>"
  have p: "parse_string sample_env new_endpoint ''[]:70000/ssl_port=0,alias=a.org'' True 0 = Ok (True, ?ep, 0)"
    by code_simp
  moreover have "os_hostname sample_env \<noteq> []" by (simp add: sample_env_def)
  ultimately show ?thesis using parse_string_endpoint [OF p] by blast
qed

text \<open>
  When \<open>parse_string\<close> returns, it accepts the text exactly if the address has a port
  separator and the modifiers do not ask for both an alias and a random alias.
\<close>

theorem parse_string_accepts:
  assumes "parse_string env self s out k = Ok (ok, ep, k')"
  shows "ok \<longleftrightarrow> CHR '':'' \<in> set (primary_part s)
    \<and> (case str_find CHR ''/'' s 0 of
         None \<Rightarrow> True
       | Some p \<Rightarrow> str_find_sub ''random_alias'' s (p + 1) = None
                   \<or> str_find_sub ''alias='' s (p + 1) = None)"
  using assms
proof (cases rule: parse_string_cases)
  case (parsed ep0 ep1 ep2 k1 k2)
  have colon: "CHR '':'' \<in> set (primary_part s)"
    using parse_address_ok [of "self\<lparr>ep_is_ipv6 := False, ep_ssl_port := 0\<rparr>" "primary_part s" out]
      parsed(1) by simp
  show ?thesis
  proof (cases "str_find CHR ''/'' s 0")
    case None
    with parsed(4) colon show ?thesis by simp
  next
    case (Some p)
    with parsed(4) have "ok = fst (parse_options env (default_hostname env ep2) s (p + 1) out k2)"
      by (metis Inr_inject fst_conv option.simps(5))
    with Some colon show ?thesis unfolding parse_options_ok by simp
  qed
qed auto

theorem parse_string_accepts_witness:
  "\<exists>ep k. parse_string sample_env new_endpoint ''h:1/random_alias,alias=x'' True 0 = Ok (False, ep, k)
     \<and> str_find_sub ''random_alias'' ''h:1/random_alias,alias=x'' 4 \<noteq> None"
proof -
  let ?s = "''h:1/random_alias,alias=x''"
  obtain ok ep k where p: "parse_string sample_env new_endpoint ?s True 0 = Ok (ok, ep, k)"
    and n: "\<not> ok"
    by (rule that [of False "new_endpoint\<lparr>ep_hostname := ''h'', ep_port := 1, ep_alias := ''x''\<rparr>" 0]) code_simp+
  have "str_find_sub ''random_alias'' ?s 4 \<noteq> None" by code_simp
  with p n parse_string_accepts [OF p] show ?thesis by auto
qed

text \<open>
  An endpoint that names an interface (\<open>%eth0:4080\<close>) gets its address only if the first
  look at the interfaces finds one: after a failure the loop that is meant to retry every
  ten seconds reads the second character of the host name, which it has just emptied.
\<close>

theorem parse_string_no_retry:
  assumes "ifname \<noteq> []" and "CHR ''/'' \<notin> set ifname" and "CHR '':'' \<notin> set ps" and "CHR ''/'' \<notin> set ps"
    and "query_address env AF_INET ifname (''%'' @ ifname) k = None"
  shows "parse_string env self (''%'' @ ifname @ '':'' @ ps) out k = Fault BadSubscript"
proof -
  let ?s = "(''%'' @ ifname) @ '':'' @ ps"
  let ?self = "self\<lparr>ep_is_ipv6 := False, ep_ssl_port := 0\<rparr>"
  have pp: "primary_part ?s = ?s" using assms by (intro primary_part_id) simp
  have pa: "parse_address ?self ?s out =
      (True, ?self\<lparr>ep_port := port_value ps out, ep_hostname := ''%'' @ ifname\<rparr>)"
    by (rule parse_address_host) (use assms in auto)
  have "resolve_ipv4 env (?self\<lparr>ep_port := port_value ps out, ep_hostname := ''%'' @ ifname\<rparr>) k
      = Fault BadSubscript"
    using assms by (simp add: resolve_ipv4_def Let_def substr_from_def auto_address_once)
  then have "parse_string env self ?s out k = Fault BadSubscript"
    unfolding parse_string_def Let_def primary_addr_eq pp pa prod.case by simp
  then show ?thesis by simp
qed

theorem parse_string_no_retry_witness:
  "parse_string sample_env new_endpoint ''%eth0:4080'' False 0 = Fault BadSubscript"
proof -
  have "query_address sample_env AF_INET ''eth0'' (''%'' @ ''eth0'') 0 = None" by code_simp
  then show ?thesis
    using parse_string_no_retry [of "''eth0''" "''4080''" sample_env 0 new_endpoint False] by simp
qed

text \<open>The text of an address as the configuration file has it, and what it parses to.\<close>

definition address_text :: "bool \<Rightarrow> string \<Rightarrow> int \<Rightarrow> string" where
  "address_text v6 h p = (if v6 then ''['' @ h @ '']'' else h) @ '':'' @ dec_text p"

lemma parse_address_text:
  assumes "0 < p" and "p \<le> 2147483647" and "h \<noteq> []" and "CHR ''/'' \<notin> set h" and "h ! 0 \<noteq> CHR ''%''" and "h ! 0 \<noteq> CHR ''+''"
    and "v6 \<or> h ! 0 \<noteq> CHR ''[''"
  shows "parse_string env self (address_text v6 h p) out k
    = Ok (True, self\<lparr>ep_is_ipv6 := v6, ep_ssl_port := 0, ep_port := p, ep_hostname := h\<rparr>, k)"
proof -
  let ?s = "address_text v6 h p"
  let ?self = "self\<lparr>ep_is_ipv6 := False, ep_ssl_port := 0\<rparr>"
  let ?ep = "?self\<lparr>ep_port := p, ep_is_ipv6 := v6, ep_hostname := h\<rparr>"
  have num: "CHR '':'' \<notin> set (dec_text p)" "CHR ''/'' \<notin> set (dec_text p)"
    using dec_text_chars [of p] assms(1) isdigit_neq by fastforce+
  have pv: "port_value (dec_text p) out = p" using assms by (simp add: port_value_dec)
  have "parse_address ?self ?s out = (True, ?ep)"
  proof (cases v6)
    case True
    with parse_address_ipv6 [OF num(1), of ?self h out] pv show ?thesis by (simp add: address_text_def)
  next
    case False
    with parse_address_host [OF num(1), of h ?self out] assms pv show ?thesis by (simp add: address_text_def)
  qed
  then have "parse_string env self ?s out k = Ok (True, ?ep, k)"
    by (rule parse_string_plain [rotated]) (use assms num in \<open>auto simp: address_text_def\<close>)
  then show ?thesis by simp
qed

text \<open>
  Print and parse: a host name and a port, written as the configuration file has them,
  are read back, for a host name and for an IPv6 address in brackets, and the endpoint is
  handed to TAO with the same host and port.
\<close>

theorem parse_string_roundtrip:
  assumes "\<forall>n. itoa10 env n = dec_text n" and "0 < p" and "p \<le> 2147483647"
    and "h \<noteq> []" and "CHR ''/'' \<notin> set h" and "h ! 0 \<noteq> CHR ''%''" and "h ! 0 \<noteq> CHR ''+''"
    and "v6 \<or> h ! 0 \<noteq> CHR ''[''" and "ep_alias self = []"
  shows "\<exists>ep. parse_string env self
            ((if v6 then ''['' @ h @ '']'' else h) @ '':'' @ itoa10 env p) out k = Ok (True, ep, k)
        \<and> ep_hostname ep = h \<and> ep_port ep = p \<and> ep_is_ipv6 ep = v6
        \<and> as_tao_endpoint env ep [] =
            ''iiop://1.2@'' @ (if v6 then ''['' @ h @ '']'' else h) @ '':'' @ itoa10 env p"
proof -
  let ?ep = "self\<lparr>ep_is_ipv6 := v6, ep_ssl_port := 0, ep_port := p, ep_hostname := h\<rparr>"
  have "parse_string env self ((if v6 then ''['' @ h @ '']'' else h) @ '':'' @ itoa10 env p) out k = Ok (True, ?ep, k)"
    using parse_address_text [OF assms(2-8), of env self out k] assms(1) by (simp add: address_text_def)
  moreover have "as_tao_endpoint env ?ep [] = ''iiop://1.2@'' @ (if v6 then ''['' @ h @ '']'' else h) @ '':'' @ itoa10 env p"
    using assms by (simp add: as_tao_endpoint_def SYS_PORT_def)
  ultimately show ?thesis by (intro exI [of _ ?ep]) simp
qed

theorem parse_string_roundtrip_witness:
  "\<exists>ep. parse_string sample_env new_endpoint (''[::1]:'' @ itoa10 sample_env 4080) False 0 = Ok (True, ep, 0)
     \<and> ep_hostname ep = ''::1'' \<and> ep_port ep = 4080 \<and> ep_is_ipv6 ep"
  using parse_string_roundtrip [of sample_env 4080 "''::1''" True new_endpoint False 0]
  by (auto simp: sample_env_def new_endpoint_def)

text \<open>
  The comparison \<open>operator!=\<close> of endpoints never looks at the address family: two endpoints
  compare equal exactly if they agree in every field but \<open>is_ipv6_\<close>.
\<close>

theorem endpoint_neq_ignores_ipv6:
  "\<not> endpoint_neq a b \<longleftrightarrow> a = b\<lparr>ep_is_ipv6 := ep_is_ipv6 a\<rparr>"
  by (cases a; cases b) (auto simp: endpoint_neq_def)

end
