(* ===== verification/ConfigBase.thy ===== *)
theory ConfigBase
  imports FileConfig Endpoint
begin

text \<open>
  The configuration object (src/src/lorica/ConfigBase.h and ConfigBase.cpp): endpoints from the
  configured addresses, the argument vectors for the ORB and the interface repository, and
  the evaluator switches.

  The pure virtual functions of the class are the record \<open>config_src\<close>; \<open>file_source\<close> is the
  one that \<open>FileConfig\<close> provides.
\<close>

subsection \<open>The configuration object\<close>

text \<open>The pure virtual functions of \<open>Lorica::Config\<close>.\<close>

record config_src =
  cs_value :: "string \<Rightarrow> string \<Rightarrow> string"
  cs_long :: "string \<Rightarrow> int \<Rightarrow> int"
  cs_bool :: "string \<Rightarrow> bool \<Rightarrow> bool"
  cs_debug :: int

definition file_source :: "(string \<Rightarrow> int) \<Rightarrow> file_config \<Rightarrow> config_src" where
  "file_source hash cfg =
     \<lparr>cs_value = get_value hash cfg, cs_long = get_long_value hash cfg,
      cs_bool = get_bool_value hash cfg, cs_debug = cfg_debug_level cfg\<rparr>"

text \<open>The private members of \<open>Lorica::Config\<close>.\<close>

record config =
  cfg_endpoints :: "endpoint list"
  orb_args :: "string list"
  ifr_args :: "string list"
  secure_avail :: bool

definition LORICA_EXE_NAME :: string where
  "LORICA_EXE_NAME = ''lorica.exe''"

definition IFR_SERVICE_EXE_NAME :: string where
  "IFR_SERVICE_EXE_NAME = ''IFR_Service.exe''"

definition IFR_SERVICE_IOR_FILE :: string where
  "IFR_SERVICE_IOR_FILE = ''ifr.ior''"

definition IFR_SERVICE_CACHE_FILE :: string where
  "IFR_SERVICE_CACHE_FILE = ''ifr.cache''"

definition null_eval_type_ids :: "config_src \<Rightarrow> string" where
  "null_eval_type_ids src = cs_value src ''Null_Eval_Type_ID'' []"

definition null_eval_any :: "config_src \<Rightarrow> bool" where
  "null_eval_any src =
     (if null_eval_type_ids src \<noteq> [] then False else cs_bool src ''Null_Evaluator_Any'' False)"

definition generic_evaluator :: "config_src \<Rightarrow> bool" where
  "generic_evaluator src = cs_bool src ''Generic_Evaluator'' False"

definition collocate_ifr :: "config_src \<Rightarrow> bool" where
  "collocate_ifr src = cs_bool src ''Collocate_IFR'' True"

definition secure_available :: "config \<Rightarrow> bool" where
  "secure_available cfg = secure_avail cfg"

definition set_secure_available :: "bool \<Rightarrow> config \<Rightarrow> config" where
  "set_secure_available sa cfg = cfg\<lparr>secure_avail := sa\<rparr>"

subsection \<open>Endpoints from the configuration\<close>

text \<open>The loop of \<open>init_endpoints\<close>: the flag it returns, the endpoints so far, the query counter.\<close>

function endpoint_loop ::
    "os_env \<Rightarrow> bool \<Rightarrow> string \<Rightarrow> nat \<Rightarrow> endpoint list \<Rightarrow> nat \<Rightarrow> (bool \<times> endpoint list \<times> nat) result" where
  "endpoint_loop env do_extern eps_str pos eps k =
     (let tpos = str_find CHR '' '' eps_str pos;
          ep_str = (case tpos of None \<Rightarrow> substr_from eps_str pos
                    | Some t \<Rightarrow> substr eps_str pos (t - pos))
      in
      if ep_str = [] then Ok (True, eps, k)
      else case parse_string env (new_endpoint\<lparr>ep_external := do_extern\<rparr>) ep_str do_extern k of
             Inl e \<Rightarrow> Inl e
           | Inr (ok, ep, k') \<Rightarrow>
               if ok then
                 (case tpos of
                    None \<Rightarrow> Ok (True, eps @ [ep], k')
                  | Some t \<Rightarrow> endpoint_loop env do_extern eps_str (t + 1) (eps @ [ep]) k')
               else Ok (False, eps, k'))"
  by pat_completeness auto
termination
  by (relation "measure (\<lambda>(env, do_extern, s, pos, eps, k). length s - pos)")
     (auto simp: str_find_shrinks)

declare endpoint_loop.simps [simp del]

definition endpoint_text :: "os_env \<Rightarrow> config_src \<Rightarrow> bool \<Rightarrow> string" where
  "endpoint_text env src do_extern =
     (let eps_str = (if do_extern then cs_value src ''External_Address'' []
                     else cs_value src ''Internal_Address'' [])
      in if eps_str = [] then
           (if do_extern then os_hostname env @ '':'' @ ''4082'' else ''localhost:'' @ ''4080'')
         else eps_str)"

definition init_endpoints ::
    "os_env \<Rightarrow> config_src \<Rightarrow> bool \<Rightarrow> config \<Rightarrow> nat \<Rightarrow> (bool \<times> config \<times> nat) result" where
  "init_endpoints env src do_extern cfg k =
     bindR (endpoint_loop env do_extern (endpoint_text env src do_extern) 0 (cfg_endpoints cfg) k)
       (\<lambda>(ok, eps, k). Ok (ok, cfg\<lparr>cfg_endpoints := eps\<rparr>, k))"

text \<open>\<open>endpoints_.empty() && (!init_endpoints(true) || !init_endpoints(false))\<close>\<close>

definition endpoints_missing ::
    "os_env \<Rightarrow> config_src \<Rightarrow> config \<Rightarrow> nat \<Rightarrow> (bool \<times> config \<times> nat) result" where
  "endpoints_missing env src cfg k =
     (if cfg_endpoints cfg \<noteq> [] then Ok (False, cfg, k)
      else bindR (init_endpoints env src True cfg k) (\<lambda>(ok, cfg, k).
             if \<not> ok then Ok (True, cfg, k)
             else bindR (init_endpoints env src False cfg k) (\<lambda>(ok, cfg, k). Ok (\<not> ok, cfg, k))))"

definition get_endpoints ::
    "os_env \<Rightarrow> config_src \<Rightarrow> bool \<Rightarrow> config \<Rightarrow> nat \<Rightarrow> (endpoint list \<times> config \<times> nat) result" where
  "get_endpoints env src ext cfg k =
     bindR (endpoints_missing env src cfg k) (\<lambda>(missing, cfg, k).
       if missing then Ok ([], cfg\<lparr>cfg_endpoints := []\<rparr>, k)
       else Ok (filter (\<lambda>ep. ep_external ep = ext) (cfg_endpoints cfg), cfg, k))"

subsection \<open>Argument vectors\<close>

text \<open>The loop over the blanks of an option string; empty pieces are dropped.\<close>

function option_loop :: "string \<Rightarrow> nat \<Rightarrow> string list \<Rightarrow> string list" where
  "option_loop opts pos args =
     (let tpos = str_find CHR '' '' opts pos;
          piece = (case tpos of None \<Rightarrow> substr_from opts pos | Some t \<Rightarrow> substr opts pos (t - pos));
          args = (if piece \<noteq> [] then args @ [c_str piece] else args)
      in case tpos of None \<Rightarrow> args | Some t \<Rightarrow> option_loop opts (t + 1) args)"
  by pat_completeness auto
termination
  by (relation "measure (\<lambda>(s, pos, args). length s - pos)")
     (auto simp: str_find_shrinks)

declare option_loop.simps [simp del]

definition add_options :: "string \<Rightarrow> string list \<Rightarrow> string list" where
  "add_options opts args = (if opts \<noteq> [] then option_loop opts 0 args else args)"

text \<open>The strings handed to \<open>ACE_ARGV::add\<close>, in order.\<close>

definition get_orb_options_copy :: "config \<Rightarrow> string list" where
  "get_orb_options_copy cfg = map c_str (orb_args cfg)"

definition get_ifr_options_copy :: "config \<Rightarrow> string list" where
  "get_ifr_options_copy cfg = map c_str (ifr_args cfg)"

definition endpoint_args :: "os_env \<Rightarrow> endpoint list \<Rightarrow> string list" where
  "endpoint_args env eps =
     concat (map (\<lambda>ep. [''-ORBListenEndpoints'', c_str (as_tao_endpoint env ep [])]) eps)"

definition debug_args :: "os_env \<Rightarrow> config_src \<Rightarrow> string list" where
  "debug_args env src =
     (if cs_debug src > 0 then [''-ORBDebuglevel'', itoa10 env (cs_debug src)] else [])"

definition get_orb_options ::
    "os_env \<Rightarrow> config_src \<Rightarrow> config \<Rightarrow> nat \<Rightarrow> (string list option \<times> config \<times> nat) result" where
  "get_orb_options env src cfg k =
     (if length (orb_args cfg) > 0 then Ok (Some (get_orb_options_copy cfg), cfg, k)
      else
        let cfg = cfg\<lparr>orb_args := [LORICA_EXE_NAME, ''-ORBUseSharedProfile'', ''0'']\<rparr>;
            opts = cs_value src ''ORB_Option'' [];
            cfg = cfg\<lparr>orb_args := add_options opts (orb_args cfg)\<rparr>
        in bindR (endpoints_missing env src cfg k) (\<lambda>(missing, cfg, k).
             if missing then Ok (None, cfg\<lparr>cfg_endpoints := [], orb_args := []\<rparr>, k)
             else
               let cfg = cfg\<lparr>orb_args := orb_args cfg @ endpoint_args env (cfg_endpoints cfg)\<rparr>;
                   cfg = cfg\<lparr>orb_args := orb_args cfg @ debug_args env src\<rparr>
               in Ok (Some (get_orb_options_copy cfg), cfg, k)))"

definition get_ifr_options :: "config_src \<Rightarrow> bool \<Rightarrow> config \<Rightarrow> string list \<times> config" where
  "get_ifr_options src dbg cfg =
     (if length (ifr_args cfg) > 0 then (get_ifr_options_copy cfg, cfg)
      else
        let args = [IFR_SERVICE_EXE_NAME, ''-o'',
                    c_str (cs_value src ''IFR_IOR_FILE'' IFR_SERVICE_IOR_FILE)];
            args = (if cs_bool src ''IFR_PERSISTENT'' True then
                      (let opt = cs_value src ''IFR_CACHE'' [];
                           opt = (if length opt = 0 then IFR_SERVICE_CACHE_FILE else opt)
                       in args @ [''-p'', ''-b'', c_str opt])
                    else args);
            args = add_options (cs_value src ''IFR_CmdOption'' []) args;
            cfg = cfg\<lparr>ifr_args := args\<rparr>
        in (get_ifr_options_copy cfg, cfg))"

subsection \<open>What the loops compute\<close>

fun parse_all ::
    "os_env \<Rightarrow> bool \<Rightarrow> string list \<Rightarrow> endpoint list \<Rightarrow> nat \<Rightarrow> (bool \<times> endpoint list \<times> nat) result" where
  "parse_all env ext [] eps k = Ok (True, eps, k)"
| "parse_all env ext (s # ss) eps k =
     (case parse_string env (new_endpoint\<lparr>ep_external := ext\<rparr>) s ext k of
        Inl e \<Rightarrow> Inl e
      | Inr (ok, ep, k') \<Rightarrow>
          if ok then parse_all env ext ss (eps @ [ep]) k' else Ok (False, eps, k'))"

definition address_list :: "string \<Rightarrow> string list" where
  "address_list text = takeWhile (\<lambda>s. s \<noteq> []) (split_on CHR '' '' text)"

lemma endpoint_loop_pieces:
  "endpoint_loop env ext s pos eps k =
     parse_all env ext (takeWhile (\<lambda>x. x \<noteq> []) (pieces CHR '' '' s pos)) eps k"
proof (induction env ext s pos eps k rule: endpoint_loop.induct)
  case (1 env ext s pos eps k)
  show ?case
  proof (cases "str_find CHR '' '' s pos")
    case None
    then show ?thesis
      by (subst endpoint_loop.simps)
        (simp add: pieces.simps [of _ s pos] Let_def split: sum.split)
  next
    case (Some t)
    let ?p = "substr s pos (t - pos)"
    show ?thesis
    proof (cases "?p = []")
      case True
      with Some show ?thesis
        by (subst endpoint_loop.simps) (simp add: pieces.simps [of _ s pos])
    next
      case False
      then have tw: "takeWhile (\<lambda>x. x \<noteq> []) (pieces CHR '' '' s pos) =
          ?p # takeWhile (\<lambda>x. x \<noteq> []) (pieces CHR '' '' s (t + 1))"
        using Some by (simp add: pieces.simps [of _ s pos])
      from 1 Some False show ?thesis
        unfolding tw by (subst endpoint_loop.simps) (auto simp: Let_def split: sum.split)
    qed
  qed
qed

lemma endpoint_loop_all:
  "endpoint_loop env ext s 0 eps k = parse_all env ext (address_list s) eps k"
  by (simp add: endpoint_loop_pieces pieces_split_on address_list_def)

lemma parse_all_acc:
  "parse_all env ext ss eps k =
     bindR (parse_all env ext ss [] k) (\<lambda>(ok, new, k). Ok (ok, eps @ new, k))"
proof (induction ss arbitrary: eps k)
  case (Cons s ss)
  show ?case
  proof (cases "parse_string env (new_endpoint\<lparr>ep_external := ext\<rparr>) s ext k")
    case (Inr r)
    obtain ok ep k' where r: "r = (ok, ep, k')" by (cases r)
    have "bindR (parse_all env ext ss [ep] k') (\<lambda>(ok, new, k). Ok (ok, eps @ new, k)) =
        parse_all env ext ss (eps @ [ep]) k'"
      by (subst (1 2) Cons.IH) (auto simp: bindR_assoc bindR_def split: sum.split)
    with Inr r show ?thesis by simp
  qed simp
qed simp

lemma parse_all_external:
  assumes "parse_all env ext ss [] k = Ok (ok, new, k')"
  shows "\<forall>ep \<in> set new. ep_external ep = ext"
  using assms
proof (induction ss arbitrary: k ok new)
  case (Cons s ss)
  then obtain ok1 ep k1 where ps: "parse_string env (new_endpoint\<lparr>ep_external := ext\<rparr>) s ext k = Ok (ok1, ep, k1)"
    and rest: "if ok1 then parse_all env ext ss [ep] k1 = Ok (ok, new, k') else new = []"
    by (auto split: sum.splits if_splits)
  have "ep_external ep = ext" if ok1
    using ps
  proof (cases rule: parse_string_cases)
    case (parsed ep0 ep1 ep2 j1 j2)
    then have "ep_external (default_hostname env ep2) = ext"
      using parse_address_frame [OF parsed(1)] resolve_frame(1) [OF parsed(2)] resolve_frame(2) [OF parsed(3)]
      by simp
    with parsed(4) show ?thesis
      by (auto split: option.splits dest: parse_options_frame [OF sym])
  qed (use that in simp_all)
  moreover have "new = [] \<or> (\<exists>new'. new = ep # new' \<and> ok1 \<and> (\<forall>e \<in> set new'. ep_external e = ext))"
    using rest Cons.IH [of k1] parse_all_acc [of env ext ss "[ep]" k1]
    by (cases ok1; cases "parse_all env ext ss [] k1") fastforce+
  ultimately show ?case by auto
qed simp

lemma option_loop_pieces:
  "option_loop opts pos args = args @ map c_str (filter (\<lambda>x. x \<noteq> []) (pieces CHR '' '' opts pos))"
proof (induction opts pos args rule: option_loop.induct)
  case (1 opts pos args)
  show ?case
  proof (cases "str_find CHR '' '' opts pos")
    case None
    then show ?thesis by (simp add: option_loop.simps [of opts pos] pieces.simps [of _ opts pos])
  next
    case (Some t)
    with 1 [OF refl refl refl Some] show ?thesis
      by (cases "substr opts pos (t - pos) = []")
        (simp_all add: option_loop.simps [of opts pos] pieces.simps [of _ opts pos])
  qed
qed

lemma add_options_words:
  "add_options opts args = args @ map c_str (filter (\<lambda>x. x \<noteq> []) (split_on CHR '' '' opts))"
  by (simp add: add_options_def option_loop_pieces pieces_split_on)

lemma init_endpoints_all:
  "init_endpoints env src ext cfg k =
     bindR (parse_all env ext (address_list (endpoint_text env src ext)) [] k)
       (\<lambda>(ok, new, k). Ok (ok, cfg\<lparr>cfg_endpoints := cfg_endpoints cfg @ new\<rparr>, k))"
  unfolding init_endpoints_def endpoint_loop_all
  by (subst parse_all_acc) (simp add: bindR_assoc case_prod_unfold)

lemma endpoints_present:
  assumes "cfg_endpoints cfg = []"
    and "parse_all env True (address_list (endpoint_text env src True)) [] k = Ok (True, exts, k1)"
    and "parse_all env False (address_list (endpoint_text env src False)) [] k1 = Ok (True, ints, k2)"
  shows "endpoints_missing env src cfg k = Ok (False, cfg\<lparr>cfg_endpoints := exts @ ints\<rparr>, k2)"
  using assms by (simp add: endpoints_missing_def init_endpoints_all)

subsection \<open>The interface to the configuration file\<close>

text \<open>
  What the code that reads options relies on: a token without a value gives the default of
  the caller, whatever type is asked for.
\<close>

locale config_reader =
  fixes src :: config_src
  assumes unset_bool: "cs_value src t [] = [] \<Longrightarrow> cs_bool src t b = b"
    and unset_long: "cs_value src t [] = [] \<Longrightarrow> cs_long src t n = n"
begin

lemma unset_evaluators:
  assumes "cs_value src ''Null_Eval_Type_ID'' [] = []" and "cs_value src ''Null_Evaluator_Any'' [] = []"
    and "cs_value src ''Generic_Evaluator'' [] = []" and "cs_value src ''Collocate_IFR'' [] = []"
  shows "\<not> null_eval_any src \<and> \<not> generic_evaluator src \<and> collocate_ifr src"
  using assms
  by (simp add: null_eval_any_def null_eval_type_ids_def generic_evaluator_def collocate_ifr_def unset_bool)

lemma typed_null_evaluator:
  assumes "cs_value src ''Null_Eval_Type_ID'' [] \<noteq> []"
  shows "\<not> null_eval_any src"
  using assms by (simp add: null_eval_any_def null_eval_type_ids_def)

lemma unset_ifr_options:
  assumes "ifr_args cfg = []" and "cs_value src ''IFR_PERSISTENT'' [] = []"
    and "cs_value src ''IFR_CACHE'' [] = []" and "cs_value src ''IFR_CmdOption'' [] = []"
  shows "fst (get_ifr_options src dbg cfg) =
    map c_str [IFR_SERVICE_EXE_NAME, ''-o'', cs_value src ''IFR_IOR_FILE'' IFR_SERVICE_IOR_FILE,
      ''-p'', ''-b'', IFR_SERVICE_CACHE_FILE]"
  using assms
  by (simp add: get_ifr_options_def add_options_def unset_bool get_ifr_options_copy_def
      IFR_SERVICE_CACHE_FILE_def)

end

lemma strcase_eq_Nil: "strcase_eq [] s \<longleftrightarrow> s = []"
  by (simp add: strcase_eq_def)

lemma c_str_Nil [simp]: "c_str [] = []"
  by (simp add: c_str_def)

interpretation cfile: config_reader "file_source hash cfg" for hash cfg
proof
  show "cs_bool (file_source hash cfg) t b = b" if "cs_value (file_source hash cfg) t [] = []" for t b
    using that by (simp add: file_source_def get_bool_value_def strcase_eq_Nil)
  show "cs_long (file_source hash cfg) t n = n" if "cs_value (file_source hash cfg) t [] = []" for t n
    using that by (simp add: file_source_def get_long_value_def)
qed

lemma file_source_unset:
  "configs cfg = Map.empty \<Longrightarrow> cs_value (file_source hash cfg) t d = d"
  by (simp add: file_source_def get_value_def cfg_extract_def)

subsection \<open>Properties\<close>

text \<open>
  The endpoints of one side are those of its address line, in order: \<open>get_endpoints\<close> on a
  configuration that has not been read yet parses the external and then the internal
  addresses, up to the first empty one, and returns the side asked for.
\<close>

theorem get_endpoints_sides:
  assumes "cfg_endpoints cfg = []"
    and "parse_all env True (address_list (endpoint_text env src True)) [] k = Ok (True, exts, k1)"
    and "parse_all env False (address_list (endpoint_text env src False)) [] k1 = Ok (True, ints, k2)"
  shows "get_endpoints env src ext cfg k =
           Ok (if ext then exts else ints, cfg\<lparr>cfg_endpoints := exts @ ints\<rparr>, k2)"
proof -
  have "\<forall>ep \<in> set exts. ep_external ep = True" "\<forall>ep \<in> set ints. ep_external ep = False"
    using parse_all_external [OF assms(2)] parse_all_external [OF assms(3)] by auto
  then show ?thesis
    using endpoints_present [OF assms] by (simp add: get_endpoints_def)
qed

definition sample_src :: config_src where
  "sample_src =
     \<lparr>cs_value = (\<lambda>t d. if t = ''External_Address'' then ''a:1  b:2''
                       else if t = ''ORB_Option'' then ''-ORBDebug  -x'' else d),
      cs_long = (\<lambda>t d. d), cs_bool = (\<lambda>t d. d), cs_debug = 0\<rparr>"

definition sample_ext :: endpoint where
  "sample_ext = \<lparr>ep_external = True, ep_hostname = ''a'', ep_port = 1, ep_alias = [],
     ep_is_ipv6 = False, ep_ssl_port = 0\<rparr>"

definition sample_int :: endpoint where
  "sample_int = \<lparr>ep_external = False, ep_hostname = ''localhost'', ep_port = 4080, ep_alias = [],
     ep_is_ipv6 = False, ep_ssl_port = 0\<rparr>"

definition fresh_config :: config where
  "fresh_config = \<lparr>cfg_endpoints = [], orb_args = [], ifr_args = [], secure_avail = False\<rparr>"

lemma sample_parse:
  "parse_all sample_env True (address_list (endpoint_text sample_env sample_src True)) [] 0 =
     Ok (True, [sample_ext], 0)"
  "parse_all sample_env False (address_list (endpoint_text sample_env sample_src False)) [] 0 =
     Ok (True, [sample_int], 0)"
  by code_simp+

theorem get_endpoints_sides_witness:
  "get_endpoints sample_env sample_src True fresh_config 0 =
     Ok ([sample_ext], fresh_config\<lparr>cfg_endpoints := [sample_ext, sample_int]\<rparr>, 0)"
  using get_endpoints_sides [OF _ sample_parse, of fresh_config True] by (simp add: fresh_config_def)

text \<open>
  The arguments for the ORB: the program name, the fixed options, the words of
  \<open>ORB_Option\<close>, one \<open>-ORBListenEndpoints\<close> pair per endpoint, external ones first, and the debug
  level if it is positive. The vector is built once: every later call returns the same.
\<close>

theorem get_orb_options_vector:
  assumes "orb_args cfg = []" and "cfg_endpoints cfg = []"
    and "parse_all env True (address_list (endpoint_text env src True)) [] k = Ok (True, exts, k1)"
    and "parse_all env False (address_list (endpoint_text env src False)) [] k1 = Ok (True, ints, k2)"
  shows "\<exists>args cfg'. get_orb_options env src cfg k = Ok (Some args, cfg', k2)
    \<and> args = map c_str ([LORICA_EXE_NAME, ''-ORBUseSharedProfile'', ''0'']
        @ map c_str (filter (\<lambda>w. w \<noteq> []) (split_on CHR '' '' (cs_value src ''ORB_Option'' [])))
        @ endpoint_args env (exts @ ints) @ debug_args env src)
    \<and> (\<forall>env' src' j. get_orb_options env' src' cfg' j = Ok (Some args, cfg', j))"
proof -
  let ?base = "[LORICA_EXE_NAME, ''-ORBUseSharedProfile'', ''0'']
        @ map c_str (filter (\<lambda>w. w \<noteq> []) (split_on CHR '' '' (cs_value src ''ORB_Option'' [])))"
  let ?all = "?base @ endpoint_args env (exts @ ints) @ debug_args env src"
  let ?cfg' = "cfg\<lparr>cfg_endpoints := exts @ ints, orb_args := ?all\<rparr>"
  have "endpoints_missing env src (cfg\<lparr>orb_args := ?base\<rparr>) k =
      Ok (False, cfg\<lparr>orb_args := ?base, cfg_endpoints := exts @ ints\<rparr>, k2)"
    using endpoints_present [OF _ assms(3,4), of "cfg\<lparr>orb_args := ?base\<rparr>"] assms(2) by simp
  then have "get_orb_options env src cfg k = Ok (Some (map c_str ?all), ?cfg', k2)"
    using assms(1) by (simp add: get_orb_options_def add_options_words get_orb_options_copy_def)
  moreover have "get_orb_options env' src' ?cfg' j = Ok (Some (map c_str ?all), ?cfg', j)" for env' src' j
    by (simp add: get_orb_options_def get_orb_options_copy_def)
  ultimately show ?thesis
    by (intro exI [of _ "map c_str ?all"] exI [of _ ?cfg']) simp
qed

theorem get_orb_options_vector_witness:
  "\<exists>cfg'. get_orb_options sample_env sample_src fresh_config 0 =
     Ok (Some [''lorica.exe'', ''-ORBUseSharedProfile'', ''0'', ''-ORBDebug'', ''-x'',
          ''-ORBListenEndpoints'', ''iiop://1.2@a:1'',
          ''-ORBListenEndpoints'', ''iiop://1.2@localhost:4080''], cfg', 0)"
proof -
  have "map c_str ([LORICA_EXE_NAME, ''-ORBUseSharedProfile'', ''0'']
        @ map c_str (filter (\<lambda>w. w \<noteq> []) (split_on CHR '' '' (cs_value sample_src ''ORB_Option'' [])))
        @ endpoint_args sample_env ([sample_ext] @ [sample_int]) @ debug_args sample_env sample_src) =
      [''lorica.exe'', ''-ORBUseSharedProfile'', ''0'', ''-ORBDebug'', ''-x'',
          ''-ORBListenEndpoints'', ''iiop://1.2@a:1'',
          ''-ORBListenEndpoints'', ''iiop://1.2@localhost:4080'']"
    by (simp add: sample_src_def endpoint_args_def debug_args_def as_tao_endpoint_def sample_ext_def
        sample_int_def SYS_PORT_def LORICA_EXE_NAME_def c_str_def sample_env_def dec_text_def
        nat_text.simps char_of_def bit_0)
  then show ?thesis
    using get_orb_options_vector [OF _ _ sample_parse, of fresh_config]
    by (auto simp: fresh_config_def)
qed

text \<open>
  A configuration file that sets nothing has the documented defaults: no null evaluator, no
  generic evaluator, a collocated interface repository that is persistent.
\<close>

theorem empty_file_defaults:
  assumes "configs cfg = Map.empty"
  shows "\<not> null_eval_any (file_source hash cfg) \<and> \<not> generic_evaluator (file_source hash cfg)
    \<and> collocate_ifr (file_source hash cfg)
    \<and> fst (get_ifr_options (file_source hash cfg) dbg
          \<lparr>cfg_endpoints = eps, orb_args = oargs, ifr_args = [], secure_avail = sec\<rparr>) =
        [IFR_SERVICE_EXE_NAME, ''-o'', IFR_SERVICE_IOR_FILE, ''-p'', ''-b'', IFR_SERVICE_CACHE_FILE]"
  using cfile.unset_evaluators [of hash cfg] cfile.unset_ifr_options [of _ hash cfg dbg]
    file_source_unset [OF assms]
  by (simp add: c_str_def IFR_SERVICE_EXE_NAME_def IFR_SERVICE_IOR_FILE_def IFR_SERVICE_CACHE_FILE_def)

theorem empty_file_defaults_witness:
  "fst (get_ifr_options (file_source sample_hash new_file_config) False fresh_config) =
     [''IFR_Service.exe'', ''-o'', ''ifr.ior'', ''-p'', ''-b'', ''ifr.cache'']"
  using empty_file_defaults [of new_file_config sample_hash False "[]" "[]" False]
  by (simp add: new_file_config_def fresh_config_def IFR_SERVICE_EXE_NAME_def
      IFR_SERVICE_IOR_FILE_def IFR_SERVICE_CACHE_FILE_def)

end
