(* ===== verification/MapperRegistry.thy ===== *)
theory MapperRegistry
  imports Prelude
begin

text \<open>
  The registry of proxy mappers and the chain it keeps (src/src/lorica/MapperRegistry.h and
  MapperRegistry.cpp, and the chain operations of src/src/lorica/ProxyMapper.cpp). Mappers are
  counted objects linked by \<open>next_\<close>; the registry owns the head of the chain and, until
  \<open>init_mappers\<close> joins them to it, the generic and the null mapper.

  Mappers live in a heap of cells with their link, their count and their kind; a \<open>delete\<close> removes the
  cell after the destructor's work. The operations follow links, which the types do not bound,
  so they are \<open>partial_function\<close>s in the option type: \<^term>\<open>None\<close> would be a walk that never ends.
  On a chain every walk ends, as the lemmas show. \<open>chain h p ns\<close> says that the cells \<open>ns\<close> are linked
  from \<open>p\<close>; \<open>reg_ok\<close> is the registry's invariant.
\<close>

datatype mapper_kind = PlainMapper | GenericMapper | NullMapper "string list"

record mnode =
  m_next :: "nat option"
  m_count :: int
  m_kind :: mapper_kind

type_synonym mheap = "nat \<rightharpoonup> mnode"

record registry =
  mappers :: "nat option"
  null_mapper :: "nat option"
  generic_mapper :: "nat option"
  mappers_ready :: bool
  has_security :: "bool option"

definition at_mapper :: "mheap \<Rightarrow> nat \<Rightarrow> mnode result option" where
  "at_mapper h a = Some (case h a of None \<Rightarrow> Fault UseAfterFree | Some n \<Rightarrow> Ok n)"

lemma at_mapper_simps [simp]:
  "h a = Some n \<Longrightarrow> at_mapper h a = Some (Ok n)" "h a = None \<Longrightarrow> at_mapper h a = Some (Fault UseAfterFree)"
  by (simp_all add: at_mapper_def)

subsection \<open>The mappers\<close>

definition new_mapper :: "mapper_kind \<Rightarrow> mnode" where
  "new_mapper k = \<lparr>m_next = None, m_count = 1, m_kind = k\<rparr>"

definition m_incr :: "nat \<Rightarrow> mheap \<Rightarrow> mheap result option" where
  "m_incr a h = bindP (at_mapper h a) (\<lambda>n. Some (Ok (h(a \<mapsto> n\<lparr>m_count := m_count n + 1\<rparr>))))"

text \<open>\<open>decr_refcount\<close>; the destructor of the last reference drops one to the next mapper.\<close>

partial_function (option) m_decr :: "nat \<Rightarrow> mheap \<Rightarrow> (int \<times> mheap) result option" where
  "m_decr a h = bindP (at_mapper h a) (\<lambda>n.
     let c = m_count n - 1 in
     if c > 0 then Some (Ok (c, h(a \<mapsto> n\<lparr>m_count := c\<rparr>)))
     else if c \<noteq> 0 then Some (Fault AssertFailed)
     else case m_next n of
       None \<Rightarrow> Some (Ok (0, h(a := None)))
     | Some b \<Rightarrow> bindP (m_decr b (h(a := None))) (\<lambda>(c, h). Some (Ok (0, h))))"

partial_function (option) take_mapper :: "nat \<Rightarrow> nat \<Rightarrow> mheap \<Rightarrow> mheap result option" where
  "take_mapper self p h = bindP (at_mapper h self) (\<lambda>n. case m_next n of
       None \<Rightarrow> Some (Ok (h(self \<mapsto> n\<lparr>m_next := Some p\<rparr>)))
     | Some b \<Rightarrow> take_mapper b p h)"

partial_function (option) remove_mapper :: "nat \<Rightarrow> nat \<Rightarrow> mheap \<Rightarrow> mheap result option" where
  "remove_mapper self p h = bindP (at_mapper h self) (\<lambda>n. case m_next n of
       None \<Rightarrow> Some (Ok h)
     | Some b \<Rightarrow> if b = p
         then bindP (at_mapper h b) (\<lambda>nb. Some (Ok (h(self \<mapsto> n\<lparr>m_next := m_next nb\<rparr>))))
         else remove_mapper b p h)"

partial_function (option) destroy_chain :: "nat \<Rightarrow> mheap \<Rightarrow> mheap result option" where
  "destroy_chain self h = bindP (at_mapper h self) (\<lambda>n.
     bindP (case m_next n of
         None \<Rightarrow> Some (Ok h)
       | Some b \<Rightarrow>
           bindP (destroy_chain b h) (\<lambda>h.
           bindP (m_decr b h) (\<lambda>(c, h).
           bindP (at_mapper h self) (\<lambda>n. Some (Ok (h(self \<mapsto> n\<lparr>m_next := None\<rparr>)))))))
     (\<lambda>h. bindP (m_decr self h) (\<lambda>(c, h). Some (Ok h))))"

text \<open>\<open>next()\<close> gives the link with a reference of its own.\<close>

definition next_mapper :: "nat \<Rightarrow> mheap \<Rightarrow> (nat option \<times> mheap) result option" where
  "next_mapper self h = bindP (at_mapper h self) (\<lambda>n. case m_next n of
       None \<Rightarrow> Some (Ok (None, h))
     | Some b \<Rightarrow> bindP (m_incr b h) (\<lambda>h. Some (Ok (Some b, h))))"

subsection \<open>The registry\<close>

definition reg_init :: "registry \<Rightarrow> registry" where
  "reg_init r = r\<lparr>null_mapper := None, generic_mapper := None, mappers := None, mappers_ready := False\<rparr>"

definition new_registry :: registry where
  "new_registry = reg_init \<lparr>mappers = None, null_mapper = None, generic_mapper = None,
     mappers_ready = False, has_security = None\<rparr>"

definition drop_mapper :: "nat option \<Rightarrow> mheap \<Rightarrow> mheap result option" where
  "drop_mapper p h = (case p of None \<Rightarrow> Some (Ok h)
     | Some a \<Rightarrow> bindP (m_decr a h) (\<lambda>(c, h). Some (Ok h)))"

definition reg_destroy :: "registry \<times> mheap \<Rightarrow> (registry \<times> mheap) result option" where
  "reg_destroy s = (case s of (r, h) \<Rightarrow>
     bindP (drop_mapper (null_mapper r) h) (\<lambda>h.
     bindP (drop_mapper (generic_mapper r) h) (\<lambda>h.
     bindP (case mappers r of None \<Rightarrow> Some (Ok h) | Some a \<Rightarrow> destroy_chain a h) (\<lambda>h.
       Some (Ok (r\<lparr>null_mapper := None, generic_mapper := None, mappers := None\<rparr>, h))))))"

text \<open>The address of a null mapper that is created is the argument \<open>a\<close>.\<close>

definition add_type_id :: "string \<Rightarrow> nat \<Rightarrow> mheap \<Rightarrow> mheap result option" where
  "add_type_id typeId a h = bindP (at_mapper h a) (\<lambda>n. case m_kind n of
       NullMapper ts \<Rightarrow> Some (Ok (h(a \<mapsto> n\<lparr>m_kind := NullMapper (ts @ [typeId])\<rparr>)))
     | _ \<Rightarrow> Some (Fault AssertFailed))"

definition add_null_mapper_type ::
    "nat \<Rightarrow> string \<Rightarrow> registry \<times> mheap \<Rightarrow> (registry \<times> mheap) result option" where
  "add_null_mapper_type a typeId s = (case s of (r, h) \<Rightarrow>
     case null_mapper r of
       None \<Rightarrow> bindP (add_type_id typeId a (h(a \<mapsto> new_mapper (NullMapper []))))
                 (\<lambda>h. Some (Ok (r\<lparr>null_mapper := Some a\<rparr>, h)))
     | Some b \<Rightarrow> bindP (add_type_id typeId b h) (\<lambda>h. Some (Ok (r, h))))"

definition create_default_null_mapper :: "nat \<Rightarrow> registry \<times> mheap \<Rightarrow> registry \<times> mheap" where
  "create_default_null_mapper a s = (case s of (r, h) \<Rightarrow>
     if mappers_ready r then s
     else if null_mapper r = None
       then (r\<lparr>null_mapper := Some a\<rparr>, h(a \<mapsto> new_mapper (NullMapper [])))
     else s)"

definition set_generic_mapper ::
    "nat \<Rightarrow> registry \<times> mheap \<Rightarrow> (registry \<times> mheap) result option" where
  "set_generic_mapper mapper s = (case s of (r, h) \<Rightarrow>
     if mappers_ready r then Some (Ok s)
     else bindP (drop_mapper (generic_mapper r) h) (\<lambda>h.
       Some (Ok (r\<lparr>generic_mapper := Some mapper\<rparr>, h))))"

definition add_proxy_mapper ::
    "nat \<Rightarrow> registry \<times> mheap \<Rightarrow> (registry \<times> mheap) result option" where
  "add_proxy_mapper mapper s = (case s of (r, h) \<Rightarrow>
     if mappers_ready r then Some (Ok s)
     else case mappers r of
       None \<Rightarrow> Some (Ok (r\<lparr>mappers := Some mapper\<rparr>, h))
     | Some a \<Rightarrow> bindP (take_mapper a mapper h) (\<lambda>h. Some (Ok (r, h))))"

definition remove_proxy_mapper ::
    "nat \<Rightarrow> registry \<times> mheap \<Rightarrow> (registry \<times> mheap) result option" where
  "remove_proxy_mapper mapper s = (case s of (r, h) \<Rightarrow>
     case mappers r of
       None \<Rightarrow> Some (Ok s)
     | Some a \<Rightarrow> if a = mapper
         then bindP (next_mapper a h) (\<lambda>(new_head, h).
              bindP (m_decr a h) (\<lambda>(c, h). Some (Ok (r\<lparr>mappers := new_head\<rparr>, h))))
         else bindP (remove_mapper a mapper h) (\<lambda>h. Some (Ok (r, h))))"

text \<open>
  The loadable evaluators: \<open>init\<close> of the base class looks the registry up and tells whether it is there, an answer that
  the generic loader does not look at before it hands its new mapper, at address \<open>a\<close>, to the registry.
\<close>

definition evaluator_loader_init :: "bool \<Rightarrow> int" where
  "evaluator_loader_init loaded = (if loaded then 1 else 0)"

definition generic_loader_init ::
    "bool \<Rightarrow> nat \<Rightarrow> registry \<times> mheap \<Rightarrow> (registry \<times> mheap) result option" where
  "generic_loader_init loaded a s = (if evaluator_loader_init loaded = 0 then Some (Fault NullDeref)
     else case s of (r, h) \<Rightarrow> set_generic_mapper a (r, h(a \<mapsto> new_mapper GenericMapper)))"

text \<open>
  \<open>init_mappers\<close> joins the generic and then the null mapper to the chain; the initialisation of the
  mappers with the object request broker is an argument that may throw.
\<close>

definition join_mapper ::
    "(registry \<Rightarrow> nat option) \<Rightarrow> (registry \<Rightarrow> registry) \<Rightarrow> registry \<times> mheap \<Rightarrow>
     (registry \<times> mheap) result option" where
  "join_mapper get clear s = (case get (fst s) of
       None \<Rightarrow> Some (Ok s)
     | Some a \<Rightarrow> bindP (add_proxy_mapper a s) (\<lambda>(r, h). Some (Ok (clear r, h))))"

definition init_mappers ::
    "(nat \<Rightarrow> mheap \<Rightarrow> unit result) \<Rightarrow> bool \<Rightarrow> registry \<times> mheap \<Rightarrow> (registry \<times> mheap) result option" where
  "init_mappers mapper_init security s =
     (if mappers_ready (fst s) then Some (Ok s)
      else bindP (join_mapper generic_mapper (\<lambda>r. r\<lparr>generic_mapper := None\<rparr>) s) (\<lambda>s.
           bindP (join_mapper null_mapper (\<lambda>r. r\<lparr>null_mapper := None\<rparr>) s) (\<lambda>(r, h).
           bindP (Some (case mappers r of None \<Rightarrow> Ok () | Some a \<Rightarrow> mapper_init a h)) (\<lambda>_.
             Some (Ok (r\<lparr>has_security := Some security, mappers_ready := True\<rparr>, h))))))"

subsection \<open>Chains\<close>

fun chain :: "mheap \<Rightarrow> nat option \<Rightarrow> nat list \<Rightarrow> bool" where
  "chain h p [] \<longleftrightarrow> p = None"
| "chain h p (a # ns) \<longleftrightarrow> p = Some a \<and> (\<exists>n. h a = Some n \<and> m_count n = 1 \<and> chain h (m_next n) ns)"

lemma chain_None [simp]: "chain h None ns \<longleftrightarrow> ns = []"
  by (cases ns) auto

lemma chain_Some: "chain h (Some a) ns \<Longrightarrow> \<exists>n ms. ns = a # ms \<and> h a = Some n \<and> m_count n = 1 \<and> chain h (m_next n) ms"
  by (cases ns) auto

lemma chain_frame [simp]: "x \<notin> set ns \<Longrightarrow> chain (h(x := v)) p ns = chain h p ns"
  by (induction ns arbitrary: p) auto

lemma chain_dom: "chain h p ns \<Longrightarrow> set ns \<subseteq> dom h"
  by (induction ns arbitrary: p) auto

text \<open>A mapper at the end of a chain is the last owner of itself only.\<close>

lemma m_decr_last:
  "h a = Some n \<Longrightarrow> m_count n = 1 \<Longrightarrow> m_next n = None \<Longrightarrow> m_decr a h = Some (Ok (0, h(a := None)))"
  by (subst m_decr.simps) simp

lemma m_decr_more:
  "h a = Some n \<Longrightarrow> 1 < m_count n \<Longrightarrow>
   m_decr a h = Some (Ok (m_count n - 1, h(a \<mapsto> n\<lparr>m_count := m_count n - 1\<rparr>)))"
  by (subst m_decr.simps) (simp add: Let_def)

lemma take_mapper_chain:
  assumes "chain h (Some a) ns" and "chain h (Some p) ps" and "distinct (ns @ ps)"
  shows "\<exists>h'. take_mapper a p h = Some (Ok h') \<and> chain h' (Some a) (ns @ ps)
    \<and> (\<forall>x. x \<notin> set ns \<longrightarrow> h' x = h x) \<and> dom h' = dom h
    \<and> (\<forall>x. map_option m_kind (h' x) = map_option m_kind (h x))"
  using assms(1,3)
proof (induction ns arbitrary: a)
  case (Cons a' ns)
  then obtain n where n: "a' = a" "h a = Some n" "m_count n = 1" "chain h (m_next n) ns" by auto
  show ?case
  proof (cases "m_next n")
    case None
    then have ns: "ns = []" using n(4) by simp
    let ?h = "h(a \<mapsto> n\<lparr>m_next := Some p\<rparr>)"
    have "chain ?h (Some p) ps" using assms(2) Cons.prems(2) n(1) by simp
    moreover have "take_mapper a p h = Some (Ok ?h)" using n(2) None by (subst take_mapper.simps) simp
    moreover have "dom ?h = dom h" using n(2) by auto
    ultimately show ?thesis using n ns by (intro exI [of _ ?h]) (simp del: fun_upd_apply, simp)
  next
    case (Some b)
    then obtain h' where h': "take_mapper b p h = Some (Ok h')" "chain h' (Some b) (ns @ ps)"
      "\<forall>x. x \<notin> set ns \<longrightarrow> h' x = h x" "dom h' = dom h"
      "\<forall>x. map_option m_kind (h' x) = map_option m_kind (h x)"
      using Cons.IH [of b] n(4) Cons.prems(2) by auto
    have "take_mapper a p h = Some (Ok h')" using n(2) Some h'(1) by (subst take_mapper.simps) simp
    moreover have "h' a = Some n" using h'(3) Cons.prems(2) n(1,2) by auto
    ultimately show ?thesis using h' n Some by (intro exI [of _ h']) auto
  qed
qed simp

text \<open>Destroying a chain works for a single mapper; with more than one the next mapper is
  released once more after it is gone.\<close>

lemma destroy_chain_single:
  assumes "chain h (Some a) [a]"
  shows "destroy_chain a h = Some (Ok (h(a := None)))"
proof -
  obtain n where n: "h a = Some n" "m_count n = 1" "m_next n = None" using assms by auto
  from n m_decr_last [of h a n] show ?thesis by (subst destroy_chain.simps) simp
qed

lemma destroy_chain_more:
  assumes "chain h (Some a) ns" and "distinct ns" and "2 \<le> length ns"
  shows "destroy_chain a h = Some (Fault UseAfterFree)"
  using assms
proof (induction ns arbitrary: a)
  case (Cons a' ns)
  then obtain n b ms where n: "h a = Some n" "m_next n = Some b" "ns = b # ms" "chain h (Some b) ns"
    by (cases ns) auto
  show ?case
  proof (cases ms)
    case Nil
    then have "destroy_chain b h = Some (Ok (h(b := None)))"
      using n(3,4) destroy_chain_single [of h b] by simp
    moreover have "m_decr b (h(b := None)) = Some (Fault UseAfterFree)" by (subst m_decr.simps) simp
    ultimately show ?thesis using n(1,2) by (subst destroy_chain.simps) simp
  next
    case (Cons c cs)
    then have "destroy_chain b h = Some (Fault UseAfterFree)"
      using Cons.IH [of b] n(3,4) Cons.prems(2) by simp
    then show ?thesis using n(1,2) by (subst destroy_chain.simps) simp
  qed
qed simp

subsection \<open>The registry's invariant\<close>

text \<open>
  The chain \<open>ns\<close>, the generic mapper \<open>gs\<close> and the null mapper \<open>us\<close> of the registry are different
  mappers, and with the mappers that others hold they are all there are.
\<close>

definition reg_ok ::
    "nat set \<Rightarrow> nat list \<Rightarrow> nat list \<Rightarrow> nat list \<Rightarrow> registry \<times> mheap \<Rightarrow> bool" where
  "reg_ok others ns gs us s \<longleftrightarrow> (case s of (r, h) \<Rightarrow>
     chain h (mappers r) ns \<and> chain h (generic_mapper r) gs \<and> chain h (null_mapper r) us
     \<and> length gs \<le> 1 \<and> length us \<le> 1 \<and> distinct (ns @ gs @ us) \<and> dom h = set (ns @ gs @ us) \<union> others
     \<and> others \<inter> set (ns @ gs @ us) = {})"

lemma chain_cong:
  "(\<And>x. x \<in> set ns \<Longrightarrow> h' x = h x) \<Longrightarrow> chain h' p ns = chain h p ns"
  by (induction ns arbitrary: p) auto

lemma chain_restrict: "set ns \<subseteq> A \<Longrightarrow> chain (h |` A) p ns = chain h p ns"
  by (rule chain_cong) (auto simp: restrict_map_def)

lemma add_proxy_mapper_chain:
  assumes "chain h (mappers r) ns" and "chain h (Some p) ps" and "distinct (ns @ ps)" and "\<not> mappers_ready r"
  shows "\<exists>h' q. add_proxy_mapper p (r, h) = Some (Ok (r\<lparr>mappers := q\<rparr>, h')) \<and> chain h' q (ns @ ps)
    \<and> (\<forall>x. x \<notin> set ns \<longrightarrow> h' x = h x) \<and> dom h' = dom h
    \<and> (\<forall>x. map_option m_kind (h' x) = map_option m_kind (h x))"
proof (cases "mappers r")
  case None
  with assms show ?thesis by (intro exI [of _ h] exI [of _ "Some p"]) (auto simp: add_proxy_mapper_def)
next
  case (Some a)
  obtain h' where h': "take_mapper a p h = Some (Ok h')" "chain h' (Some a) (ns @ ps)"
    "\<forall>x. x \<notin> set ns \<longrightarrow> h' x = h x" "dom h' = dom h"
    "\<forall>x. map_option m_kind (h' x) = map_option m_kind (h x)"
    using take_mapper_chain [OF assms(1) [unfolded Some] assms(2,3)] by blast
  moreover have "r = r\<lparr>mappers := Some a\<rparr>" using Some by simp
  ultimately show ?thesis using Some assms(4)
    by (intro exI [of _ h'] exI [of _ "Some a"]) (simp add: add_proxy_mapper_def)
qed

text \<open>Joining a mapper that the registry holds apart, or nothing.\<close>

lemma join_mapper_chain:
  assumes "chain h (mappers r) ns" and "chain h (get r) ps" and "distinct (ns @ ps)"
    and "\<not> mappers_ready r" and "\<And>q. clear (r\<lparr>mappers := q\<rparr>) = (clear r)\<lparr>mappers := q\<rparr>"
    and "get r = None \<Longrightarrow> clear r = r"
  shows "\<exists>h' q. join_mapper get clear (r, h) = Some (Ok ((clear r)\<lparr>mappers := q\<rparr>, h')) \<and> chain h' q (ns @ ps)
    \<and> (\<forall>x. x \<notin> set ns \<longrightarrow> h' x = h x) \<and> dom h' = dom h
    \<and> (\<forall>x. map_option m_kind (h' x) = map_option m_kind (h x))"
proof (cases "get r")
  case None
  then have "ps = []" using assms(2) by simp
  moreover have "(clear r)\<lparr>mappers := mappers r\<rparr> = r" using assms(6) [OF None] by simp
  ultimately show ?thesis using assms(1) None
    by (intro exI [of _ h] exI [of _ "mappers r"]) (simp add: join_mapper_def)
next
  case (Some p)
  obtain h' q where "add_proxy_mapper p (r, h) = Some (Ok (r\<lparr>mappers := q\<rparr>, h'))" "chain h' q (ns @ ps)"
    "\<forall>x. x \<notin> set ns \<longrightarrow> h' x = h x" "dom h' = dom h"
    "\<forall>x. map_option m_kind (h' x) = map_option m_kind (h x)"
    using add_proxy_mapper_chain [OF assms(1) assms(2) [unfolded Some] assms(3,4)] by blast
  then show ?thesis using Some assms(5) by (intro exI [of _ h'] exI [of _ q]) (simp add: join_mapper_def)
qed

lemma init_mappers_chain:
  assumes "reg_ok others ns gs us (r, h)" and "\<not> mappers_ready r"
    and "\<forall>a h. mapper_init a h = Ok ()"
  shows "\<exists>r' h'. init_mappers mapper_init security (r, h) = Some (Ok (r', h'))
    \<and> reg_ok others (ns @ gs @ us) [] [] (r', h') \<and> mappers_ready r' \<and> has_security r' = Some security
    \<and> (\<forall>x. map_option m_kind (h' x) = map_option m_kind (h x))"
proof -
  have ok: "chain h (mappers r) ns" "chain h (generic_mapper r) gs" "chain h (null_mapper r) us"
    "distinct (ns @ gs @ us)" "dom h = set (ns @ gs @ us) \<union> others" "others \<inter> set (ns @ gs @ us) = {}"
    using assms(1) by (simp_all add: reg_ok_def)
  have d: "distinct (ns @ gs)" "distinct ((ns @ gs) @ us)" using ok(4) by auto
  obtain h1 q1 where 1: "join_mapper generic_mapper (\<lambda>r. r\<lparr>generic_mapper := None\<rparr>) (r, h)
      = Some (Ok (r\<lparr>generic_mapper := None, mappers := q1\<rparr>, h1))" "chain h1 q1 (ns @ gs)"
    "\<forall>x. x \<notin> set ns \<longrightarrow> h1 x = h x" "dom h1 = dom h"
    "\<forall>x. map_option m_kind (h1 x) = map_option m_kind (h x)"
    using join_mapper_chain [OF ok(1), of generic_mapper gs "\<lambda>r. r\<lparr>generic_mapper := None\<rparr>", OF ok(2) d(1) assms(2)]
    by auto
  let ?r1 = "r\<lparr>generic_mapper := None, mappers := q1\<rparr>"
  have us: "chain h1 (null_mapper r) us"
    using ok(3,4) 1(3) chain_cong [of us h1 h "null_mapper r"] by auto
  obtain h2 q2 where 2: "join_mapper null_mapper (\<lambda>r. r\<lparr>null_mapper := None\<rparr>) (?r1, h1)
      = Some (Ok (?r1\<lparr>null_mapper := None, mappers := q2\<rparr>, h2))" "chain h2 q2 ((ns @ gs) @ us)"
    "dom h2 = dom h1" "\<forall>x. map_option m_kind (h2 x) = map_option m_kind (h1 x)"
    using join_mapper_chain [of h1 ?r1 "ns @ gs" null_mapper us "\<lambda>r. r\<lparr>null_mapper := None\<rparr>"]
      1(2) us d(2) assms(2) by auto
  show ?thesis
    using 1(1,4,5) 2 ok(4-6) assms(2,3)
    by (intro exI [of _ "?r1\<lparr>null_mapper := None, mappers := q2, has_security := Some security,
          mappers_ready := True\<rparr>"] exI [of _ h2])
       (auto simp: init_mappers_def reg_ok_def split: option.split)
qed

lemma reg_destroy_chain:
  assumes "reg_ok others ns gs us (r, h)"
  shows "(length ns \<le> 1 \<longrightarrow> (\<exists>h'. reg_destroy (r, h)
            = Some (Ok (r\<lparr>null_mapper := None, generic_mapper := None, mappers := None\<rparr>, h')) \<and> dom h' = others))
    \<and> (2 \<le> length ns \<longrightarrow> reg_destroy (r, h) = Some (Fault UseAfterFree))"
proof -
  have ok: "chain h (mappers r) ns" "chain h (generic_mapper r) gs" "chain h (null_mapper r) us"
    "distinct (ns @ gs @ us)" "dom h = set (ns @ gs @ us) \<union> others" "others \<inter> set (ns @ gs @ us) = {}"
    "length gs \<le> 1" "length us \<le> 1"
    using assms by (simp_all add: reg_ok_def)
  have drop: "drop_mapper p h = Some (Ok (h |` (- set ps)))" if "chain h p ps" "length ps \<le> 1" for h p ps
    using that m_decr_last by (cases ps) (auto simp: drop_mapper_def restrict_map_def fun_eq_iff)
  have g: "chain (h |` (- set us)) (generic_mapper r) gs"
    using ok(2,4) by (subst chain_restrict) auto
  let ?h = "h |` (- set us \<inter> - set gs)"
  have n: "chain ?h (mappers r) ns"
    using ok(1,4) by (subst chain_restrict) auto
  have dom: "dom ?h = set ns \<union> others" using ok(4-6) by auto
  have run: "reg_destroy (r, h) = bindP (case mappers r of None \<Rightarrow> Some (Ok ?h) | Some a \<Rightarrow> destroy_chain a ?h)
      (\<lambda>h. Some (Ok (r\<lparr>null_mapper := None, generic_mapper := None, mappers := None\<rparr>, h)))"
    using drop [OF ok(3,8)] drop [OF g ok(7)] by (simp add: reg_destroy_def)
  consider "ns = []" | a where "ns = [a]" | "2 \<le> length ns"
    by (cases ns rule: remdups_adj.cases) auto
  then show ?thesis
  proof cases
    case 1
    with n run dom show ?thesis by (cases "mappers r") auto
  next
    case (2 a)
    then have m: "mappers r = Some a" using n by simp
    with 2 n have "destroy_chain a ?h = Some (Ok (?h(a := None)))" by (intro destroy_chain_single) simp
    moreover have "dom (?h(a := None)) = others" using dom 2 ok(6) by auto
    ultimately show ?thesis using run m 2 by (simp del: fun_upd_apply)
  next
    case 3
    then obtain a where "mappers r = Some a" using n by (cases "mappers r") auto
    with 3 n run ok(4) destroy_chain_more [of ?h a ns] show ?thesis by simp
  qed
qed

subsection \<open>Properties\<close>

text \<open>
  \<open>init_mappers\<close> builds the chain that the lookups follow: the mappers that were added, in the order
  in which they were added, then the generic mapper, then the null mapper, so that the null mapper
  sees only the types that no other mapper takes. Every mapper of the chain has one owner, no mapper
  changes its kind, and the registry is ready.
\<close>

theorem init_mappers_order:
  assumes "reg_ok others ns gs us (r, h)" and "\<not> mappers_ready r"
    and "\<forall>a h. mapper_init a h = Ok ()"
  shows "\<exists>r' h'. init_mappers mapper_init security (r, h) = Some (Ok (r', h'))
    \<and> reg_ok others (ns @ gs @ us) [] [] (r', h') \<and> mappers_ready r' \<and> has_security r' = Some security
    \<and> (\<forall>x. map_option m_kind (h' x) = map_option m_kind (h x))"
  using assms by (rule init_mappers_chain)

text \<open>
  \<open>destroy\<close> releases every mapper exactly when the chain has at most one: then nothing faults and
  only the mappers that others hold are left. With two or more mappers in the chain (a generic
  and a null mapper, for example) \<open>destroy_chain\<close> releases the second one after it was freed.
\<close>

theorem registry_destroy:
  assumes "reg_ok others ns gs us (r, h)"
  shows "(length ns \<le> 1 \<longrightarrow> (\<exists>h'. reg_destroy (r, h)
            = Some (Ok (r\<lparr>null_mapper := None, generic_mapper := None, mappers := None\<rparr>, h')) \<and> dom h' = others))
    \<and> (2 \<le> length ns \<longrightarrow> reg_destroy (r, h) = Some (Fault UseAfterFree))"
  using assms by (rule reg_destroy_chain)

text \<open>A registry with a plain mapper at 1 in its chain, the generic mapper at 2 and the null mapper at 3.\<close>

definition sample_registry :: registry where
  "sample_registry = \<lparr>mappers = Some 1, null_mapper = Some 3, generic_mapper = Some 2,
     mappers_ready = False, has_security = None\<rparr>"

definition sample_mheap :: mheap where
  "sample_mheap = [1 \<mapsto> new_mapper PlainMapper, 2 \<mapsto> new_mapper GenericMapper, 3 \<mapsto> new_mapper (NullMapper [])]"

lemma sample_reg_ok: "reg_ok {} [1] [2] [3] (sample_registry, sample_mheap)"
  by (auto simp: reg_ok_def sample_registry_def sample_mheap_def new_mapper_def)

theorem init_mappers_order_witness:
  "\<exists>r' h'. init_mappers (\<lambda>a h. Ok ()) True (sample_registry, sample_mheap) = Some (Ok (r', h'))
     \<and> reg_ok {} [1, 2, 3] [] [] (r', h') \<and> mappers_ready r'"
  using init_mappers_order [OF sample_reg_ok, of "\<lambda>a h. Ok ()" True]
  by (auto simp: sample_registry_def)

definition sample_chain :: mheap where
  "sample_chain = [1 \<mapsto> (new_mapper GenericMapper)\<lparr>m_next := Some 2\<rparr>, 2 \<mapsto> new_mapper (NullMapper [])]"

definition sample_joined :: registry where
  "sample_joined = \<lparr>mappers = Some 1, null_mapper = None, generic_mapper = None,
     mappers_ready = True, has_security = Some False\<rparr>"

lemma sample_joined_ok: "reg_ok {} [1, 2] [] [] (sample_joined, sample_chain)"
  by (auto simp: reg_ok_def sample_joined_def sample_chain_def new_mapper_def)

theorem registry_destroy_witness:
  "(\<exists>h'. reg_destroy (sample_registry, sample_mheap) = Some (Ok (new_registry, h')) \<and> dom h' = {})
   \<and> reg_destroy (sample_joined, sample_chain) = Some (Fault UseAfterFree)"
  using registry_destroy [OF sample_reg_ok] registry_destroy [OF sample_joined_ok]
  by (simp add: sample_registry_def new_registry_def reg_init_def)

lemma remove_mapper_inner:
  assumes "chain h (Some a) (xs @ b # ys)" and "xs \<noteq> []" and "distinct (xs @ b # ys)"
  shows "\<exists>h'. remove_mapper a b h = Some (Ok h') \<and> chain h' (Some a) (xs @ ys)
    \<and> (\<forall>x. x \<notin> set xs \<longrightarrow> h' x = h x) \<and> dom h' = dom h"
  using assms
proof (induction xs arbitrary: a)
  case (Cons a' xs)
  then obtain n where n: "a' = a" "h a = Some n" "m_count n = 1" "chain h (m_next n) (xs @ b # ys)" by auto
  show ?case
  proof (cases xs)
    case Nil
    then obtain nb where nb: "m_next n = Some b" "h b = Some nb" "chain h (m_next nb) ys" using n(4) by auto
    let ?h = "h(a \<mapsto> n\<lparr>m_next := m_next nb\<rparr>)"
    have "remove_mapper a b h = Some (Ok ?h)" using n(2) nb(1,2) by (subst remove_mapper.simps) simp
    moreover have "chain ?h (m_next nb) ys" using nb(3) Cons.prems(3) n(1) by simp
    moreover have "dom ?h = dom h" using n(2) by auto
    ultimately show ?thesis using n Nil by (intro exI [of _ ?h]) (simp del: fun_upd_apply, simp)
  next
    case (Cons c cs)
    then have nx: "m_next n = Some c" "c \<noteq> b" using n(4) Cons.prems(3) by auto
    obtain h' where h': "remove_mapper c b h = Some (Ok h')" "chain h' (Some c) (xs @ ys)"
      "\<forall>x. x \<notin> set xs \<longrightarrow> h' x = h x" "dom h' = dom h"
      using Cons.IH [of c] n(4) nx(1) Cons.prems(3) Cons by auto
    have "remove_mapper a b h = Some (Ok h')" using n(2) nx h'(1) by (subst remove_mapper.simps) simp
    moreover have "h' a = Some n" using h'(3) Cons.prems(3) n(1,2) by auto
    ultimately show ?thesis using h' n nx by (intro exI [of _ h']) auto
  qed
qed simp

lemma remove_head:
  assumes "chain h (Some a) (a # ns)" and "distinct (a # ns)"
  shows "\<exists>p h1. next_mapper a h = Some (Ok (p, h1)) \<and> m_decr a h1 = Some (Ok (0, h(a := None)))
    \<and> chain (h(a := None)) p ns"
proof -
  obtain n where n: "h a = Some n" "m_count n = 1" "chain h (m_next n) ns" using assms(1) by auto
  show ?thesis
  proof (cases "m_next n")
    case None
    then show ?thesis using n m_decr_last [of h a n] by (simp add: next_mapper_def)
  next
    case (Some b)
    then obtain nb ms where b: "ns = b # ms" "h b = Some nb" "m_count nb = 1" "chain h (m_next nb) ms"
      using n(3) chain_Some [of h b ns] by auto
    have ab: "a \<noteq> b" using assms(2) b(1) by auto
    let ?h1 = "h(b \<mapsto> nb\<lparr>m_count := 2\<rparr>)"
    have "m_decr b (?h1(a := None)) = Some (Ok (1, h(a := None)))"
      using m_decr_more [of "?h1(a := None)" b "nb\<lparr>m_count := 2\<rparr>"] ab b(2,3)
      by (simp add: fun_upd_twist fun_upd_idem)
    then have "m_decr a ?h1 = Some (Ok (0, h(a := None)))"
      using n(1,2) Some ab by (subst m_decr.simps) simp
    moreover have "next_mapper a h = Some (Ok (Some b, ?h1))"
      using n(1) Some b(2,3) by (simp add: next_mapper_def m_incr_def)
    moreover have "chain (h(a := None)) (Some b) ns" using n(3) Some assms(2) by simp
    ultimately show ?thesis by blast
  qed
qed

text \<open>
  Removing the head of the chain frees it and leaves the rest of the chain, each mapper with one
  owner. Removing a mapper from within the chain takes it out of the chain, but nobody gives up
  the chain's reference to it: it stays allocated with its count and still points into the chain.
\<close>

theorem remove_proxy_mapper_chain:
  assumes "reg_ok others (xs @ b # ys) gs us (r, h)"
  shows "(xs = [] \<longrightarrow> (\<exists>p. remove_proxy_mapper b (r, h) = Some (Ok (r\<lparr>mappers := p\<rparr>, h(b := None)))
            \<and> reg_ok others ys gs us (r\<lparr>mappers := p\<rparr>, h(b := None))))
    \<and> (xs \<noteq> [] \<longrightarrow> (\<exists>h'. remove_proxy_mapper b (r, h) = Some (Ok (r, h'))
            \<and> reg_ok (insert b others) (xs @ ys) gs us (r, h') \<and> h' b = h b))"
proof -
  have ok: "chain h (mappers r) (xs @ b # ys)" "chain h (generic_mapper r) gs" "chain h (null_mapper r) us"
    "distinct ((xs @ b # ys) @ gs @ us)" "dom h = set ((xs @ b # ys) @ gs @ us) \<union> others"
    "others \<inter> set ((xs @ b # ys) @ gs @ us) = {}" "length gs \<le> 1" "length us \<le> 1"
    using assms by (simp_all add: reg_ok_def)
  have d: "distinct (xs @ b # ys)" using ok(4) by auto
  show ?thesis
  proof (cases xs)
    case Nil
    then have m: "mappers r = Some b" "chain h (Some b) (b # ys)" using ok(1) by auto
    obtain p h1 where p: "next_mapper b h = Some (Ok (p, h1))" "m_decr b h1 = Some (Ok (0, h(b := None)))"
      "chain (h(b := None)) p ys"
      using remove_head [OF m(2)] d Nil by auto
    have "dom (h(b := None)) = set (ys @ gs @ us) \<union> others" using ok(4-6) Nil by auto
    then have "reg_ok others ys gs us (r\<lparr>mappers := p\<rparr>, h(b := None))"
      using ok Nil p(3) by (simp add: reg_ok_def del: fun_upd_apply)
    moreover have "remove_proxy_mapper b (r, h) = Some (Ok (r\<lparr>mappers := p\<rparr>, h(b := None)))"
      using p(1,2) m(1) by (simp add: remove_proxy_mapper_def)
    ultimately show ?thesis using Nil by blast
  next
    case (Cons a zs)
    then have m: "mappers r = Some a" "a \<noteq> b" using ok(1) d by auto
    obtain h' where h': "remove_mapper a b h = Some (Ok h')" "chain h' (Some a) (xs @ ys)"
      "\<forall>x. x \<notin> set xs \<longrightarrow> h' x = h x" "dom h' = dom h"
      using remove_mapper_inner [of h a xs b ys] ok(1) m(1) d Cons by auto
    have "\<forall>x \<in> set gs \<union> set us \<union> {b}. h' x = h x" using ok(4) h'(3) by auto
    then have "chain h' (generic_mapper r) gs" "chain h' (null_mapper r) us" "h' b = h b"
      using ok(2,3) by (simp_all cong: chain_cong)
    moreover have "dom h' = set ((xs @ ys) @ gs @ us) \<union> insert b others" using ok(5) h'(4) by auto
    ultimately have "reg_ok (insert b others) (xs @ ys) gs us (r, h')" "h' b = h b"
      using h'(2) m(1) ok(4,6-8) by (auto simp: reg_ok_def)
    then show ?thesis using h'(1) m Cons by (simp add: remove_proxy_mapper_def)
  qed
qed

theorem remove_proxy_mapper_chain_witness:
  "\<exists>h'. remove_proxy_mapper 2 (sample_joined, sample_chain) = Some (Ok (sample_joined, h'))
     \<and> reg_ok {2} [1] [] [] (sample_joined, h') \<and> h' 2 = Some (new_mapper (NullMapper []))"
  using remove_proxy_mapper_chain [of "{}" "[1]" 2 "[]" "[]" "[]" sample_joined sample_chain] sample_joined_ok
  by (simp add: sample_chain_def)

end
