(* ===== verification/Proxy.thy ===== *)
theory Proxy
  imports Action ConfigBase MapperRegistry
begin

text \<open>
  The proxy itself (src/src/proxy/proxy.h and proxy.cpp): its configuration, which starts the broker, creates the two
  POA managers, publishes the reference mapper and sets up the registry of mappers, and its end.

  The calls on the broker are listed by \<open>broker_call\<close>; which of them throw, and which give nil, is up to the
  environment \<open>proxy_env\<close>. Everything that outlives an exception is in \<open>proxy_world\<close>: the proxies that
  exist, the static pointer to one of them, the managers, the IOR table, the files, the configuration and the registry. The initialisation of the mappers that the
  registry holds is a parameter here (\<open>mapper_init\<close>), since it works on objects that the registry knows nothing of; theory \<open>MapperInit\<close> has its code, and the root theory the
  lemma that it succeeds for the chain that a configuration leaves. A file that is \<open>writable\<close> can be opened and stores what is printed to it; the code looks at the result of \<open>fopen\<close> only.
\<close>

subsection \<open>State\<close>

datatype broker_call =
    ORB_init | The_POAManagerFactory | Resolve_IORTable | Create_policy bool | Create_POAManager bool | Create_POA
  | Activate_mapper | Object_to_string | Bind_IOR | Activate_manager bool | ORB_shutdown | ORB_destroy | ORB_run

datatype narrowed = RootPOA | POAManagerFactory | IORTable

record proxy_env =
  throws :: "broker_call \<Rightarrow> bool"
  gives_nil :: "narrowed \<Rightarrow> bool"
  resolve_root :: "nat \<Rightarrow> bool"
  ssliop_found :: bool
  mapper_ior :: string
  writable :: "string \<Rightarrow> bool"
  mreg_loaded :: bool
  mapper_init :: "nat \<Rightarrow> mheap \<Rightarrow> unit result"
  null_addr :: nat
  gen_addr :: nat
  generic_dll :: "bool option"

record proxy =
  px_orb :: bool
  px_ior_file :: string
  must_shutdown :: bool
  px_debug :: bool

record poa_manager =
  pm_endpoints :: "(string \<times> 16 word) list"
  pm_active :: bool

record proxy_world =
  pw_this :: "nat option"
  pw_proxies :: "nat \<rightharpoonup> proxy"
  pw_slept :: nat
  pw_outside :: "poa_manager option"
  pw_inside :: "poa_manager option"
  pw_iors :: "string \<rightharpoonup> string"
  pw_files :: "string \<rightharpoonup> string"
  pw_handled :: "string list"
  pw_config :: config
  pw_query :: nat
  pw_registry :: "registry \<times> mheap"

definition new_proxy :: "bool \<Rightarrow> proxy" where
  "new_proxy Debug = \<lparr>px_orb = False, px_ior_file = [], must_shutdown = False, px_debug = Debug\<rparr>"

text \<open>Access to the object at an address.\<close>

definition px_at :: "nat \<Rightarrow> (proxy_world, proxy) act" where
  "px_at self st = Some (case pw_proxies st self of None \<Rightarrow> (Fault UseAfterFree, st) | Some p \<Rightarrow> (Ok p, st))"

definition px_mod :: "nat \<Rightarrow> (proxy \<Rightarrow> proxy) \<Rightarrow> (proxy_world, unit) act" where
  "px_mod self f = bindA (px_at self) (\<lambda>p. modA (\<lambda>st. st\<lparr>pw_proxies := (pw_proxies st)(self \<mapsto> f p)\<rparr>))"

definition call_broker :: "proxy_env \<Rightarrow> broker_call \<Rightarrow> (proxy_world, unit) act" where
  "call_broker env c = orA (\<not> throws env c) (Thrown ''CORBA'')"

definition not_nil :: "proxy_env \<Rightarrow> narrowed \<Rightarrow> (proxy_world, unit) act" where
  "not_nil env n = orA (\<not> gives_nil env n) (Thrown ''InitError'')"

subsection \<open>Shutting down\<close>

definition shutdown :: "proxy_env \<Rightarrow> nat \<Rightarrow> (proxy_world, unit) act" where
  "shutdown env self = seqA (px_mod self (\<lambda>p. p\<lparr>must_shutdown := True\<rparr>))
     (bindA (px_at self) (\<lambda>p. if px_orb p then call_broker env ORB_shutdown else failA NullDeref))"

definition signal_handler :: "proxy_env \<Rightarrow> (proxy_world, unit) act" where
  "signal_handler env = bindA (readA pw_this) (\<lambda>this. case this of None \<Rightarrow> retA () | Some self \<Rightarrow> shutdown env self)"

definition setup_shutdown_handler :: "(proxy_world, unit) act" where
  "setup_shutdown_handler = modA (\<lambda>st. st\<lparr>pw_handled := [''SIGINT'', ''SIGUSR1'', ''SIGUSR2'', ''SIGTERM'']\<rparr>)"

definition on_registry :: "(registry \<times> mheap \<Rightarrow> (registry \<times> mheap) result option) \<Rightarrow> (proxy_world, unit) act" where
  "on_registry m = liftP (\<lambda>st. bindP (m (pw_registry st)) (\<lambda>r. Some (Ok (st\<lparr>pw_registry := r\<rparr>))))"

definition destroy :: "proxy_env \<Rightarrow> nat \<Rightarrow> (proxy_world, unit) act" where
  "destroy env self = bindA (px_at self) (\<lambda>p. if \<not> px_orb p then retA () else
     seqA (if mreg_loaded env then on_registry reg_destroy else retA ())
    (seqA (call_broker env ORB_destroy)
          (px_mod self (\<lambda>p. p\<lparr>px_orb := False\<rparr>))))"

definition delete_proxy :: "proxy_env \<Rightarrow> nat \<Rightarrow> (proxy_world, unit) act" where
  "delete_proxy env self = seqA (destroy env self) (modA (\<lambda>st. st\<lparr>pw_proxies := (pw_proxies st)(self := None)\<rparr>))"

definition svc_run :: "proxy_env \<Rightarrow> nat \<Rightarrow> (proxy_world, int) act" where
  "svc_run env self = bindA (px_at self) (\<lambda>p. if px_orb p then seqA (call_broker env ORB_run) (retA 0) else failA NullDeref)"

subsection \<open>Configuration\<close>

text \<open>The root POA is asked for again after a pause, until the attempts are used up.\<close>

fun resolve_again :: "proxy_env \<Rightarrow> nat \<Rightarrow> nat \<Rightarrow> (proxy_world, unit) act" where
  "resolve_again env k 0 st = orA (resolve_root env k) (Thrown ''InitError'') st"
| "resolve_again env k (Suc attempts) st =
     (if resolve_root env k then retA () st else resolve_again env (k + 1) attempts (st\<lparr>pw_slept := pw_slept st + 10\<rparr>))"

definition start_orb :: "proxy_env \<Rightarrow> os_env \<Rightarrow> config_src \<Rightarrow> nat \<Rightarrow> (proxy_world, unit) act" where
  "start_orb env os src self =
     bindA (liftR (\<lambda>st. bindR (get_orb_options os src (pw_config st) (pw_query st))
              (\<lambda>(args, cfg, k). Ok (args, st\<lparr>pw_config := cfg, pw_query := k\<rparr>)))) (\<lambda>args.
     if args = None then failA NullDeref
     else seqA (call_broker env ORB_init)
         (seqA (px_mod self (\<lambda>p. p\<lparr>px_orb := True\<rparr>))
               (modA (\<lambda>st. st\<lparr>pw_config := set_secure_available (ssliop_found env) (pw_config st)\<rparr>))))"

definition find_services :: "proxy_env \<Rightarrow> (proxy_world, unit) act" where
  "find_services env = seqA (resolve_again env 0 3)
     (seqA (not_nil env RootPOA)
     (seqA (call_broker env The_POAManagerFactory)
     (seqA (not_nil env POAManagerFactory)
     (seqA (call_broker env Resolve_IORTable)
           (not_nil env IORTable)))))"

text \<open>The value of the endpoint policy: the alias when there is one, and the port as an unsigned short.\<close>

definition policy_endpoint :: "endpoint \<Rightarrow> string \<times> 16 word" where
  "policy_endpoint ep = (c_str (if ep_alias ep \<noteq> [] then ep_alias ep else ep_hostname ep), of_int (ep_port ep))"

definition create_manager :: "proxy_env \<Rightarrow> os_env \<Rightarrow> config_src \<Rightarrow> bool \<Rightarrow> (proxy_world, unit) act" where
  "create_manager env os src ext =
     bindA (liftR (\<lambda>st. bindR (get_endpoints os src ext (pw_config st) (pw_query st))
              (\<lambda>(eps, cfg, k). Ok (eps, st\<lparr>pw_config := cfg, pw_query := k\<rparr>)))) (\<lambda>eps.
     seqA (call_broker env (Create_policy ext))
    (seqA (call_broker env (Create_POAManager ext))
     (let pm = \<lparr>pm_endpoints = map policy_endpoint eps, pm_active = False\<rparr>
      in modA (\<lambda>st. if ext then st\<lparr>pw_outside := Some pm\<rparr> else st\<lparr>pw_inside := Some pm\<rparr>))))"

definition IOR_TABLE_KEY :: string where
  "IOR_TABLE_KEY = ''LORICA_REFERENCE_MAPPER''"

definition publish_mapper :: "proxy_env \<Rightarrow> config_src \<Rightarrow> string \<Rightarrow> nat \<Rightarrow> (proxy_world, unit) act" where
  "publish_mapper env src def_ior_file self =
     seqA (call_broker env Create_POA)
    (seqA (catchA (call_broker env Activate_mapper) (\<lambda>ex. failA (Thrown ''InitError'')))
    (seqA (call_broker env Object_to_string)
    (seqA (call_broker env Bind_IOR)
    (seqA (modA (\<lambda>st. st\<lparr>pw_iors := (pw_iors st)(IOR_TABLE_KEY \<mapsto> mapper_ior env)\<rparr>))
     (let ior_file = cs_value src ''IOR_FILE'' def_ior_file in
      seqA (px_mod self (\<lambda>p. p\<lparr>px_ior_file := ior_file\<rparr>))
     (seqA (orA (writable env (c_str ior_file)) (Thrown ''InitError''))
           (modA (\<lambda>st. st\<lparr>pw_files := (pw_files st)(c_str ior_file \<mapsto> mapper_ior env)\<rparr>))))))))"

text \<open>The loop over the blanks of the type ids.\<close>

function null_type_loop :: "nat \<Rightarrow> string \<Rightarrow> nat \<Rightarrow> registry \<times> mheap \<Rightarrow> (registry \<times> mheap) result option" where
  "null_type_loop a ne_ids start s = (case str_find CHR '' '' ne_ids start of
       None \<Rightarrow> add_null_mapper_type a (substr_from ne_ids start) s
     | Some space \<Rightarrow> bindP (add_null_mapper_type a (substr ne_ids start (space - start)) s)
         (\<lambda>s. null_type_loop a ne_ids (space + 1) s))"
  by pat_completeness auto
termination
  by (relation "measure (\<lambda>(a, ids, start, s). length ids - start)") (auto simp: str_find_shrinks)

declare null_type_loop.simps [simp del]

definition add_null_types :: "proxy_env \<Rightarrow> config_src \<Rightarrow> (proxy_world, unit) act" where
  "add_null_types env src = (let ne_ids = null_eval_type_ids src in
     if ne_ids \<noteq> [] then on_registry (null_type_loop (null_addr env) ne_ids 0)
     else if null_eval_any src then on_registry (\<lambda>s. Some (Ok (create_default_null_mapper (null_addr env) s)))
     else retA ())"

text \<open>
  On Windows the generic mapper is in a library of its own that \<open>process_directive\<close> loads, or fails to load; elsewhere, where
  \<open>generic_dll\<close> is \<^term>\<open>None\<close>, it is created here.
\<close>

definition add_generic_mapper :: "proxy_env \<Rightarrow> config_src \<Rightarrow> (proxy_world, unit) act" where
  "add_generic_mapper env src = (if \<not> generic_evaluator src then retA ()
     else case generic_dll env of
       None \<Rightarrow> on_registry (\<lambda>(r, h). add_proxy_mapper (gen_addr env) (r, h(gen_addr env \<mapsto> new_mapper GenericMapper)))
     | Some False \<Rightarrow> retA ()
     | Some True \<Rightarrow> on_registry (generic_loader_init (mreg_loaded env) (gen_addr env)))"

definition register_mappers :: "proxy_env \<Rightarrow> config_src \<Rightarrow> (proxy_world, unit) act" where
  "register_mappers env src = (if \<not> mreg_loaded env then failA NullDeref else
     seqA (add_null_types env src)
    (seqA (add_generic_mapper env src)
          (bindA (readA (\<lambda>st. secure_available (pw_config st))) (\<lambda>security.
             on_registry (init_mappers (mapper_init env) security)))))"

definition activate_managers :: "proxy_env \<Rightarrow> (proxy_world, unit) act" where
  "activate_managers env =
     seqA (call_broker env (Activate_manager True))
    (seqA (modA (\<lambda>st. st\<lparr>pw_outside := map_option (\<lambda>pm. pm\<lparr>pm_active := True\<rparr>) (pw_outside st)\<rparr>))
    (seqA (call_broker env (Activate_manager False))
          (modA (\<lambda>st. st\<lparr>pw_inside := map_option (\<lambda>pm. pm\<lparr>pm_active := True\<rparr>) (pw_inside st)\<rparr>))))"

text \<open>\<open>configure\<close>: whatever is thrown on the way, \<open>InitError\<close> comes out.\<close>

definition configure :: "proxy_env \<Rightarrow> os_env \<Rightarrow> config_src \<Rightarrow> string \<Rightarrow> nat \<Rightarrow> (proxy_world, unit) act" where
  "configure env os src def_ior_file self = catchA
     (seqA (modA (\<lambda>st. st\<lparr>pw_this := Some self\<rparr>))
     (seqA (start_orb env os src self)
     (seqA (find_services env)
     (seqA (create_manager env os src True)
     (seqA (create_manager env os src False)
     (seqA (publish_mapper env src def_ior_file self)
     (seqA setup_shutdown_handler
     (seqA (register_mappers env src)
           (activate_managers env)))))))))
     (\<lambda>ex. failA (Thrown ''InitError''))"

text \<open>\<open>open\<close>: the configuration file is read and the proxy configured from it; 0 when either fails.\<close>

definition open_proxy ::
    "proxy_env \<Rightarrow> os_env \<Rightarrow> (string \<Rightarrow> int) \<Rightarrow> (string \<Rightarrow> string option) \<Rightarrow> file_config \<Rightarrow> nat \<Rightarrow> string option \<Rightarrow>
     (proxy_world, int) act" where
  "open_proxy env os hash read_file fcfg self args = (case args of
       None \<Rightarrow> retA 0
     | Some config_file \<Rightarrow> (case cfg_init hash read_file config_file 0 fcfg of
           (Inl e, fcfg) \<Rightarrow> retA 0
         | (Inr u, fcfg) \<Rightarrow> catchA (seqA (configure env os (file_source hash fcfg) [] self) (retA 1)) (\<lambda>ex. retA 0)))"

subsection \<open>The stages of the configuration\<close>

lemma call_broker_ok [simp]: "\<not> throws env c \<Longrightarrow> call_broker env c st = Some (Ok (), st)"
  by (simp add: call_broker_def)

lemma call_broker_throws [simp]: "throws env c \<Longrightarrow> call_broker env c st = Some (Fault (Thrown ''CORBA''), st)"
  by (simp add: call_broker_def)

lemma not_nil_ok [simp]: "\<not> gives_nil env n \<Longrightarrow> not_nil env n st = Some (Ok (), st)"
  by (simp add: not_nil_def)

lemma px_at_ok [simp]: "pw_proxies st self = Some p \<Longrightarrow> px_at self st = Some (Ok p, st)"
  by (simp add: px_at_def)

lemma px_mod_ok [simp]:
  "pw_proxies st self = Some p \<Longrightarrow> px_mod self f st = Some (Ok (), st\<lparr>pw_proxies := (pw_proxies st)(self \<mapsto> f p)\<rparr>)"
  by (simp add: px_mod_def)

lemma liftR_ok [simp]: "m st = Ok (x, st') \<Longrightarrow> liftR m st = Some (Ok x, st')"
  by (simp add: liftR_def)

lemma on_registry_ok [simp]:
  "m (pw_registry st) = Some (Ok r) \<Longrightarrow> on_registry m st = Some (Ok (), st\<lparr>pw_registry := r\<rparr>)"
  by (simp add: on_registry_def liftP_def)

lemma on_registry_frame:
  assumes "on_registry m st = Some (r, st')"
  shows "\<exists>x. st' = st\<lparr>pw_registry := x\<rparr>"
proof (cases "m (pw_registry st)")
  case (Some y)
  then show ?thesis
  proof (cases y)
    case (Inl e)
    with Some assms show ?thesis by (intro exI [of _ "pw_registry st"]) (simp add: on_registry_def liftP_def)
  next
    case (Inr x)
    with Some assms show ?thesis by (intro exI [of _ x]) (simp add: on_registry_def liftP_def)
  qed
qed (use assms in \<open>simp add: on_registry_def liftP_def\<close>)

text \<open>The first attempt that succeeds, and the time slept before it.\<close>

lemma resolve_again_run:
  "resolve_again env k n st =
     (if \<exists>j \<le> n. resolve_root env (k + j)
      then Some (Ok (), st\<lparr>pw_slept := pw_slept st + 10 * (LEAST j. resolve_root env (k + j))\<rparr>)
      else Some (Fault (Thrown ''InitError''), st\<lparr>pw_slept := pw_slept st + 10 * n\<rparr>))"
proof (induction n arbitrary: k st)
  case 0
  show ?case
  proof (cases "resolve_root env k")
    case True
    then have "(LEAST j. resolve_root env (k + j)) = 0" by (intro Least_equality) auto
    with True show ?thesis by simp
  qed simp
next
  case (Suc n)
  show ?case
  proof (cases "resolve_root env k")
    case True
    then have "(LEAST j. resolve_root env (k + j)) = 0" "\<exists>j \<le> Suc n. resolve_root env (k + j)"
      by (intro Least_equality, auto)
    with True show ?thesis by simp
  next
    case False
    have ex: "(\<exists>j \<le> Suc n. resolve_root env (k + j)) \<longleftrightarrow> (\<exists>j \<le> n. resolve_root env (Suc k + j))"
      using False by (auto simp: less_Suc_eq_le [symmetric] less_Suc_eq_0_disj) (metis add_Suc_right)
    have "(LEAST j. resolve_root env (k + j)) = Suc (LEAST j. resolve_root env (k + Suc j))"
      if "\<exists>j \<le> n. resolve_root env (Suc k + j)"
      using that False Least_Suc [of "\<lambda>j. resolve_root env (k + j)" "Suc j" for j] by auto
    with Suc [of "Suc k"] False ex show ?thesis by auto
  qed
qed

text \<open>All type ids end up in one null mapper.\<close>

lemma null_type_loop_more:
  assumes "null_mapper r = Some a" and "h a = Some n" and "m_kind n = NullMapper ts"
  shows "null_type_loop a ids start (r, h)
    = Some (Ok (r, h(a \<mapsto> n\<lparr>m_kind := NullMapper (ts @ pieces CHR '' '' ids start)\<rparr>)))"
  using assms
proof (induction a ids start "(r, h)" arbitrary: h n ts rule: null_type_loop.induct)
  case (1 a ids start)
  have add: "add_null_mapper_type a x (r, h) = Some (Ok (r, h(a \<mapsto> n\<lparr>m_kind := NullMapper (ts @ [x])\<rparr>)))" for x
    using 1(2-4) by (simp add: add_null_mapper_type_def add_type_id_def)
  show ?case
  proof (cases "str_find CHR '' '' ids start")
    case None
    then show ?thesis by (subst null_type_loop.simps) (simp add: add pieces.simps [of _ ids start])
  next
    case (Some space)
    from 1(1) [OF Some _ 1(2), of "h(a \<mapsto> n\<lparr>m_kind := NullMapper (ts @ [substr ids start (space - start)])\<rparr>)"] Some show ?thesis
      by (subst null_type_loop.simps) (simp add: add pieces.simps [of _ ids start])
  qed
qed

lemma null_type_loop_first:
  assumes "null_mapper r = None"
  shows "null_type_loop a ids 0 (r, h)
    = Some (Ok (r\<lparr>null_mapper := Some a\<rparr>, h(a \<mapsto> new_mapper (NullMapper (split_on CHR '' '' ids)))))"
proof -
  let ?n = "\<lambda>ts. new_mapper (NullMapper ts)"
  have kind: "(?n ts)\<lparr>m_kind := NullMapper us\<rparr> = ?n us" "m_kind (?n ts) = NullMapper ts" for ts us
    by (simp_all add: new_mapper_def)
  have add: "add_null_mapper_type a x (r, h) = Some (Ok (r\<lparr>null_mapper := Some a\<rparr>, h(a \<mapsto> ?n [x])))" for x
    using assms by (simp add: add_null_mapper_type_def add_type_id_def kind)
  have "null_type_loop a ids 0 (r, h) = Some (Ok (r\<lparr>null_mapper := Some a\<rparr>, h(a \<mapsto> ?n (pieces CHR '' '' ids 0))))"
  proof (cases "str_find CHR '' '' ids 0")
    case None
    then show ?thesis by (subst null_type_loop.simps) (simp add: add pieces.simps [of _ ids 0])
  next
    case (Some space)
    then show ?thesis
      using null_type_loop_more [of "r\<lparr>null_mapper := Some a\<rparr>" a "h(a \<mapsto> ?n [substr ids 0 space])" "?n [substr ids 0 space]"
          "[substr ids 0 space]" ids "space + 1"]
      by (subst null_type_loop.simps) (simp add: add kind pieces.simps [of _ ids 0])
  qed
  then show ?thesis by (simp add: pieces_split_on)
qed

text \<open>The mappers that the configuration asks for, in the order of the chain.\<close>

definition wants_null :: "config_src \<Rightarrow> bool" where
  "wants_null src \<longleftrightarrow> null_eval_type_ids src \<noteq> [] \<or> null_eval_any src"

definition configured_mappers :: "proxy_env \<Rightarrow> config_src \<Rightarrow> (nat \<times> mapper_kind) list" where
  "configured_mappers env src =
     (if generic_evaluator src then [(gen_addr env, GenericMapper)] else [])
     @ (if null_eval_type_ids src \<noteq> [] then [(null_addr env, NullMapper (split_on CHR '' '' (null_eval_type_ids src)))]
        else if null_eval_any src then [(null_addr env, NullMapper [])] else [])"

lemma register_mappers_ok:
  assumes "mreg_loaded env" and "reg_ok others [] [] [] (pw_registry st)" and "\<not> mappers_ready (fst (pw_registry st))"
    and "null_addr env \<noteq> gen_addr env" and "null_addr env \<notin> others" and "gen_addr env \<notin> others"
    and "\<forall>a h. mapper_init env a h = Ok ()" and "generic_dll env \<noteq> Some False"
  shows "\<exists>r h. register_mappers env src st = Some (Ok (), st\<lparr>pw_registry := (r, h)\<rparr>)
    \<and> reg_ok others (map fst (configured_mappers env src)) [] [] (r, h) \<and> mappers_ready r
    \<and> has_security r = Some (secure_available (pw_config st))
    \<and> (\<forall>(a, k) \<in> set (configured_mappers env src). map_option m_kind (h a) = Some k)"
proof -
  let ?a = "null_addr env" and ?g = "gen_addr env"
  obtain r0 h0 where reg: "pw_registry st = (r0, h0)" by (cases "pw_registry st")
  have r0: "mappers r0 = None" "generic_mapper r0 = None" "null_mapper r0 = None" "dom h0 = others" "\<not> mappers_ready r0"
    using assms(2,3) reg by (simp_all add: reg_ok_def)
  let ?ids = "null_eval_type_ids src"
  let ?ts = "if ?ids \<noteq> [] then split_on CHR '' '' ?ids else []"
  let ?r1 = "if wants_null src then r0\<lparr>null_mapper := Some ?a\<rparr> else r0"
  let ?h1 = "if wants_null src then h0(?a \<mapsto> new_mapper (NullMapper ?ts)) else h0"
  let ?us = "if wants_null src then [?a] else []" and ?gs = "if generic_evaluator src then [?g] else []"
  let ?h2 = "if generic_evaluator src then ?h1(?g \<mapsto> new_mapper GenericMapper) else ?h1"
  let ?r2 = "if \<not> generic_evaluator src then ?r1
    else if generic_dll env = None then ?r1\<lparr>mappers := Some ?g\<rparr> else ?r1\<lparr>generic_mapper := Some ?g\<rparr>"
  let ?ns = "if generic_dll env = None then ?gs else []" and ?ls = "if generic_dll env = None then [] else ?gs"
  have one: "add_null_types env src st = Some (Ok (), st\<lparr>pw_registry := (?r1, ?h1)\<rparr>)"
    using r0 null_type_loop_first [of r0 ?a ?ids h0]
    by (auto simp: add_null_types_def wants_null_def reg create_default_null_mapper_def Let_def intro: proxy_world.equality)
  have two: "add_generic_mapper env src (st\<lparr>pw_registry := (?r1, ?h1)\<rparr>) = Some (Ok (), st\<lparr>pw_registry := (?r2, ?h2)\<rparr>)"
    using r0 assms(1,8) by (cases "generic_dll env")
      (simp_all add: add_generic_mapper_def add_proxy_mapper_def generic_loader_init_def evaluator_loader_init_def
        set_generic_mapper_def drop_mapper_def)
  have "reg_ok others ?ns ?ls ?us (?r2, ?h2)"
    using r0 assms(4-6) by (auto simp: reg_ok_def new_mapper_def)
  moreover have "\<not> mappers_ready ?r2" using r0(5) by simp
  ultimately obtain r h where i: "init_mappers (mapper_init env) (secure_available (pw_config st)) (?r2, ?h2) = Some (Ok (r, h))"
    "reg_ok others (?ns @ ?ls @ ?us) [] [] (r, h)" "mappers_ready r" "has_security r = Some (secure_available (pw_config st))"
    "\<forall>x. map_option m_kind (h x) = map_option m_kind (?h2 x)"
    using init_mappers_chain [of others ?ns ?ls ?us ?r2 ?h2 "mapper_init env"] assms(7) by blast
  have names: "map fst (configured_mappers env src) = ?ns @ ?ls @ ?us" by (auto simp: configured_mappers_def wants_null_def)
  have "\<forall>(a, k) \<in> set (configured_mappers env src). map_option m_kind (?h2 a) = Some k"
    using assms(4) by (auto simp: configured_mappers_def wants_null_def new_mapper_def null_eval_any_def)
  with i(5) have kinds: "\<forall>(a, k) \<in> set (configured_mappers env src). map_option m_kind (h a) = Some k" by auto
  have "register_mappers env src st = Some (Ok (), st\<lparr>pw_registry := (r, h)\<rparr>)"
    using assms(1) one two i(1) by (simp add: register_mappers_def del: if_split)
  then show ?thesis using i(2-4) kinds unfolding names by blast
qed

text \<open>The endpoints once they are read.\<close>

lemma get_endpoints_again:
  assumes "cfg_endpoints cfg = exts @ ints" and "exts @ ints \<noteq> []"
    and "\<forall>ep \<in> set exts. ep_external ep" and "\<forall>ep \<in> set ints. \<not> ep_external ep"
  shows "get_endpoints os src ext cfg k = Ok (if ext then exts else ints, cfg, k)"
proof -
  have "filter (\<lambda>ep. ep_external ep = ext) exts = (if ext then exts else [])"
    "filter (\<lambda>ep. ep_external ep = ext) ints = (if ext then [] else ints)"
    using assms(3,4) by (auto intro: filter_True filter_False)
  then show ?thesis using assms(1,2) by (simp add: get_endpoints_def endpoints_missing_def)
qed

lemma create_manager_ok:
  assumes "get_endpoints os src ext (pw_config st) (pw_query st) = Ok (eps, pw_config st, pw_query st)"
    and "\<not> throws env (Create_policy ext)" and "\<not> throws env (Create_POAManager ext)"
  shows "create_manager env os src ext st = Some (Ok (),
    (let pm = \<lparr>pm_endpoints = map policy_endpoint eps, pm_active = False\<rparr>
     in if ext then st\<lparr>pw_outside := Some pm\<rparr> else st\<lparr>pw_inside := Some pm\<rparr>))"
  using assms by (simp add: create_manager_def Let_def)

definition good_env :: "proxy_env \<Rightarrow> bool" where
  "good_env env \<longleftrightarrow> (\<forall>c. \<not> throws env c) \<and> (\<forall>n. \<not> gives_nil env n) \<and> (\<exists>j \<le> 3. resolve_root env j) \<and> mreg_loaded env
     \<and> (\<forall>a h. mapper_init env a h = Ok ()) \<and> null_addr env \<noteq> gen_addr env
     \<and> generic_dll env \<noteq> Some False"

lemma find_services_ok:
  "good_env env \<Longrightarrow> find_services env st
     = Some (Ok (), st\<lparr>pw_slept := pw_slept st + 10 * (LEAST j. resolve_root env j)\<rparr>)"
  using resolve_again_run [of env 0 3 st] by (auto simp: find_services_def good_env_def)

lemma start_orb_ok:
  assumes "\<not> throws env ORB_init" and "get_orb_options os src (pw_config st) (pw_query st) = Ok (Some args, cfg, k)"
    and "pw_proxies st self = Some p"
  shows "start_orb env os src self st = Some (Ok (), st\<lparr>pw_config := set_secure_available (ssliop_found env) cfg, pw_query := k,
    pw_proxies := (pw_proxies st)(self \<mapsto> p\<lparr>px_orb := True\<rparr>)\<rparr>)"
  using assms by (simp add: start_orb_def)

lemma publish_mapper_ok:
  assumes "good_env env" and "writable env (c_str (cs_value src ''IOR_FILE'' d))" and "pw_proxies st self = Some p"
  shows "publish_mapper env src d self st = Some (Ok (), st\<lparr>pw_iors := (pw_iors st)(IOR_TABLE_KEY \<mapsto> mapper_ior env),
    pw_proxies := (pw_proxies st)(self \<mapsto> p\<lparr>px_ior_file := cs_value src ''IOR_FILE'' d\<rparr>),
    pw_files := (pw_files st)(c_str (cs_value src ''IOR_FILE'' d) \<mapsto> mapper_ior env)\<rparr>)"
  using assms by (simp add: publish_mapper_def good_env_def Let_def)

lemma destroy_down:
  assumes "destroy env self st = Some (Ok (), st')"
  shows "\<exists>p. pw_proxies st' self = Some p \<and> \<not> px_orb p"
proof -
  obtain p where p: "pw_proxies st self = Some p"
    using assms by (cases "pw_proxies st self") (simp_all add: destroy_def bindA_def px_at_def)
  show ?thesis
  proof (cases "px_orb p")
    case False
    with assms p show ?thesis by (auto simp: destroy_def)
  next
    case True
    let ?reg = "if mreg_loaded env then on_registry reg_destroy else retA ()"
    from assms True p have "seqA ?reg (seqA (call_broker env ORB_destroy) (px_mod self (\<lambda>p. p\<lparr>px_orb := False\<rparr>))) st = Some (Ok (), st')"
      by (simp add: destroy_def)
    then obtain s1 where "px_mod self (\<lambda>p. p\<lparr>px_orb := False\<rparr>) s1 = Some (Ok (), st')"
      by (auto simp: seqA_def bindA_def split: option.splits sum.splits)
    then show ?thesis by (cases "pw_proxies s1 self") (auto simp: px_mod_def bindA_def px_at_def)
  qed
qed

lemma configure_ok:
  assumes "good_env env" and "pw_proxies st self = Some p"
    and "orb_args (pw_config st) = []" and "cfg_endpoints (pw_config st) = []"
    and "parse_all os True (address_list (endpoint_text os src True)) [] (pw_query st) = Ok (True, exts, k1)"
    and "parse_all os False (address_list (endpoint_text os src False)) [] k1 = Ok (True, ints, k2)" and "exts @ ints \<noteq> []"
    and "writable env (c_str (cs_value src ''IOR_FILE'' d))"
    and "reg_ok others [] [] [] (pw_registry st)" and "\<not> mappers_ready (fst (pw_registry st))"
    and "null_addr env \<notin> others" and "gen_addr env \<notin> others"
  shows "\<exists>st' r h. configure env os src d self st = Some (Ok (), st')
    \<and> pw_outside st' = Some \<lparr>pm_endpoints = map policy_endpoint exts, pm_active = True\<rparr>
    \<and> pw_inside st' = Some \<lparr>pm_endpoints = map policy_endpoint ints, pm_active = True\<rparr>
    \<and> pw_iors st' IOR_TABLE_KEY = Some (mapper_ior env)
    \<and> pw_files st' (c_str (cs_value src ''IOR_FILE'' d)) = Some (mapper_ior env)
    \<and> pw_registry st' = (r, h) \<and> reg_ok others (map fst (configured_mappers env src)) [] [] (r, h) \<and> mappers_ready r
    \<and> (\<forall>(a, k) \<in> set (configured_mappers env src). map_option m_kind (h a) = Some k)
    \<and> has_security r = Some (ssliop_found env) \<and> secure_available (pw_config st') = ssliop_found env
    \<and> pw_this st' = Some self \<and> map_option px_orb (pw_proxies st' self) = Some True"
proof -
  have ext: "\<forall>ep \<in> set exts. ep_external ep" "\<forall>ep \<in> set ints. \<not> ep_external ep"
    using parse_all_external [OF assms(5)] parse_all_external [OF assms(6)] by auto
  have "endpoints_missing os src (pw_config st\<lparr>orb_args := a\<rparr>) (pw_query st)
      = Ok (False, pw_config st\<lparr>orb_args := a, cfg_endpoints := exts @ ints\<rparr>, k2)" for a
    using endpoints_present [OF _ assms(5,6), of "pw_config st\<lparr>orb_args := a\<rparr>"] assms(4) by simp
  then obtain args cfg where o: "get_orb_options os src (pw_config st) (pw_query st) = Ok (Some args, cfg, k2)"
    "cfg_endpoints cfg = exts @ ints"
    using assms(3) by (simp add: get_orb_options_def Let_def)
  have env: "\<not> throws env c" for c using assms(1) by (simp add: good_env_def)
  let ?c = "set_secure_available (ssliop_found env) cfg"
  have c: "cfg_endpoints ?c = exts @ ints" "secure_available ?c = ssliop_found env"
    using o(2) by (simp_all add: set_secure_available_def secure_available_def)
  note eps = get_endpoints_again [OF c(1) assms(7) ext]
  let ?st0 = "st\<lparr>pw_this := Some self\<rparr>"
  let ?st1 = "?st0\<lparr>pw_config := ?c, pw_query := k2, pw_proxies := (pw_proxies st)(self \<mapsto> p\<lparr>px_orb := True\<rparr>)\<rparr>"
  have 1: "start_orb env os src self ?st0 = Some (Ok (), ?st1)"
    using start_orb_ok [OF env, where st = ?st0] o(1) assms(2) by simp
  let ?st2 = "?st1\<lparr>pw_slept := pw_slept st + 10 * (LEAST j. resolve_root env j)\<rparr>"
  have 2: "find_services env ?st1 = Some (Ok (), ?st2)" using find_services_ok [OF assms(1), of ?st1] by simp
  let ?pm = "\<lambda>eps. \<lparr>pm_endpoints = map policy_endpoint eps, pm_active = False\<rparr>"
  let ?st3 = "?st2\<lparr>pw_outside := Some (?pm exts)\<rparr>" let ?st4 = "?st3\<lparr>pw_inside := Some (?pm ints)\<rparr>"
  have 3: "create_manager env os src True ?st2 = Some (Ok (), ?st3)" "create_manager env os src False ?st3 = Some (Ok (), ?st4)"
    using create_manager_ok [of os src True ?st2 exts env] create_manager_ok [of os src False ?st3 ints env] eps env by simp_all
  let ?f = "cs_value src ''IOR_FILE'' d"
  let ?st5 = "?st4\<lparr>pw_iors := (pw_iors st)(IOR_TABLE_KEY \<mapsto> mapper_ior env),
    pw_proxies := (pw_proxies st)(self \<mapsto> p\<lparr>px_orb := True, px_ior_file := ?f\<rparr>),
    pw_files := (pw_files st)(c_str ?f \<mapsto> mapper_ior env)\<rparr>"
  have 5: "publish_mapper env src d self ?st4 = Some (Ok (), ?st5)"
    using publish_mapper_ok [OF assms(1,8), of ?st4 self "p\<lparr>px_orb := True\<rparr>"] by simp
  let ?st6 = "?st5\<lparr>pw_handled := [''SIGINT'', ''SIGUSR1'', ''SIGUSR2'', ''SIGTERM'']\<rparr>"
  have 6: "setup_shutdown_handler ?st5 = Some (Ok (), ?st6)" by (simp add: setup_shutdown_handler_def)
  obtain r h where 7: "register_mappers env src ?st6 = Some (Ok (), ?st6\<lparr>pw_registry := (r, h)\<rparr>)"
    "reg_ok others (map fst (configured_mappers env src)) [] [] (r, h)" "mappers_ready r" "has_security r = Some (ssliop_found env)"
    "\<forall>(a, k) \<in> set (configured_mappers env src). map_option m_kind (h a) = Some k"
    using register_mappers_ok [of env others ?st6 src] assms(1,9-12) c(2) by (auto simp: good_env_def)
  let ?st7 = "?st6\<lparr>pw_registry := (r, h)\<rparr>"
  let ?st8 = "?st7\<lparr>pw_outside := Some ((?pm exts)\<lparr>pm_active := True\<rparr>), pw_inside := Some ((?pm ints)\<lparr>pm_active := True\<rparr>)\<rparr>"
  have 8: "activate_managers env ?st7 = Some (Ok (), ?st8)" using env by (simp add: activate_managers_def)
  have "configure env os src d self st = Some (Ok (), ?st8)"
    unfolding configure_def
    by (rule catchA_run, rule seqA_step, rule act_simps, rule seqA_step, rule 1, rule seqA_step, rule 2, rule seqA_step, rule 3,
        rule seqA_step, rule 3, rule seqA_step, rule 5, rule seqA_step, rule 6, rule seqA_step, rule 7, rule 8)
  then show ?thesis using 7(2-5) c(2) by (intro exI [of _ ?st8] exI [of _ r] exI [of _ h]) simp
qed

subsection \<open>Properties\<close>

text \<open>
  C8: When the broker works, the configuration does what the file says. The outside and inside managers get
  the endpoints of their address lines, in order, with the alias in place of the host name, and are active; the
  reference mapper is published in the IOR table and in the file that \<open>IOR_FILE\<close> names; the registry's chain has the
  generic mapper first, if it is asked for, and then one null mapper with all the type ids, or one for any type; the registry
  and the configuration agree on whether security is available.
\<close>

theorem configure_establishes:
  assumes "good_env env" and "pw_proxies st self = Some p"
    and "orb_args (pw_config st) = []" and "cfg_endpoints (pw_config st) = []"
    and "parse_all os True (address_list (endpoint_text os src True)) [] (pw_query st) = Ok (True, exts, k1)"
    and "parse_all os False (address_list (endpoint_text os src False)) [] k1 = Ok (True, ints, k2)" and "exts @ ints \<noteq> []"
    and "writable env (c_str (cs_value src ''IOR_FILE'' d))"
    and "reg_ok others [] [] [] (pw_registry st)" and "\<not> mappers_ready (fst (pw_registry st))"
    and "null_addr env \<notin> others" and "gen_addr env \<notin> others"
  shows "\<exists>st' r h. configure env os src d self st = Some (Ok (), st')
    \<and> pw_outside st' = Some \<lparr>pm_endpoints = map policy_endpoint exts, pm_active = True\<rparr>
    \<and> pw_inside st' = Some \<lparr>pm_endpoints = map policy_endpoint ints, pm_active = True\<rparr>
    \<and> pw_iors st' IOR_TABLE_KEY = Some (mapper_ior env)
    \<and> pw_files st' (c_str (cs_value src ''IOR_FILE'' d)) = Some (mapper_ior env)
    \<and> pw_registry st' = (r, h) \<and> reg_ok others (map fst (configured_mappers env src)) [] [] (r, h) \<and> mappers_ready r
    \<and> (\<forall>(a, k) \<in> set (configured_mappers env src). map_option m_kind (h a) = Some k)
    \<and> has_security r = Some (ssliop_found env) \<and> secure_available (pw_config st') = ssliop_found env
    \<and> pw_this st' = Some self \<and> map_option px_orb (pw_proxies st' self) = Some True"
  using assms by (rule configure_ok)

text \<open>
  C35: The end of a configured proxy. \<open>destroy\<close> releases the mappers and the broker when the configuration asked for at most one
  mapper; with the generic mapper and a null mapper, both of which the configuration file can ask for, it
  uses a mapper after it was freed.
\<close>

theorem configured_destroy:
  assumes "reg_ok others (map fst (configured_mappers env src)) [] [] (pw_registry st)"
    and "pw_proxies st self = Some p" and "px_orb p" and "mreg_loaded env" and "\<not> throws env ORB_destroy"
  shows "if generic_evaluator src \<and> wants_null src then destroy env self st = Some (Fault UseAfterFree, st)
    else \<exists>st'. destroy env self st = Some (Ok (), st') \<and> dom (snd (pw_registry st')) = others
      \<and> map_option px_orb (pw_proxies st' self) = Some False"
proof -
  obtain r h where reg: "pw_registry st = (r, h)" by (cases "pw_registry st")
  have len: "length (map fst (configured_mappers env src)) = (if generic_evaluator src then 1 else 0) + (if wants_null src then 1 else 0)"
    by (simp add: configured_mappers_def wants_null_def)
  note d = reg_destroy_chain [OF assms(1) [unfolded reg]]
  show ?thesis
  proof (cases "generic_evaluator src \<and> wants_null src")
    case True
    with d len have "reg_destroy (pw_registry st) = Some (Fault UseAfterFree)" by (simp add: reg)
    with True assms(2-4) show ?thesis by (simp add: destroy_def on_registry_def liftP_def)
  next
    case False
    with d len obtain r' h' where "reg_destroy (pw_registry st) = Some (Ok (r', h'))" "dom h' = others" by (auto simp: reg split: if_splits)
    with False assms(2-5) show ?thesis by (simp add: destroy_def)
  qed
qed

text \<open>
  The pointer that the signal handler follows outlives what it points to: nothing resets it. After \<open>destroy\<close> a signal makes
  the handler call the broker through a nil reference, and after the proxy is deleted it uses the freed object.
\<close>

theorem signal_after_destroy:
  assumes "pw_this st = Some self" and "destroy env self st = Some (Ok (), st')"
  shows "fst (the (signal_handler env st')) = Fault NullDeref
    \<and> (\<exists>st''. delete_proxy env self st = Some (Ok (), st'') \<and> fst (the (signal_handler env st'')) = Fault UseAfterFree)"
proof -
  have keep: "keeps (\<lambda>st. pw_this st = Some self) (destroy env self)"
  proof -
    have "keeps (\<lambda>st. pw_this st = Some self) (on_registry reg_destroy)"
      by (auto simp: keeps_def dest!: on_registry_frame)
    moreover have "keeps (\<lambda>st. pw_this st = Some self) (px_mod self f)" "keeps (\<lambda>st. pw_this st = Some self) (px_at self)" for f
      by (auto simp: keeps_def px_mod_def px_at_def bindA_def split: option.splits)
    ultimately show ?thesis unfolding destroy_def call_broker_def by (intro keeps_bindA keeps_if keeps_seqA keeps_basic)
  qed
  have ptr: "pw_this st' = Some self" using keepsD [OF keep assms(2)] assms(1) by simp
  obtain p where p: "pw_proxies st' self = Some p" "\<not> px_orb p"
    using destroy_down [OF assms(2)] by blast
  have "signal_handler env st' = Some (Fault NullDeref, st'\<lparr>pw_proxies := (pw_proxies st')(self \<mapsto> p\<lparr>must_shutdown := True\<rparr>)\<rparr>)"
    using ptr p by (simp add: signal_handler_def shutdown_def)
  moreover let ?gone = "st'\<lparr>pw_proxies := (pw_proxies st')(self := None)\<rparr>"
  have "delete_proxy env self st = Some (Ok (), ?gone)" using assms(2) by (simp add: delete_proxy_def)
  moreover have "signal_handler env ?gone = Some (Fault UseAfterFree, ?gone)"
    using ptr by (simp add: signal_handler_def shutdown_def px_mod_def px_at_def)
  ultimately show ?thesis by auto
qed

text \<open>A broker that answers the second request for the root POA.\<close>

definition sample_proxy_env :: proxy_env where
  "sample_proxy_env = \<lparr>throws = (\<lambda>c. False), gives_nil = (\<lambda>n. False), resolve_root = (\<lambda>k. 1 \<le> k), ssliop_found = True,
     mapper_ior = ''IOR:1'', writable = (\<lambda>f. f \<noteq> []), mreg_loaded = True, mapper_init = (\<lambda>a h. Ok ()), null_addr = 1, gen_addr = 2, generic_dll = None\<rparr>"

definition sample_proxy_src :: config_src where
  "sample_proxy_src = sample_src\<lparr>cs_value := (\<lambda>t d. if t = ''Null_Eval_Type_ID'' then ''IDL:A IDL:B'' else cs_value sample_src t d),
     cs_bool := (\<lambda>t d. t = ''Generic_Evaluator'')\<rparr>"

definition sample_world :: proxy_world where
  "sample_world = \<lparr>pw_this = None, pw_proxies = [7 \<mapsto> new_proxy False], pw_slept = 0, pw_outside = None, pw_inside = None,
     pw_iors = Map.empty, pw_files = Map.empty, pw_handled = [], pw_config = fresh_config, pw_query = 0,
     pw_registry = (new_registry, Map.empty)\<rparr>"

lemma sample_good_env: "good_env sample_proxy_env"
  by (auto simp: good_env_def sample_proxy_env_def)

lemma sample_proxy_mappers:
  "configured_mappers sample_proxy_env sample_proxy_src = [(2, GenericMapper), (1, NullMapper [''IDL:A'', ''IDL:B''])]"
  by (simp add: configured_mappers_def generic_evaluator_def null_eval_type_ids_def sample_proxy_src_def sample_proxy_env_def)

lemma sample_proxy_texts: "endpoint_text os sample_proxy_src ext = endpoint_text os sample_src ext"
  by (simp add: endpoint_text_def sample_proxy_src_def)

theorem configure_establishes_witness:
  "\<exists>st' r h. configure sample_proxy_env sample_env sample_proxy_src ''lorica.ior'' 7 sample_world = Some (Ok (), st')
    \<and> pw_registry st' = (r, h) \<and> reg_ok {} [2, 1] [] [] (r, h)
    \<and> pw_outside st' = Some \<lparr>pm_endpoints = [(''a'', 1)], pm_active = True\<rparr>
    \<and> pw_files st' ''lorica.ior'' = Some ''IOR:1'' \<and> map_option m_kind (h 1) = Some (NullMapper [''IDL:A'', ''IDL:B''])"
proof -
  have f: "cs_value sample_proxy_src ''IOR_FILE'' ''lorica.ior'' = ''lorica.ior''" "c_str ''lorica.ior'' = ''lorica.ior''"
    by (simp_all add: sample_proxy_src_def sample_src_def c_str_def)
  have st: "pw_proxies sample_world 7 = Some (new_proxy False)" "orb_args (pw_config sample_world) = []"
    "cfg_endpoints (pw_config sample_world) = []" "[sample_ext] @ [sample_int] \<noteq> []"
    "writable sample_proxy_env (c_str (cs_value sample_proxy_src ''IOR_FILE'' ''lorica.ior''))"
    "reg_ok {} [] [] [] (pw_registry sample_world)" "\<not> mappers_ready (fst (pw_registry sample_world))"
    "null_addr sample_proxy_env \<notin> {}" "gen_addr sample_proxy_env \<notin> {}"
    unfolding f by (simp_all add: sample_world_def fresh_config_def sample_proxy_env_def reg_ok_def new_registry_def reg_init_def)
  have "pw_query sample_world = 0" by (simp add: sample_world_def)
  then have parse: "parse_all sample_env True (address_list (endpoint_text sample_env sample_proxy_src True)) [] (pw_query sample_world)
      = Ok (True, [sample_ext], 0)"
    "parse_all sample_env False (address_list (endpoint_text sample_env sample_proxy_src False)) [] 0 = Ok (True, [sample_int], 0)"
    using sample_parse by (simp_all add: sample_proxy_texts)
  have pm: "map policy_endpoint [sample_ext] = [(''a'', 1)]" by (simp add: policy_endpoint_def sample_ext_def c_str_def)
  have ior: "mapper_ior sample_proxy_env = ''IOR:1''" by (simp add: sample_proxy_env_def)
  from configure_establishes [OF sample_good_env st(1-3) parse st(4-9)]
  show ?thesis unfolding f pm ior sample_proxy_mappers by (elim exE conjE) (intro exI conjI, assumption, assumption, simp_all)
qed

theorem configured_destroy_witness:
  "destroy (sample_proxy_env\<lparr>null_addr := 2, gen_addr := 1\<rparr>) 7 (sample_world\<lparr>pw_proxies := [7 \<mapsto> (new_proxy False)\<lparr>px_orb := True\<rparr>],
       pw_registry := (sample_joined, sample_chain)\<rparr>)
     = Some (Fault UseAfterFree, sample_world\<lparr>pw_proxies := [7 \<mapsto> (new_proxy False)\<lparr>px_orb := True\<rparr>],
       pw_registry := (sample_joined, sample_chain)\<rparr>)"
proof -
  let ?env = "sample_proxy_env\<lparr>null_addr := 2, gen_addr := 1\<rparr>"
  let ?st = "sample_world\<lparr>pw_proxies := [7 \<mapsto> (new_proxy False)\<lparr>px_orb := True\<rparr>], pw_registry := (sample_joined, sample_chain)\<rparr>"
  have src: "generic_evaluator sample_proxy_src" "wants_null sample_proxy_src" "null_eval_type_ids sample_proxy_src \<noteq> []"
    by (simp_all add: generic_evaluator_def wants_null_def null_eval_type_ids_def sample_proxy_src_def)
  then have "reg_ok {} (map fst (configured_mappers ?env sample_proxy_src)) [] [] (pw_registry ?st)"
    using sample_joined_ok by (simp add: configured_mappers_def)
  from configured_destroy [OF this, of 7 "(new_proxy False)\<lparr>px_orb := True\<rparr>"] src(1,2)
  show ?thesis by (simp add: sample_proxy_env_def)
qed

theorem signal_after_destroy_witness:
  "\<exists>st'. destroy sample_proxy_env 7 (sample_world\<lparr>pw_this := Some 7, pw_proxies := [7 \<mapsto> (new_proxy False)\<lparr>px_orb := True\<rparr>]\<rparr>)
      = Some (Ok (), st') \<and> fst (the (signal_handler sample_proxy_env st')) = Fault NullDeref"
proof -
  let ?st = "sample_world\<lparr>pw_this := Some 7, pw_proxies := [7 \<mapsto> (new_proxy False)\<lparr>px_orb := True\<rparr>]\<rparr>"
  have "reg_destroy (pw_registry ?st) = Some (Ok (pw_registry ?st))"
    by (simp add: reg_destroy_def drop_mapper_def sample_world_def new_registry_def reg_init_def)
  then have "\<exists>st'. destroy sample_proxy_env 7 ?st = Some (Ok (), st')"
    by (simp add: destroy_def) (simp add: sample_proxy_env_def)
  then obtain st' where d: "destroy sample_proxy_env 7 ?st = Some (Ok (), st')" by blast
  have "pw_this ?st = Some 7" by simp
  from signal_after_destroy [OF this d] d show ?thesis by blast
qed

text \<open>
  The root POA is asked for four times, with ten seconds between the attempts. When none of them succeeds, the
  configuration ends with \<open>InitError\<close> after half a minute, and nothing was published: no manager, no IOR, no file, no mapper.
\<close>

theorem configure_gives_up:
  assumes "\<not> throws env ORB_init" and "pw_proxies st self = Some p"
    and "get_orb_options os src (pw_config st) (pw_query st) = Ok (Some args, cfg, k)"
    and "\<forall>j < 4. \<not> resolve_root env j"
  shows "\<exists>st'. configure env os src d self st = Some (Fault (Thrown ''InitError''), st')
    \<and> pw_slept st' = pw_slept st + 30 \<and> pw_outside st' = pw_outside st \<and> pw_inside st' = pw_inside st
    \<and> pw_iors st' = pw_iors st \<and> pw_files st' = pw_files st \<and> pw_registry st' = pw_registry st"
proof -
  let ?st0 = "st\<lparr>pw_this := Some self\<rparr>"
  obtain st1 where 1: "start_orb env os src self ?st0 = Some (Ok (), st1)" "pw_slept st1 = pw_slept st"
    "pw_outside st1 = pw_outside st" "pw_inside st1 = pw_inside st" "pw_iors st1 = pw_iors st" "pw_files st1 = pw_files st"
    "pw_registry st1 = pw_registry st"
    using start_orb_ok [OF assms(1), where st = ?st0] assms(2,3) by simp
  have "\<not> (\<exists>j \<le> 3. resolve_root env (0 + j))" using assms(4) by auto
  then have 2: "find_services env st1 = Some (Fault (Thrown ''InitError''), st1\<lparr>pw_slept := pw_slept st1 + 30\<rparr>)"
    using resolve_again_run [of env 0 3 st1] by (auto simp: find_services_def)
  have "configure env os src d self st = Some (Fault (Thrown ''InitError''), st1\<lparr>pw_slept := pw_slept st1 + 30\<rparr>)"
    by (simp add: configure_def 1(1) 2)
  then show ?thesis using 1(2-7) by simp
qed

theorem configure_gives_up_witness:
  "\<exists>st'. configure (sample_proxy_env\<lparr>resolve_root := (\<lambda>k. False)\<rparr>) sample_env sample_src ''lorica.ior'' 7 sample_world
      = Some (Fault (Thrown ''InitError''), st') \<and> pw_slept st' = 30"
proof -
  let ?env = "sample_proxy_env\<lparr>resolve_root := (\<lambda>k. False)\<rparr>"
  have w: "pw_proxies sample_world 7 = Some (new_proxy False)" "\<not> throws ?env ORB_init" "\<forall>j < 4. \<not> resolve_root ?env j"
    "pw_slept sample_world = 0" "pw_config sample_world = fresh_config" "pw_query sample_world = 0"
    by (simp_all add: sample_world_def sample_proxy_env_def)
  have "endpoints_missing sample_env sample_src (fresh_config\<lparr>orb_args := a\<rparr>) 0
      = Ok (False, fresh_config\<lparr>orb_args := a, cfg_endpoints := [sample_ext] @ [sample_int]\<rparr>, 0)" for a
    using endpoints_present [OF _ sample_parse, of "fresh_config\<lparr>orb_args := a\<rparr>"] by (simp add: fresh_config_def)
  then obtain args cfg where "get_orb_options sample_env sample_src (pw_config sample_world) (pw_query sample_world) = Ok (Some args, cfg, 0)"
    by (simp add: w get_orb_options_def Let_def) (simp add: fresh_config_def Let_def)
  from configure_gives_up [OF w(2,1) this w(3), of "''lorica.ior''"] w(4) show ?thesis by auto
qed

end
