(* ===== verification/ConfigFlow.thy ===== *)
theory ConfigFlow
  imports Proxy
begin

text \<open>
  From the text of the configuration file to the endpoints of the POA managers: the file is read (\<open>FileConfig\<close>), the values of a token on several lines are joined,
  the addresses are split and parsed (\<open>ConfigBase\<close>, \<open>Endpoint\<close>), and the managers are created from them (\<open>Proxy\<close>).
\<close>

text \<open>An address is written down without a blank, so that splitting the joined addresses gives them back.\<close>

lemma split_join: "xs \<noteq> [] \<Longrightarrow> \<forall>x \<in> set xs. c \<notin> set x \<Longrightarrow> c = CHR '' '' \<Longrightarrow> split_on c (join_values xs) = xs"
  by (induction xs rule: join_values.induct) (auto simp: split_on_no_sep split_on_append)

lemma address_list_join: "xs \<noteq> [] \<Longrightarrow> \<forall>x \<in> set xs. CHR '' '' \<notin> set x \<and> x \<noteq> [] \<Longrightarrow> address_list (join_values xs) = xs"
  using split_join [of xs "CHR '' ''"] by (simp add: address_list_def takeWhile_eq_all_conv)

text \<open>Hosts that stand for themselves, and ports that the parser takes.\<close>

definition plain_address :: "string \<times> int \<Rightarrow> bool" where
  "plain_address a = (case a of (h, p) \<Rightarrow> h \<noteq> [] \<and> set h \<inter> {CHR ''/'', CHR '' '', CHR 0x00} = {} \<and> hd h \<notin> {CHR ''%'', CHR ''+'', CHR ''[''}
     \<and> 0 < p \<and> p \<le> 2147483647)"

definition plain_text :: "string \<times> int \<Rightarrow> string" where
  "plain_text a = address_text False (fst a) (snd a)"

definition plain_endpoint :: "bool \<Rightarrow> string \<times> int \<Rightarrow> endpoint" where
  "plain_endpoint ext a = new_endpoint\<lparr>ep_external := ext, ep_is_ipv6 := False, ep_ssl_port := 0, ep_port := snd a, ep_hostname := fst a\<rparr>"

lemma plain_text_chars:
  assumes "plain_address a"
  shows "plain_text a \<noteq> []" and "CHR '' '' \<notin> set (plain_text a)"
proof -
  have "0 < snd a" using assms by (simp add: plain_address_def split: prod.splits)
  then have "CHR '' '' \<notin> set (dec_text (snd a))" using dec_text_chars [of "snd a"] isdigit_neq by fastforce
  then show "plain_text a \<noteq> []" "CHR '' '' \<notin> set (plain_text a)"
    using assms by (auto simp: plain_text_def address_text_def plain_address_def split: prod.splits)
qed

lemma parse_plain:
  assumes "plain_address a"
  shows "parse_string env (new_endpoint\<lparr>ep_external := ext\<rparr>) (plain_text a) out k = Ok (True, plain_endpoint ext a, k)"
proof -
  obtain h p where a: "a = (h, p)" by (cases a)
  have "parse_string env (new_endpoint\<lparr>ep_external := ext\<rparr>) (address_text False h p) out k
    = Ok (True, new_endpoint\<lparr>ep_external := ext, ep_is_ipv6 := False, ep_ssl_port := 0, ep_port := p, ep_hostname := h\<rparr>, k)"
    by (rule parse_address_text) (use assms a in \<open>auto simp: plain_address_def hd_conv_nth\<close>)
  then show ?thesis using a by (simp add: plain_text_def plain_endpoint_def)
qed

lemma parse_all_plain:
  "\<forall>a \<in> set as. plain_address a \<Longrightarrow> parse_all env ext (map plain_text as) eps k = Ok (True, eps @ map (plain_endpoint ext) as, k)"
  by (induction as arbitrary: eps) (simp_all add: parse_plain)

lemma policy_plain: "plain_address a \<Longrightarrow> policy_endpoint (plain_endpoint ext a) = (fst a, word_of_int (snd a))"
  by (cases a) (auto simp: policy_endpoint_def plain_endpoint_def new_endpoint_def plain_address_def c_str_id)

lemma policy_all_plain:
  "\<forall>a \<in> set as. plain_address a \<Longrightarrow> map policy_endpoint (map (plain_endpoint ext) as) = map (\<lambda>(h, p). (h, word_of_int p)) as"
  by (induction as) (auto simp: policy_plain)

text \<open>One side: the lines of the file with the side's token, one address each.\<close>

lemma file_side:
  assumes "fname \<noteq> []" and "read_file (c_str fname) = Some content" and "CHR 0x00 \<notin> set content"
    and "inj_on hash (insert t (fst ` set (file_entries content)))" and "t = (if ext then ''External_Address'' else ''Internal_Address'')"
    and "values_of t (file_entries content) = map plain_text as" and "as \<noteq> []" and "\<forall>a \<in> set as. plain_address a"
  shows "parse_all env ext (address_list (endpoint_text env (file_source hash (snd (cfg_init hash read_file fname lvl cfg))) ext)) [] k
    = Ok (True, map (plain_endpoint ext) as, k)"
proof -
  have t: "CHR 0x00 \<notin> set t" using assms(5) by simp
  have "get_value hash (snd (cfg_init hash read_file fname lvl cfg)) t [] = join_values (map plain_text as)"
    using load_values [where fname = fname and read_file = read_file, OF assms(1-3) t assms(4), where lvl = lvl and cfg = cfg and d = "[]"]
      assms(6,7) by simp
  moreover have "join_values (map plain_text as) \<noteq> []"
    using assms(7,8) plain_text_chars(1) by (intro join_values_empty) force+
  ultimately have "endpoint_text env (file_source hash (snd (cfg_init hash read_file fname lvl cfg))) ext = join_values (map plain_text as)"
    using assms(5) by (cases ext) (simp_all add: endpoint_text_def file_source_def)
  moreover have "address_list (join_values (map plain_text as)) = map plain_text as"
    using assms(7,8) plain_text_chars by (intro address_list_join) auto
  ultimately show ?thesis using parse_all_plain [OF assms(8)] by simp
qed

text \<open>
  C14: The proxy listens where the configuration file says. When the lines \<open>External_Address\<close> and \<open>Internal_Address\<close> of the file, among any other lines and in any order, each
  have an address \<open>host:port\<close>, the configuration from that file gives the outside and the inside manager exactly these hosts and ports, in the order of the file; a
  port is taken modulo \<open>2^16\<close>.
\<close>

theorem file_to_listening:
  assumes "fname \<noteq> []" and "read_file (c_str fname) = Some content" and "CHR 0x00 \<notin> set content"
    and "inj_on hash ({''External_Address'', ''Internal_Address''} \<union> fst ` set (file_entries content))"
    and "values_of ''External_Address'' (file_entries content) = map plain_text exts"
    and "values_of ''Internal_Address'' (file_entries content) = map plain_text ints"
    and "exts \<noteq> []" and "ints \<noteq> []" and "\<forall>a \<in> set (exts @ ints). plain_address a"
    and "src = file_source hash (snd (cfg_init hash read_file fname lvl cfg))"
    and "good_env env" and "pw_proxies st self = Some p" and "orb_args (pw_config st) = []" and "cfg_endpoints (pw_config st) = []"
    and "writable env (c_str (cs_value src ''IOR_FILE'' d))"
    and "reg_ok others [] [] [] (pw_registry st)" and "\<not> mappers_ready (fst (pw_registry st))"
    and "null_addr env \<notin> others" and "gen_addr env \<notin> others"
  shows "\<exists>st'. configure env os src d self st = Some (Ok (), st')
    \<and> pw_outside st' = Some \<lparr>pm_endpoints = map (\<lambda>(h, p). (h, word_of_int p)) exts, pm_active = True\<rparr>
    \<and> pw_inside st' = Some \<lparr>pm_endpoints = map (\<lambda>(h, p). (h, word_of_int p)) ints, pm_active = True\<rparr>"
proof -
  have inj: "inj_on hash (insert t (fst ` set (file_entries content)))" if "t \<in> {''External_Address'', ''Internal_Address''}" for t
    using assms(4) by (rule inj_on_subset) (use that in auto)
  have e: "parse_all os True (address_list (endpoint_text os src True)) [] (pw_query st) = Ok (True, map (plain_endpoint True) exts, pw_query st)"
    unfolding assms(10) by (rule file_side [where fname = fname and read_file = read_file, OF assms(1-3) inj]) (use assms(5,7,9) in auto)
  have i: "parse_all os False (address_list (endpoint_text os src False)) [] (pw_query st) = Ok (True, map (plain_endpoint False) ints, pw_query st)"
    unfolding assms(10) by (rule file_side [where fname = fname and read_file = read_file, OF assms(1-3) inj]) (use assms(6,8,9) in auto)
  have ne: "map (plain_endpoint True) exts @ map (plain_endpoint False) ints \<noteq> []" using assms(7) by simp
  from configure_ok [OF assms(11-14) e i ne assms(15-19)] obtain st' where "configure env os src d self st = Some (Ok (), st')"
    "pw_outside st' = Some \<lparr>pm_endpoints = map policy_endpoint (map (plain_endpoint True) exts), pm_active = True\<rparr>"
    "pw_inside st' = Some \<lparr>pm_endpoints = map policy_endpoint (map (plain_endpoint False) ints), pm_active = True\<rparr>"
    by blast
  then show ?thesis using policy_all_plain [of exts True] policy_all_plain [of ints False] assms(9) by (simp del: map_map)
qed

definition sample_address_file :: string where
  "sample_address_file = ''External_Address fw.example:9901'' @ [CHR 0x0A] @ ''# inside'' @ [CHR 0x0A]
     @ ''Internal_Address 10.0.0.1:9902'' @ [CHR 0x0D, CHR 0x0A] @ ''External_Address fw2:70001'' @ [CHR 0x0A]"

lemma sample_address_entries: "file_entries sample_address_file
  = [(''External_Address'', ''fw.example:9901''), (''Internal_Address'', ''10.0.0.1:9902''), (''External_Address'', ''fw2:70001'')]"
  by code_simp

theorem file_to_listening_witness:
  "\<exists>st'. configure sample_proxy_env sample_env
       (file_source sample_hash (snd (cfg_init sample_hash (\<lambda>_. Some sample_address_file) ''lorica.conf'' 0 new_file_config))) ''lorica.ior'' 7 sample_world
     = Some (Ok (), st')
    \<and> pw_outside st' = Some \<lparr>pm_endpoints = [(''fw.example'', 9901), (''fw2'', 4465)], pm_active = True\<rparr>
    \<and> pw_inside st' = Some \<lparr>pm_endpoints = [(''10.0.0.1'', 9902)], pm_active = True\<rparr>"
proof -
  let ?src = "file_source sample_hash (snd (cfg_init sample_hash (\<lambda>_. Some sample_address_file) ''lorica.conf'' 0 new_file_config))"
  let ?exts = "[(''fw.example'', 9901), (''fw2'', 70001)]" and ?ints = "[(''10.0.0.1'', 9902)]"
  have f: "''lorica.conf'' \<noteq> []" "CHR 0x00 \<notin> set sample_address_file" by code_simp+
  have inj: "inj_on sample_hash ({''External_Address'', ''Internal_Address''} \<union> fst ` set (file_entries sample_address_file))"
    by (simp add: sample_address_entries inj_on_def sample_hash_def)
  have v: "values_of ''External_Address'' (file_entries sample_address_file) = map plain_text ?exts"
    "values_of ''Internal_Address'' (file_entries sample_address_file) = map plain_text ?ints"
    by (simp_all add: sample_address_entries values_of_def plain_text_def address_text_def dec_text_def nat_text.simps char_of_def bit_Suc_0_iff)
  have a: "?exts \<noteq> []" "?ints \<noteq> []" "\<forall>a \<in> set (?exts @ ?ints). plain_address a" by (simp_all add: plain_address_def)
  have st: "pw_proxies sample_world 7 = Some (new_proxy False)" "orb_args (pw_config sample_world) = []"
    "cfg_endpoints (pw_config sample_world) = []"
    "reg_ok {} [] [] [] (pw_registry sample_world)" "\<not> mappers_ready (fst (pw_registry sample_world))"
    by (simp_all add: sample_world_def fresh_config_def reg_ok_def new_registry_def reg_init_def)
  have w: "writable sample_proxy_env (c_str (cs_value ?src ''IOR_FILE'' ''lorica.ior''))" 
  proof -
    have "inj_on sample_hash (insert ''IOR_FILE'' (fst ` set (file_entries sample_address_file)))"
      by (simp add: sample_address_entries inj_on_def sample_hash_def)
    from load_values [where read_file = "\<lambda>_. Some sample_address_file", OF f(1) refl f(2) _ this, where d = "''lorica.ior''"]
    show ?thesis by (simp add: file_source_def sample_proxy_env_def sample_address_entries values_of_def c_str_def)
  qed
  have port: "(70001 :: 16 word) = 4465" by simp
  from file_to_listening [where read_file = "\<lambda>_. Some sample_address_file", OF f(1) refl f(2) inj v a refl sample_good_env st(1-3) w st(4,5), where os = sample_env]
  show ?thesis by (simp add: port)
qed

end
