(* ===== verification/OperationTable.thy ===== *)
theory OperationTable
  imports Cpp_String
begin

text \<open>
  The table of operations and their argument lists (src/src/OCI/OperationTable.h and
  OperationTable.cpp). For an operation name and the repository id of an interface it gives the
  types and modes of the arguments, the result and the exceptions, as the interface repository
  described them.

  Operations hang in a binary tree ordered by \<open>strcmp\<close>; each holds a list of \<open>OpArgs\<close>, the pairs
  of a repository id and a counted \<open>ArgList\<close>. The tree owns its nodes, so it is a datatype;
  the argument lists are shared and live in a heap. The type codes are opaque (\<open>'t\<close>), their
  repository id and the constants \<open>_tc_void\<close>, \<open>_tc_boolean\<close> and \<open>_tc_string\<close> are arguments. The
  comparison \<open>strcmp\<close> is an argument as well: C fixes only the sign of its result, and the code
  asks whether it is 1.

  The locale \<open>string_order\<close> states what the code may assume of \<open>strcmp\<close>, and in it the lookup in
  the tree is shown to be the lookup in a map, whatever shape the tree takes.
\<close>

datatype arg_mode = NO_MODE | ARG_IN | ARG_OUT | ARG_INOUT

record 't arg =
  tc :: "'t option"
  arg_mode :: arg_mode
  arg_must_proxy :: int

record 't arg_list =
  must_proxy_in :: int
  must_proxy_out :: int
  al_result :: "'t arg"
  al_args :: "'t arg list"
  al_exceptions :: "'t arg list"
  al_oneway :: bool
  al_refcount :: int

record 't tc_consts =
  tc_void :: 't
  tc_boolean :: 't
  tc_string :: 't

subsection \<open>Arg and ArgList\<close>

definition new_arg :: "'t arg" where
  "new_arg = \<lparr>tc = None, arg_mode = NO_MODE, arg_must_proxy = -1\<rparr>"

definition arg_init :: "'t option \<Rightarrow> arg_mode \<Rightarrow> 't arg \<Rightarrow> 't arg" where
  "arg_init t m a = a\<lparr>tc := t, arg_mode := m, arg_must_proxy := -1\<rparr>"

definition empty_arg_list :: "'t arg_list" where
  "empty_arg_list = \<lparr>must_proxy_in = -1, must_proxy_out = -1, al_result = new_arg, al_args = [],
     al_exceptions = [], al_oneway = False, al_refcount = 1\<rparr>"

definition al_init :: "nat \<Rightarrow> nat \<Rightarrow> bool \<Rightarrow> 't arg_list \<Rightarrow> 't arg_list" where
  "al_init argc excepc oneway al = al\<lparr>al_args := replicate argc new_arg,
     al_exceptions := replicate excepc new_arg, al_oneway := oneway\<rparr>"

definition new_arg_list :: "nat \<Rightarrow> nat \<Rightarrow> bool \<Rightarrow> 't arg_list" where
  "new_arg_list argc excepc oneway = al_init argc excepc oneway empty_arg_list"

text \<open>
  \<open>prepare_request\<close>: the flag, the type of the result (untouched for a oneway operation) and the
  values the argument list of a request receives.
\<close>

definition prepare_request ::
    "'t arg_list \<Rightarrow> 't option \<Rightarrow> ('t option \<times> arg_mode) list \<Rightarrow>
     bool \<times> 't option \<times> ('t option \<times> arg_mode) list" where
  "prepare_request al result_tc nvlist =
     (al_oneway al, if al_oneway al then result_tc else tc (al_result al),
      nvlist @ map (\<lambda>a. (tc a, arg_mode a)) (al_args al))"

text \<open>\<open>find_exception\<close>: the position of the last exception with the id.\<close>

fun find_exception_loop ::
    "('t \<Rightarrow> string) \<Rightarrow> string \<Rightarrow> 't arg list \<Rightarrow> nat \<Rightarrow> nat option \<Rightarrow> nat option result" where
  "find_exception_loop tc_id i [] k found = Ok found"
| "find_exception_loop tc_id i (e # es) k found =
     bindR (deref (tc e)) (\<lambda>t.
       find_exception_loop tc_id i es (k + 1) (if tc_id t = i then Some k else found))"

definition find_exception :: "('t \<Rightarrow> string) \<Rightarrow> 't arg_list \<Rightarrow> string \<Rightarrow> nat option result" where
  "find_exception tc_id al i = find_exception_loop tc_id i (al_exceptions al) 0 None"

definition get_must_proxy :: "arg_mode \<Rightarrow> 't arg_list \<Rightarrow> int" where
  "get_must_proxy m al = (if m = ARG_IN then must_proxy_in al else must_proxy_out al)"

definition set_must_proxy :: "arg_mode \<Rightarrow> int \<Rightarrow> 't arg_list \<Rightarrow> 't arg_list" where
  "set_must_proxy m p al =
     (if m = ARG_IN then al\<lparr>must_proxy_in := p\<rparr> else al\<lparr>must_proxy_out := p\<rparr>)"

definition set_result :: "'t option \<Rightarrow> 't arg_list \<Rightarrow> 't arg_list" where
  "set_result t al = al\<lparr>al_result := arg_init t NO_MODE (al_result al)\<rparr>"

definition set_arg :: "nat \<Rightarrow> 't option \<Rightarrow> arg_mode \<Rightarrow> 't arg_list \<Rightarrow> 't arg_list result" where
  "set_arg ndx t m al =
     (if ndx < length (al_args al)
      then Ok (al\<lparr>al_args := (al_args al)[ndx := arg_init t m (al_args al ! ndx)]\<rparr>)
      else Fault BadSubscript)"

definition set_excep :: "nat \<Rightarrow> 't option \<Rightarrow> 't arg_list \<Rightarrow> 't arg_list result" where
  "set_excep ndx t al =
     (if ndx < length (al_exceptions al)
      then Ok (al\<lparr>al_exceptions := (al_exceptions al)[ndx := arg_init t NO_MODE (al_exceptions al ! ndx)]\<rparr>)
      else Fault BadSubscript)"

subsection \<open>The tree of operations\<close>

text \<open>An \<open>Operation\<close> with its name, its \<open>OpArgs\<close> and its two subtrees; \<open>Nil_op\<close> is the null pointer.\<close>

datatype op_tree = Nil_op | Operation op_tree string "(string \<times> nat) list" op_tree

definition new_operation :: "string \<Rightarrow> op_tree" where
  "new_operation opname = Operation Nil_op opname [] Nil_op"

fun find_or_add :: "(string \<Rightarrow> string \<Rightarrow> int) \<Rightarrow> string \<Rightarrow> op_tree \<Rightarrow> op_tree" where
  "find_or_add strcmp opname Nil_op = new_operation opname"
| "find_or_add strcmp opname (Operation l name s r) =
     (let match = strcmp opname name in
      if match = 0 then Operation l name s r
      else if match = 1 then Operation l name s (find_or_add strcmp opname r)
      else Operation (find_or_add strcmp opname l) name s r)"

text \<open>\<open>add_set\<close> on the operation that \<open>find_or_add\<close> returned.\<close>

fun add_set :: "(string \<Rightarrow> string \<Rightarrow> int) \<Rightarrow> string \<Rightarrow> string \<times> nat \<Rightarrow> op_tree \<Rightarrow> op_tree" where
  "add_set strcmp opname oa Nil_op = Nil_op"
| "add_set strcmp opname oa (Operation l name s r) =
     (let match = strcmp opname name in
      if match = 0 then Operation l name (s @ [oa]) r
      else if match = 1 then Operation l name s (add_set strcmp opname oa r)
      else Operation (add_set strcmp opname oa l) name s r)"

text \<open>The \<open>OpArgs\<close> of the operation that the loop of \<open>find\<close> ends at.\<close>

fun find_op :: "(string \<Rightarrow> string \<Rightarrow> int) \<Rightarrow> string \<Rightarrow> op_tree \<Rightarrow> (string \<times> nat) list option" where
  "find_op strcmp opname Nil_op = None"
| "find_op strcmp opname (Operation l name s r) =
     (let match = strcmp opname name in
      if match = 0 then Some s
      else if match = 1 then find_op strcmp opname r
      else find_op strcmp opname l)"

text \<open>\<open>Operation::args\<close>, the first entry with the repository id.\<close>

fun op_args :: "string \<Rightarrow> (string \<times> nat) list \<Rightarrow> nat option" where
  "op_args rep_id [] = None"
| "op_args rep_id (oa # oas) = (if fst oa = rep_id then Some (snd oa) else op_args rep_id oas)"

subsection \<open>The table\<close>

text \<open>The heap of argument lists gives out addresses in turn.\<close>

record 't optab =
  head_op :: op_tree
  lists :: "nat \<rightharpoonup> 't arg_list"
  next_addr :: nat

definition al_at :: "'t optab \<Rightarrow> nat \<Rightarrow> 't arg_list result" where
  "al_at tab a = (case lists tab a of None \<Rightarrow> Fault UseAfterFree | Some al \<Rightarrow> Ok al)"

definition al_put :: "nat \<Rightarrow> 't arg_list \<Rightarrow> 't optab \<Rightarrow> 't optab" where
  "al_put a al tab = tab\<lparr>lists := (lists tab)(a \<mapsto> al)\<rparr>"

definition al_alloc :: "'t arg_list \<Rightarrow> 't optab \<Rightarrow> nat \<times> 't optab" where
  "al_alloc al tab = (next_addr tab,
     (al_put (next_addr tab) al tab)\<lparr>next_addr := next_addr tab + 1\<rparr>)"

definition add_ref :: "nat \<Rightarrow> 't optab \<Rightarrow> 't optab result" where
  "add_ref a tab = bindR (al_at tab a) (\<lambda>al. Ok (al_put a (al\<lparr>al_refcount := al_refcount al + 1\<rparr>) tab))"

definition remove_ref :: "nat \<Rightarrow> 't optab \<Rightarrow> 't optab result" where
  "remove_ref a tab = bindR (al_at tab a) (\<lambda>al.
     let r = al_refcount al - 1 in
     if r = 0 then Ok (tab\<lparr>lists := (lists tab)(a := None)\<rparr>)
     else Ok (al_put a (al\<lparr>al_refcount := r\<rparr>) tab))"

text \<open>\<open>op->add_set(new OpArgs(rep_id, arg_list))\<close>.\<close>

definition add_op_args ::
    "(string \<Rightarrow> string \<Rightarrow> int) \<Rightarrow> string \<Rightarrow> nat \<Rightarrow> string \<Rightarrow> 't optab \<Rightarrow> 't optab result" where
  "add_op_args strcmp opname a rep_id tab =
     bindR (add_ref a tab) (\<lambda>tab.
       Ok (tab\<lparr>head_op := add_set strcmp opname (rep_id, a) (head_op tab)\<rparr>))"

fun add_op_args_all ::
    "(string \<Rightarrow> string \<Rightarrow> int) \<Rightarrow> string \<Rightarrow> nat \<Rightarrow> string list \<Rightarrow> 't optab \<Rightarrow> 't optab result" where
  "add_op_args_all strcmp opname a [] tab = Ok tab"
| "add_op_args_all strcmp opname a (i # is) tab =
     bindR (add_op_args strcmp opname a i tab) (add_op_args_all strcmp opname a is)"

text \<open>\<open>OpArgs::args\<close> and \<open>Operation::arg_list\<close>: the argument list with a reference for the caller, or null.\<close>

definition opargs_args :: "nat \<Rightarrow> 't optab \<Rightarrow> (nat \<times> 't optab) result" where
  "opargs_args a tab = bindR (add_ref a tab) (\<lambda>tab. Ok (a, tab))"

definition operation_arg_list ::
    "string \<Rightarrow> (string \<times> nat) list \<Rightarrow> 't optab \<Rightarrow> (nat option \<times> 't optab) result" where
  "operation_arg_list rep_id s tab =
     (case op_args rep_id s of
        None \<Rightarrow> Ok (None, tab)
      | Some a \<Rightarrow> bindR (opargs_args a tab) (\<lambda>(al, tab). Ok (Some al, tab)))"

text \<open>\<open>find\<close>, which has the text of \<open>Operation::arg_list\<close> once more where the name matches.\<close>

definition find_args ::
    "(string \<Rightarrow> string \<Rightarrow> int) \<Rightarrow> string \<Rightarrow> string \<Rightarrow> 't optab \<Rightarrow> (nat option \<times> 't optab) result" where
  "find_args strcmp opname rep_id tab =
     (case find_op strcmp opname (head_op tab) of
        None \<Rightarrow> Ok (None, tab)
      | Some s \<Rightarrow> operation_arg_list rep_id s tab)"

lemmas find_args_simps = find_args_def operation_arg_list_def opargs_args_def

definition ensure_op :: "(string \<Rightarrow> string \<Rightarrow> int) \<Rightarrow> string \<Rightarrow> 't optab \<Rightarrow> 't optab" where
  "ensure_op strcmp opname tab = tab\<lparr>head_op := find_or_add strcmp opname (head_op tab)\<rparr>"

definition add_is_a ::
    "(string \<Rightarrow> string \<Rightarrow> int) \<Rightarrow> 't tc_consts \<Rightarrow> string \<Rightarrow> 't optab \<Rightarrow> (nat \<times> 't optab) result" where
  "add_is_a strcmp tcs rep_id tab =
     (let tab = ensure_op strcmp ''_is_a'' tab in
      bindR (set_arg 0 (Some (tc_string tcs)) ARG_IN
               (set_result (Some (tc_boolean tcs)) (new_arg_list 1 0 False))) (\<lambda>al.
      case al_alloc al tab of (a, tab) \<Rightarrow>
        bindR (add_op_args strcmp ''_is_a'' a rep_id tab) (\<lambda>tab. Ok (a, tab))))"

definition add_non_existent ::
    "(string \<Rightarrow> string \<Rightarrow> int) \<Rightarrow> 't tc_consts \<Rightarrow> string \<Rightarrow> 't optab \<Rightarrow> (nat \<times> 't optab) result" where
  "add_non_existent strcmp tcs rep_id tab =
     (let tab = ensure_op strcmp ''_non_existent'' tab in
      case al_alloc (set_result (Some (tc_boolean tcs)) (new_arg_list 0 0 False)) tab of (a, tab) \<Rightarrow>
        bindR (add_op_args strcmp ''_non_existent'' a rep_id tab) (\<lambda>tab. Ok (a, tab)))"

definition CORBA_OBJECT_ID :: string where
  "CORBA_OBJECT_ID = ''IDL:org.omg/CORBA/Object:1.0''"

definition empty_optab :: "'t optab" where
  "empty_optab = \<lparr>head_op = Nil_op, lists = (\<lambda>_. None), next_addr = 0\<rparr>"

definition new_optab :: "(string \<Rightarrow> string \<Rightarrow> int) \<Rightarrow> 't tc_consts \<Rightarrow> 't optab result" where
  "new_optab strcmp tcs =
     bindR (add_is_a strcmp tcs CORBA_OBJECT_ID empty_optab) (\<lambda>(al, tab).
     bindR (remove_ref al tab) (\<lambda>tab.
     bindR (add_non_existent strcmp tcs CORBA_OBJECT_ID tab) (\<lambda>(al, tab).
       remove_ref al tab)))"

subsection \<open>Adding an interface\<close>

text \<open>What the interface repository tells of an interface: its own attributes and operations.\<close>

datatype param_mode = PARAM_IN | PARAM_OUT | PARAM_INOUT

record 't attribute_def =
  at_name :: string
  at_type :: 't
  at_readonly :: bool

record 't operation_def =
  od_name :: string
  od_params :: "('t \<times> param_mode) list"
  od_exceptions :: "'t list"
  od_oneway :: bool
  od_result :: 't

record 't interface_def =
  if_id :: string
  if_attributes :: "'t attribute_def list"
  if_operations :: "'t operation_def list"

text \<open>The test for an attribute's operation skips two characters, one too many for \<open>_\<close> alone.\<close>

definition wants_attribute :: "string option \<Rightarrow> bool result" where
  "wants_attribute desired = (case desired of
       None \<Rightarrow> Ok False
     | Some d \<Rightarrow> if d = [] \<or> hd d \<noteq> CHR ''_'' then Ok False
         else if length d = 1 then Fault BadSubscript
         else Ok (take 3 (drop 2 d) = ''et_''))"

fun fill_args :: "nat \<Rightarrow> ('t \<times> param_mode) list \<Rightarrow> 't arg_list \<Rightarrow> 't arg_list result" where
  "fill_args p [] al = Ok al"
| "fill_args p ((t, m) # ps) al =
     (let mode = (if m = PARAM_OUT then ARG_OUT else if m = PARAM_INOUT then ARG_INOUT else ARG_IN) in
      bindR (set_arg p (Some t) mode al) (fill_args (p + 1) ps))"

fun fill_exceps :: "nat \<Rightarrow> 't list \<Rightarrow> 't arg_list \<Rightarrow> 't arg_list result" where
  "fill_exceps e [] al = Ok al"
| "fill_exceps e (t # ts) al = bindR (set_excep e (Some t) al) (fill_exceps (e + 1) ts)"

text \<open>The steps every new argument list goes through: allocated, kept as the result when it is the
  one that is wanted, entered under all the ids, and released.\<close>

definition register ::
    "(string \<Rightarrow> string \<Rightarrow> int) \<Rightarrow> string \<Rightarrow> 't arg_list \<Rightarrow> bool \<Rightarrow> string list \<Rightarrow>
     't optab \<times> nat option \<Rightarrow> ('t optab \<times> nat option) result" where
  "register strcmp opname al wanted ids st = (case st of (tab, res) \<Rightarrow>
     (case al_alloc al (ensure_op strcmp opname tab) of (a, tab) \<Rightarrow>
        bindR (if wanted then add_ref a tab else Ok tab) (\<lambda>tab.
        bindR (add_op_args_all strcmp opname a ids tab) (\<lambda>tab.
        bindR (remove_ref a tab) (\<lambda>tab.
          Ok (tab, if wanted then Some a else res))))))"

definition add_attribute ::
    "(string \<Rightarrow> string \<Rightarrow> int) \<Rightarrow> 't tc_consts \<Rightarrow> bool \<Rightarrow> string option \<Rightarrow> string list \<Rightarrow>
     't attribute_def \<Rightarrow> 't optab \<times> nat option \<Rightarrow> ('t optab \<times> nat option) result" where
  "add_attribute strcmp tcs want desired ids attr st =
     (let getter = ''_get_'' @ at_name attr; setter = getter[1 := CHR ''s''] in
      bindR (register strcmp getter (set_result (Some (at_type attr)) (new_arg_list 0 0 False))
               (want \<and> desired = Some getter) ids st) (\<lambda>st.
      if at_readonly attr then Ok st
      else bindR (set_arg 0 (Some (at_type attr)) ARG_IN (new_arg_list 1 0 False)) (\<lambda>al.
        register strcmp setter (set_result (Some (tc_void tcs)) al)
          (want \<and> desired = Some setter) ids st)))"

definition add_operation ::
    "(string \<Rightarrow> string \<Rightarrow> int) \<Rightarrow> bool \<Rightarrow> string option \<Rightarrow> string list \<Rightarrow>
     't operation_def \<Rightarrow> 't optab \<times> nat option \<Rightarrow> ('t optab \<times> nat option) result" where
  "add_operation strcmp want desired ids opd st =
     (let al = new_arg_list (length (od_params opd)) (length (od_exceptions opd)) (od_oneway opd);
          al = (if od_oneway opd then al else set_result (Some (od_result opd)) al) in
      bindR (fill_args 0 (od_params opd) al) (\<lambda>al.
      bindR (fill_exceps 0 (od_exceptions opd) al) (\<lambda>al.
        register strcmp (od_name opd) al (\<not> want \<and> desired = Some (od_name opd)) ids st)))"

fun each :: "('a \<Rightarrow> 's \<Rightarrow> 's result) \<Rightarrow> 'a list \<Rightarrow> 's \<Rightarrow> 's result" where
  "each f [] s = Ok s"
| "each f (x # xs) s = bindR (f x s) (each f xs)"

definition add_contents ::
    "(string \<Rightarrow> string \<Rightarrow> int) \<Rightarrow> 't tc_consts \<Rightarrow> bool \<Rightarrow> string option \<Rightarrow> string list \<Rightarrow>
     't interface_def \<Rightarrow> 't optab \<times> nat option \<Rightarrow> ('t optab \<times> nat option) result" where
  "add_contents strcmp tcs want desired ids def st =
     bindR (each (add_attribute strcmp tcs want desired ids) (if_attributes def) st)
       (each (add_operation strcmp want desired ids) (if_operations def))"

text \<open>The interface and then its bases; \<open>derived\<close> collects the ids of the interfaces passed.\<close>

fun add_levels ::
    "(string \<Rightarrow> string \<Rightarrow> int) \<Rightarrow> 't tc_consts \<Rightarrow> bool \<Rightarrow> string option \<Rightarrow> string list \<Rightarrow>
     't interface_def list \<Rightarrow> 't optab \<times> nat option \<Rightarrow> ('t optab \<times> nat option) result" where
  "add_levels strcmp tcs want desired derived [] st = Ok st"
| "add_levels strcmp tcs want desired derived (d # ds) st =
     bindR (add_contents strcmp tcs want desired (if_id d # derived) d st)
       (add_levels strcmp tcs want desired (derived @ [if_id d]) ds)"

definition keep_or_drop ::
    "bool \<Rightarrow> nat \<times> 't optab \<Rightarrow> nat option \<Rightarrow> ('t optab \<times> nat option) result" where
  "keep_or_drop keep at res = (case at of (al, tab) \<Rightarrow>
     if keep then Ok (tab, Some al) else bindR (remove_ref al tab) (\<lambda>tab. Ok (tab, res)))"

text \<open>
  \<open>add_interface\<close> of an interface whose description the repository has given (\<open>def\<close> and its direct \<open>bases\<close>); an exception of one of the repository's calls, which leaves
  the operation, is not a branch here.
\<close>

definition add_interface ::
    "(string \<Rightarrow> string \<Rightarrow> int) \<Rightarrow> 't tc_consts \<Rightarrow> 't interface_def \<Rightarrow> 't interface_def list \<Rightarrow>
     string option \<Rightarrow> 't optab \<Rightarrow> ('t optab \<times> nat option) result" where
  "add_interface strcmp tcs def bases desired tab =
     bindR (wants_attribute desired) (\<lambda>want.
     bindR (add_is_a strcmp tcs (if_id def) tab) (\<lambda>at.
     bindR (keep_or_drop (\<not> want \<and> desired = Some ''_is_a'') at None) (\<lambda>(tab, res).
     bindR (add_non_existent strcmp tcs (if_id def) tab) (\<lambda>at.
     bindR (keep_or_drop (\<not> want \<and> desired = Some ''_non_existent'') at res) (\<lambda>st.
       add_levels strcmp tcs want desired [] (def # bases) st)))))"

text \<open>
  The destructors. An \<open>OpArgs\<close> releases its argument list and deletes the next one; an \<open>Operation\<close> deletes
  its subtrees and then its own entries.
\<close>

fun opargs_dtor :: "(string \<times> nat) list \<Rightarrow> 't optab \<Rightarrow> 't optab result" where
  "opargs_dtor [] tab = Ok tab"
| "opargs_dtor ((i, a) # oas) tab = bindR (remove_ref a tab) (opargs_dtor oas)"

fun operation_dtor :: "op_tree \<Rightarrow> 't optab \<Rightarrow> 't optab result" where
  "operation_dtor Nil_op tab = Ok tab"
| "operation_dtor (Operation l name s r) tab =
     bindR (operation_dtor l tab) (\<lambda>tab. bindR (operation_dtor r tab) (opargs_dtor s))"

definition optab_dtor :: "'t optab \<Rightarrow> 't optab result" where
  "optab_dtor tab = operation_dtor (head_op tab) (tab\<lparr>head_op := Nil_op\<rparr>)"

text \<open>All entries of a tree, in the order in which they are destroyed.\<close>

fun op_entries :: "op_tree \<Rightarrow> (string \<times> nat) list" where
  "op_entries Nil_op = []"
| "op_entries (Operation l name s r) = op_entries l @ op_entries r @ s"

subsection \<open>The tree as a map\<close>

locale string_order =
  fixes cmp :: "string \<Rightarrow> string \<Rightarrow> int"
  assumes cmp_zero: "cmp a b = 0 \<longleftrightarrow> a = b"
begin

lemma find_after_add:
  "find_op cmp n (find_or_add cmp m t) =
     (if n = m \<and> find_op cmp m t = None then Some [] else find_op cmp n t)"
  by (induction t) (auto simp: new_operation_def Let_def cmp_zero)

lemma find_added: "find_op cmp m (find_or_add cmp m t) \<noteq> None"
  by (simp add: find_after_add)

lemma find_after_set:
  "find_op cmp n (add_set cmp m oa t) =
     (if n = m then map_option (\<lambda>s. s @ [oa]) (find_op cmp n t) else find_op cmp n t)"
  by (induction t) (auto simp: Let_def cmp_zero)

end

text \<open>A comparison that gives the sign: -1, 0 or 1, in the order of the character codes.\<close>

fun strcmp_sign :: "string \<Rightarrow> string \<Rightarrow> int" where
  "strcmp_sign [] [] = 0"
| "strcmp_sign (a # as) [] = 1"
| "strcmp_sign [] (b # bs) = -1"
| "strcmp_sign (a # as) (b # bs) =
     (if a = b then strcmp_sign as bs
      else if (of_char a :: nat) < of_char b then -1 else 1)"

interpretation sign: string_order strcmp_sign
proof
  show "strcmp_sign a b = 0 \<longleftrightarrow> a = b" for a b
    by (induction a b rule: strcmp_sign.induct) auto
qed

subsection \<open>What is entered in the table\<close>

text \<open>The entries of an operation, empty when there is no such operation.\<close>

definition entries :: "(string \<Rightarrow> string \<Rightarrow> int) \<Rightarrow> 't optab \<Rightarrow> string \<Rightarrow> (string \<times> nat) list" where
  "entries cmp tab n = (case find_op cmp n (head_op tab) of None \<Rightarrow> [] | Some s \<Rightarrow> s)"

text \<open>How often the table refers to an argument list.\<close>

definition refs_to :: "op_tree \<Rightarrow> nat \<Rightarrow> nat" where
  "refs_to t a = count_list (map snd (op_entries t)) a"

text \<open>Every argument list is counted once per entry and once per holder outside the table.\<close>

fun al_count_ok :: "nat \<Rightarrow> 't arg_list option \<Rightarrow> bool" where
  "al_count_ok n None = (n = 0)"
| "al_count_ok n (Some al) = (al_refcount al = int n \<and> 0 < n)"

definition optab_ok :: "(nat \<Rightarrow> nat) \<Rightarrow> 't optab \<Rightarrow> bool" where
  "optab_ok own tab \<longleftrightarrow>
     (\<forall>a. al_count_ok (own a + refs_to (head_op tab) a) (lists tab a))
     \<and> (\<forall>a. next_addr tab \<le> a \<longrightarrow> lists tab a = None)"

text \<open>The argument lists without their counts.\<close>

definition al_body :: "'t optab \<Rightarrow> nat \<Rightarrow> 't arg_list option" where
  "al_body tab a = map_option (\<lambda>al. al\<lparr>al_refcount := 0\<rparr>) (lists tab a)"

lemma optab_ok_live:
  "optab_ok own tab \<Longrightarrow> 0 < own a + refs_to (head_op tab) a \<longleftrightarrow> lists tab a \<noteq> None"
  unfolding optab_ok_def by (metis al_count_ok.simps less_numeral_extra(3) option.exhaust)

lemma optab_ok_Some:
  "optab_ok own tab \<Longrightarrow> lists tab a = Some al \<Longrightarrow>
   al_refcount al = int (own a + refs_to (head_op tab) a)"
  unfolding optab_ok_def by (metis al_count_ok.simps(2))

lemma add_ref_ok:
  assumes "optab_ok own tab" and "lists tab a \<noteq> None"
  shows "\<exists>tab'. add_ref a tab = Ok tab' \<and> optab_ok (own(a := own a + 1)) tab'
    \<and> head_op tab' = head_op tab \<and> al_body tab' = al_body tab \<and> next_addr tab' = next_addr tab"
proof -
  obtain al where al: "lists tab a = Some al" using assms(2) by blast
  let ?tab = "al_put a (al\<lparr>al_refcount := al_refcount al + 1\<rparr>) tab"
  have "optab_ok (own(a := own a + 1)) ?tab"
    using assms(1) optab_ok_Some [OF assms(1) al] al by (auto simp: optab_ok_def al_put_def)
  moreover have "al_body ?tab = al_body tab" using al by (auto simp: al_body_def al_put_def)
  ultimately show ?thesis using al by (simp add: add_ref_def al_at_def al_put_def)
qed

lemma remove_ref_ok:
  assumes "optab_ok own tab" and "0 < own a"
  shows "\<exists>tab'. remove_ref a tab = Ok tab' \<and> optab_ok (own(a := own a - 1)) tab'
    \<and> head_op tab' = head_op tab \<and> next_addr tab' = next_addr tab
    \<and> (\<forall>b. al_body tab' b = (if lists tab' b = None then None else al_body tab b))
    \<and> (\<forall>b. b \<noteq> a \<longrightarrow> lists tab' b = lists tab b)"
proof -
  obtain al where al: "lists tab a = Some al" using optab_ok_live [OF assms(1), of a] assms(2) by auto
  note rc = optab_ok_Some [OF assms(1) al]
  show ?thesis
  proof (cases "al_refcount al = 1")
    case True
    let ?tab = "tab\<lparr>lists := (lists tab)(a := None)\<rparr>"
    have "optab_ok (own(a := own a - 1)) ?tab"
      using assms rc True by (auto simp: optab_ok_def)
    then show ?thesis using al True by (auto simp: remove_ref_def al_at_def al_body_def)
  next
    case False
    let ?tab = "al_put a (al\<lparr>al_refcount := al_refcount al - 1\<rparr>) tab"
    have "optab_ok (own(a := own a - 1)) ?tab"
      using assms rc False al by (auto simp: optab_ok_def al_put_def)
    moreover have "al_body ?tab b = (if lists ?tab b = None then None else al_body tab b)" for b
      using al by (auto simp: al_body_def al_put_def)
    moreover have "\<forall>b. b \<noteq> a \<longrightarrow> lists ?tab b = lists tab b" by (simp add: al_put_def)
    moreover have "remove_ref a tab = Ok ?tab" using al False by (simp add: remove_ref_def al_at_def)
    moreover have "head_op ?tab = head_op tab" "next_addr ?tab = next_addr tab"
      by (simp_all add: al_put_def)
    ultimately show ?thesis by blast
  qed
qed

lemma al_body_head [simp]: "al_body (tab\<lparr>head_op := t\<rparr>) = al_body tab"
  by (simp add: al_body_def fun_eq_iff)

lemma refs_to_find_or_add [simp]: "refs_to (find_or_add cmp m t) a = refs_to t a"
  by (induction t) (auto simp: refs_to_def new_operation_def Let_def)

lemma refs_to_add_set:
  "refs_to (add_set cmp m (i, a) t) b =
     refs_to t b + (if b = a \<and> find_op cmp m t \<noteq> None then 1 else 0)"
  by (induction t) (auto simp: refs_to_def Let_def)

lemma refs_to_pos:
  "find_op cmp n t = Some s \<Longrightarrow> (i, a) \<in> set s \<Longrightarrow> 0 < refs_to t a"
proof (induction t)
  case (Operation l name s' r)
  then show ?case
    by (cases "cmp n name = 0"; cases "cmp n name = 1")
       (force simp: refs_to_def Let_def count_list_0_iff)+
qed simp

context string_order
begin

lemma ensure_op_ok:
  "optab_ok own tab \<Longrightarrow> optab_ok own (ensure_op cmp m tab)"
  "entries cmp (ensure_op cmp m tab) n = entries cmp tab n"
  "find_op cmp m (head_op (ensure_op cmp m tab)) \<noteq> None"
  "al_body (ensure_op cmp m tab) = al_body tab" "next_addr (ensure_op cmp m tab) = next_addr tab"
  by (auto simp: ensure_op_def optab_ok_def entries_def find_after_add al_body_def split: option.split)

lemma add_op_args_ok:
  assumes "optab_ok own tab" and "lists tab a \<noteq> None" and "find_op cmp m (head_op tab) \<noteq> None"
  shows "\<exists>tab'. add_op_args cmp m a i tab = Ok tab' \<and> optab_ok own tab'
    \<and> (\<forall>n. entries cmp tab' n = entries cmp tab n @ (if n = m then [(i, a)] else []))
    \<and> find_op cmp m (head_op tab') \<noteq> None \<and> lists tab' a \<noteq> None
    \<and> al_body tab' = al_body tab \<and> next_addr tab' = next_addr tab"
proof -
  obtain tab1 where t1: "add_ref a tab = Ok tab1" "optab_ok (own(a := own a + 1)) tab1"
    "head_op tab1 = head_op tab" "al_body tab1 = al_body tab" "next_addr tab1 = next_addr tab"
    using add_ref_ok [OF assms(1,2)] by blast
  let ?tab = "tab1\<lparr>head_op := add_set cmp m (i, a) (head_op tab)\<rparr>"
  have "own b + refs_to (head_op ?tab) b = (own(a := own a + 1)) b + refs_to (head_op tab1) b" for b
    using assms(3) t1(3) by (simp add: refs_to_add_set)
  with t1(2) have "optab_ok own ?tab" by (simp add: optab_ok_def)
  moreover have "entries cmp ?tab n = entries cmp tab n @ (if n = m then [(i, a)] else [])" for n
    using assms(3) by (auto simp: entries_def find_after_set split: option.split)
  moreover have "lists tab1 a \<noteq> None" using optab_ok_live [OF t1(2), of a] by simp
  ultimately show ?thesis
    using t1 assms(3) by (auto simp: add_op_args_def find_after_set)
qed

lemma add_op_args_all_ok:
  assumes "optab_ok own tab" and "lists tab a \<noteq> None" and "find_op cmp m (head_op tab) \<noteq> None"
  shows "\<exists>tab'. add_op_args_all cmp m a is tab = Ok tab' \<and> optab_ok own tab'
    \<and> (\<forall>n. entries cmp tab' n = entries cmp tab n @ (if n = m then map (\<lambda>i. (i, a)) is else []))
    \<and> al_body tab' = al_body tab \<and> next_addr tab' = next_addr tab"
  using assms
proof (induction "is" arbitrary: tab)
  case (Cons i "is")
  obtain tab1 where t1: "add_op_args cmp m a i tab = Ok tab1" "optab_ok own tab1"
    "\<forall>n. entries cmp tab1 n = entries cmp tab n @ (if n = m then [(i, a)] else [])"
    "find_op cmp m (head_op tab1) \<noteq> None" "lists tab1 a \<noteq> None"
    "al_body tab1 = al_body tab" "next_addr tab1 = next_addr tab"
    using add_op_args_ok [OF Cons.prems] by blast
  from Cons.IH [OF t1(2,5,4)] t1(1,3,6,7) show ?case by auto
qed simp

end

text \<open>What is entered for one argument list: the operation's name, the list, whether it is the one
  that is wanted, and the ids it is entered under.\<close>

record 't registration =
  rg_name :: string
  rg_list :: "'t arg_list"
  rg_wanted :: bool
  rg_ids :: "string list"

definition do_register ::
    "(string \<Rightarrow> string \<Rightarrow> int) \<Rightarrow> 't registration \<Rightarrow> 't optab \<times> nat option \<Rightarrow>
     ('t optab \<times> nat option) result" where
  "do_register cmp g = register cmp (rg_name g) (rg_list g) (rg_wanted g) (rg_ids g)"

definition registration_ok :: "'t registration \<Rightarrow> bool" where
  "registration_ok g \<longleftrightarrow> al_refcount (rg_list g) = 1 \<and> rg_ids g \<noteq> []"

fun new_entries :: "'t registration list \<Rightarrow> nat \<Rightarrow> string \<Rightarrow> (string \<times> nat) list" where
  "new_entries [] a n = []"
| "new_entries (g # gs) a n =
     (if n = rg_name g then map (\<lambda>i. (i, a)) (rg_ids g) else []) @ new_entries gs (a + 1) n"

fun new_holders :: "'t registration list \<Rightarrow> nat \<Rightarrow> (nat \<Rightarrow> nat) \<Rightarrow> nat \<Rightarrow> nat" where
  "new_holders [] a own = own"
| "new_holders (g # gs) a own = new_holders gs (a + 1) (if rg_wanted g then own(a := own a + 1) else own)"

fun wanted_list :: "'t registration list \<Rightarrow> nat \<Rightarrow> nat option \<Rightarrow> nat option" where
  "wanted_list [] a res = res"
| "wanted_list (g # gs) a res = wanted_list gs (a + 1) (if rg_wanted g then Some a else res)"

definition new_bodies :: "'t registration list \<Rightarrow> nat \<Rightarrow> nat \<Rightarrow> 't arg_list option" where
  "new_bodies gs a b =
     (if a \<le> b \<and> b < a + length gs then Some ((rg_list (gs ! (b - a)))\<lparr>al_refcount := 0\<rparr>) else None)"

lemma al_alloc_ok:
  assumes "optab_ok own tab" and "al_refcount al = 1" and "al_alloc al tab = (a, tab')"
  shows "a = next_addr tab" and "own a + refs_to (head_op tab) a = 0" and "optab_ok (own(a := 1)) tab'"
    and "lists tab' a \<noteq> None" and "head_op tab' = head_op tab" and "next_addr tab' = next_addr tab + 1"
    and "al_body tab' = (al_body tab)(a \<mapsto> al\<lparr>al_refcount := 0\<rparr>)"
proof -
  show a: "a = next_addr tab" using assms(3) by (simp add: al_alloc_def)
  have none: "lists tab a = None" using assms(1) a by (simp add: optab_ok_def)
  then show z: "own a + refs_to (head_op tab) a = 0"
    using optab_ok_live [OF assms(1), of a] by simp
  have tab': "tab' = (al_put a al tab)\<lparr>next_addr := a + 1\<rparr>" using assms(3) a by (auto simp: al_alloc_def)
  show "optab_ok (own(a := 1)) tab'"
    using assms(1,2) z a unfolding tab' by (auto simp: optab_ok_def al_put_def)
  show "lists tab' a \<noteq> None" "head_op tab' = head_op tab" "next_addr tab' = next_addr tab + 1"
    "al_body tab' = (al_body tab)(a \<mapsto> al\<lparr>al_refcount := 0\<rparr>)"
    unfolding tab' using a by (auto simp: al_put_def al_body_def)
qed

context string_order
begin

lemma register_ok:
  assumes "optab_ok own tab" and "registration_ok g" and "a = next_addr tab"
  shows "\<exists>tab'. do_register cmp g (tab, res) = Ok (tab', if rg_wanted g then Some a else res)
    \<and> optab_ok (if rg_wanted g then own(a := own a + 1) else own) tab'
    \<and> (\<forall>n. entries cmp tab' n = entries cmp tab n @ (if n = rg_name g then map (\<lambda>i. (i, a)) (rg_ids g) else []))
    \<and> (\<forall>b. al_body tab' b = (if b = a then Some ((rg_list g)\<lparr>al_refcount := 0\<rparr>) else al_body tab b))
    \<and> next_addr tab' = a + 1"
proof -
  let ?tab = "ensure_op cmp (rg_name g) tab"
  note e = ensure_op_ok [where m = "rg_name g" and tab = tab]
  obtain tab1 where al: "al_alloc (rg_list g) ?tab = (a, tab1)"
    using assms(3) by (simp add: al_alloc_def ensure_op_def)
  have rc: "al_refcount (rg_list g) = 1" and ids: "rg_ids g \<noteq> []"
    using assms(2) by (simp_all add: registration_ok_def)
  note t1 = al_alloc_ok [OF e(1) [OF assms(1)] rc al]
  let ?k = "if rg_wanted g then 1 else 0 :: nat"
  obtain tab2 where t2: "(if rg_wanted g then add_ref a tab1 else Ok tab1) = Ok tab2"
    "optab_ok (own(a := 1 + ?k)) tab2" "head_op tab2 = head_op tab1" "al_body tab2 = al_body tab1"
    "next_addr tab2 = next_addr tab1"
    using add_ref_ok [OF t1(3,4)] t1(3) by (cases "rg_wanted g") auto
  have l2: "lists tab2 a \<noteq> None" using optab_ok_live [OF t2(2), of a] by simp
  have f2: "find_op cmp (rg_name g) (head_op tab2) \<noteq> None" using t2(3) t1(5) e(3) by simp
  obtain tab3 where t3: "add_op_args_all cmp (rg_name g) a (rg_ids g) tab2 = Ok tab3"
    "optab_ok (own(a := 1 + ?k)) tab3"
    "\<forall>n. entries cmp tab3 n = entries cmp tab2 n @ (if n = rg_name g then map (\<lambda>i. (i, a)) (rg_ids g) else [])"
    "al_body tab3 = al_body tab2" "next_addr tab3 = next_addr tab2"
    using add_op_args_all_ok [OF t2(2) l2 f2] by blast
  obtain tab4 where t4: "remove_ref a tab3 = Ok tab4"
    "optab_ok ((own(a := 1 + ?k))(a := (own(a := 1 + ?k)) a - 1)) tab4" "head_op tab4 = head_op tab3"
    "next_addr tab4 = next_addr tab3"
    "\<forall>b. al_body tab4 b = (if lists tab4 b = None then None else al_body tab3 b)"
    "\<forall>b. b \<noteq> a \<longrightarrow> lists tab4 b = lists tab3 b"
    using remove_ref_ok [OF t3(2), of a] by auto
  have own: "(own(a := 1 + ?k))(a := (own(a := 1 + ?k)) a - 1)
      = (if rg_wanted g then own(a := own a + 1) else own)"
    using t1(2) by (auto simp: fun_eq_iff)
  have ent: "entries cmp tab4 n = entries cmp tab n @ (if n = rg_name g then map (\<lambda>i. (i, a)) (rg_ids g) else [])" for n
  proof -
    have "entries cmp tab4 n = entries cmp tab3 n" using t4(3) by (simp add: entries_def)
    also have "\<dots> = entries cmp tab2 n @ (if n = rg_name g then map (\<lambda>i. (i, a)) (rg_ids g) else [])"
      using t3(3) by simp
    also have "entries cmp tab2 n = entries cmp tab n"
      using t2(3) t1(5) e(2) [of n] by (simp add: entries_def)
    finally show ?thesis .
  qed
  have "(hd (rg_ids g), a) \<in> set (entries cmp tab4 (rg_name g))" using ent ids by simp
  then obtain s where "find_op cmp (rg_name g) (head_op tab4) = Some s" "(hd (rg_ids g), a) \<in> set s"
    by (cases "find_op cmp (rg_name g) (head_op tab4)") (auto simp: entries_def)
  then have la: "lists tab4 a \<noteq> None"
    using refs_to_pos optab_ok_live [OF t4(2), of a] by fastforce
  have body: "al_body tab4 b = (if b = a then Some ((rg_list g)\<lparr>al_refcount := 0\<rparr>) else al_body tab b)" for b
  proof (cases "b = a")
    case True
    then show ?thesis using t4(5) la t3(4) t2(4) t1(7) by simp
  next
    case False
    then have "al_body tab4 b = al_body tab3 b" using t4(6) by (simp add: al_body_def)
    with False show ?thesis using t3(4) t2(4) t1(7) e(4) by simp
  qed
  have run: "do_register cmp g (tab, res) = Ok (tab4, if rg_wanted g then Some a else res)"
    using al t2(1) t3(1) t4(1) by (simp add: do_register_def register_def)
  have "next_addr tab4 = a + 1" using t4(4) t3(5) t2(5) t1(6) t1(1) by simp
  then show ?thesis
    using run t4(2) [unfolded own] ent body by (intro exI [of _ tab4] conjI allI)
qed

lemma each_register_ok:
  assumes "optab_ok own tab" and "\<forall>g \<in> set gs. registration_ok g"
  shows "\<exists>tab'. each (do_register cmp) gs (tab, res) = Ok (tab', wanted_list gs (next_addr tab) res)
    \<and> optab_ok (new_holders gs (next_addr tab) own) tab'
    \<and> (\<forall>n. entries cmp tab' n = entries cmp tab n @ new_entries gs (next_addr tab) n)
    \<and> (\<forall>b. al_body tab' b = (if next_addr tab \<le> b \<and> b < next_addr tab + length gs
         then new_bodies gs (next_addr tab) b else al_body tab b))
    \<and> next_addr tab' = next_addr tab + length gs"
  using assms
proof (induction gs arbitrary: tab res own)
  case (Cons g gs)
  let ?a = "next_addr tab"
  obtain tab1 where t1: "do_register cmp g (tab, res) = Ok (tab1, if rg_wanted g then Some ?a else res)"
    "optab_ok (if rg_wanted g then own(?a := own ?a + 1) else own) tab1"
    "\<forall>n. entries cmp tab1 n = entries cmp tab n @ (if n = rg_name g then map (\<lambda>i. (i, ?a)) (rg_ids g) else [])"
    "\<forall>b. al_body tab1 b = (if b = ?a then Some ((rg_list g)\<lparr>al_refcount := 0\<rparr>) else al_body tab b)"
    "next_addr tab1 = ?a + 1"
    using register_ok [OF Cons.prems(1), of g ?a res] Cons.prems(2) by auto
  obtain tab' where t': "each (do_register cmp) gs (tab1, if rg_wanted g then Some ?a else res)
      = Ok (tab', wanted_list gs (?a + 1) (if rg_wanted g then Some ?a else res))"
    "optab_ok (new_holders gs (?a + 1) (if rg_wanted g then own(?a := own ?a + 1) else own)) tab'"
    "\<forall>n. entries cmp tab' n = entries cmp tab1 n @ new_entries gs (?a + 1) n"
    "\<forall>b. al_body tab' b = (if ?a + 1 \<le> b \<and> b < ?a + 1 + length gs
       then new_bodies gs (?a + 1) b else al_body tab1 b)"
    "next_addr tab' = ?a + 1 + length gs"
    using Cons.IH [OF t1(2), of "if rg_wanted g then Some ?a else res"] Cons.prems(2) t1(5) by auto
  have "al_body tab' b = (if ?a \<le> b \<and> b < ?a + length (g # gs) then new_bodies (g # gs) ?a b else al_body tab b)" for b
    using t'(4) t1(4) by (auto simp: new_bodies_def nth_Cons' Suc_diff_le not_less_eq_eq)
  with t1 t' show ?case by auto
qed (auto simp: new_bodies_def)

end

subsection \<open>Adding an interface as a list of registrations\<close>

definition no_arg_list :: "'t \<Rightarrow> 't arg_list" where
  "no_arg_list res = set_result (Some res) (new_arg_list 0 0 False)"

definition one_arg_list :: "'t \<Rightarrow> 't \<Rightarrow> 't arg_list" where
  "one_arg_list t res = empty_arg_list\<lparr>al_args := [arg_init (Some t) ARG_IN new_arg],
     al_result := arg_init (Some res) NO_MODE new_arg\<rparr>"

fun arg_of_param :: "'t \<times> param_mode \<Rightarrow> 't arg" where
  "arg_of_param (t, PARAM_IN) = arg_init (Some t) ARG_IN new_arg"
| "arg_of_param (t, PARAM_OUT) = arg_init (Some t) ARG_OUT new_arg"
| "arg_of_param (t, PARAM_INOUT) = arg_init (Some t) ARG_INOUT new_arg"

definition operation_list :: "'t operation_def \<Rightarrow> 't arg_list" where
  "operation_list opd = empty_arg_list\<lparr>
     al_result := (if od_oneway opd then new_arg else arg_init (Some (od_result opd)) NO_MODE new_arg),
     al_args := map arg_of_param (od_params opd),
     al_exceptions := map (\<lambda>t. arg_init (Some t) NO_MODE new_arg) (od_exceptions opd),
     al_oneway := od_oneway opd\<rparr>"

definition attribute_regs ::
    "'t tc_consts \<Rightarrow> bool \<Rightarrow> string option \<Rightarrow> string list \<Rightarrow> 't attribute_def \<Rightarrow> 't registration list" where
  "attribute_regs tcs want desired ids attr =
     \<lparr>rg_name = ''_get_'' @ at_name attr, rg_list = no_arg_list (at_type attr),
      rg_wanted = (want \<and> desired = Some (''_get_'' @ at_name attr)), rg_ids = ids\<rparr> #
     (if at_readonly attr then [] else
      [\<lparr>rg_name = ''_set_'' @ at_name attr, rg_list = one_arg_list (at_type attr) (tc_void tcs),
        rg_wanted = (want \<and> desired = Some (''_set_'' @ at_name attr)), rg_ids = ids\<rparr>])"

definition operation_reg ::
    "bool \<Rightarrow> string option \<Rightarrow> string list \<Rightarrow> 't operation_def \<Rightarrow> 't registration" where
  "operation_reg want desired ids opd =
     \<lparr>rg_name = od_name opd, rg_list = operation_list opd,
      rg_wanted = (\<not> want \<and> desired = Some (od_name opd)), rg_ids = ids\<rparr>"

definition content_regs ::
    "'t tc_consts \<Rightarrow> bool \<Rightarrow> string option \<Rightarrow> string list \<Rightarrow> 't interface_def \<Rightarrow> 't registration list" where
  "content_regs tcs want desired ids def =
     concat (map (attribute_regs tcs want desired ids) (if_attributes def))
     @ map (operation_reg want desired ids) (if_operations def)"

fun level_regs ::
    "'t tc_consts \<Rightarrow> bool \<Rightarrow> string option \<Rightarrow> string list \<Rightarrow> 't interface_def list \<Rightarrow> 't registration list" where
  "level_regs tcs want desired derived [] = []"
| "level_regs tcs want desired derived (d # ds) =
     content_regs tcs want desired (if_id d # derived) d
     @ level_regs tcs want desired (derived @ [if_id d]) ds"

definition interface_regs ::
    "'t tc_consts \<Rightarrow> bool \<Rightarrow> string option \<Rightarrow> 't interface_def \<Rightarrow> 't interface_def list \<Rightarrow> 't registration list" where
  "interface_regs tcs want desired def bases =
     \<lparr>rg_name = ''_is_a'', rg_list = one_arg_list (tc_string tcs) (tc_boolean tcs),
      rg_wanted = (\<not> want \<and> desired = Some ''_is_a''), rg_ids = [if_id def]\<rparr> #
     \<lparr>rg_name = ''_non_existent'', rg_list = no_arg_list (tc_boolean tcs),
      rg_wanted = (\<not> want \<and> desired = Some ''_non_existent''), rg_ids = [if_id def]\<rparr> #
     level_regs tcs want desired [] (def # bases)"

lemma each_append: "each f (xs @ ys) s = bindR (each f xs s) (each f ys)"
  by (induction xs arbitrary: s) (auto simp: bindR_assoc cong: bindR_cong)

lemma each_cong [fundef_cong]:
  "(\<And>x s. x \<in> set xs \<Longrightarrow> f x s = g x s) \<Longrightarrow> each f xs s = each g xs s"
  by (induction xs arbitrary: s) (auto cong: bindR_cong)

lemma each_Nil [simp]: "each f [] = Ok"
  by (simp add: fun_eq_iff)

lemma each_concat: "each f (concat xss) s = each (each f) xss s"
  by (induction xss arbitrary: s) (auto simp: each_append cong: bindR_cong)

lemma each_map: "each f (map g xs) s = each (\<lambda>x. f (g x)) xs s"
  by (induction xs arbitrary: s) (auto cong: bindR_cong)

lemma fill_args_eq:
  assumes "al_args al = done_args @ replicate (length ps) new_arg" and "p = length done_args"
  shows "fill_args p ps al = Ok (al\<lparr>al_args := done_args @ map arg_of_param ps\<rparr>)"
  using assms
proof (induction p ps al arbitrary: done_args rule: fill_args.induct)
  case (2 p t m ps al)
  let ?mode = "if m = PARAM_OUT then ARG_OUT else if m = PARAM_INOUT then ARG_INOUT else ARG_IN"
  have "arg_of_param (t, m) = arg_init (Some t) ?mode new_arg" by (cases m) simp_all
  moreover have "set_arg p (Some t) ?mode al = Ok (al\<lparr>al_args := (done_args @ [arg_init (Some t) ?mode new_arg])
      @ replicate (length ps) new_arg\<rparr>)"
    using 2(2,3) by (simp add: set_arg_def nth_append list_update_append)
  ultimately show ?case
    using 2(1) [OF refl, of _ "done_args @ [arg_init (Some t) ?mode new_arg]"] 2(3) by simp
qed simp

lemma fill_exceps_eq:
  assumes "al_exceptions al = done_exs @ replicate (length ts) new_arg" and "e = length done_exs"
  shows "fill_exceps e ts al
    = Ok (al\<lparr>al_exceptions := done_exs @ map (\<lambda>t. arg_init (Some t) NO_MODE new_arg) ts\<rparr>)"
  using assms
proof (induction e ts al arbitrary: done_exs rule: fill_exceps.induct)
  case (2 e t ts al)
  have "set_excep e (Some t) al = Ok (al\<lparr>al_exceptions := (done_exs @ [arg_init (Some t) NO_MODE new_arg])
      @ replicate (length ts) new_arg\<rparr>)"
    using 2(2,3) by (simp add: set_excep_def nth_append list_update_append)
  then show ?case
    using 2(1) [of _ "done_exs @ [arg_init (Some t) NO_MODE new_arg]"] 2(3) by simp
qed simp

lemma operation_list_fields [simp]:
  "al_args ((operation_list opd)\<lparr>al_refcount := n\<rparr>) = map arg_of_param (od_params opd)"
  "al_oneway ((operation_list opd)\<lparr>al_refcount := n\<rparr>) = od_oneway opd"
  "map tc (al_exceptions ((operation_list opd)\<lparr>al_refcount := n\<rparr>)) = map Some (od_exceptions opd)"
  "tc (al_result ((operation_list opd)\<lparr>al_refcount := n\<rparr>))
     = (if od_oneway opd then None else Some (od_result opd))"
  by (simp_all add: operation_list_def empty_arg_list_def arg_init_def new_arg_def)

lemma add_operation_reg:
  "add_operation cmp want desired ids opd st = do_register cmp (operation_reg want desired ids opd) st"
proof -
  let ?al = "new_arg_list (length (od_params opd)) (length (od_exceptions opd)) (od_oneway opd)"
  let ?al1 = "if od_oneway opd then ?al else set_result (Some (od_result opd)) ?al"
  let ?al2 = "?al1\<lparr>al_args := map arg_of_param (od_params opd)\<rparr>"
  have 1: "fill_args 0 (od_params opd) ?al1 = Ok ?al2"
    using fill_args_eq [of ?al1 "[]" "od_params opd" 0]
    by (simp add: new_arg_list_def al_init_def set_result_def)
  have 2: "fill_exceps 0 (od_exceptions opd) ?al2
      = Ok (?al2\<lparr>al_exceptions := map (\<lambda>t. arg_init (Some t) NO_MODE new_arg) (od_exceptions opd)\<rparr>)"
    using fill_exceps_eq [of ?al2 "[]" "od_exceptions opd" 0]
    by (simp add: new_arg_list_def al_init_def set_result_def)
  have 3: "?al2\<lparr>al_exceptions := map (\<lambda>t. arg_init (Some t) NO_MODE new_arg) (od_exceptions opd)\<rparr>
      = operation_list opd"
    by (simp add: operation_list_def new_arg_list_def al_init_def set_result_def empty_arg_list_def)
  show ?thesis
    unfolding add_operation_def Let_def 1 bindR_simps 2 3
    by (simp add: do_register_def operation_reg_def)
qed

lemma add_attribute_regs:
  "add_attribute cmp tcs want desired ids attr st
     = each (do_register cmp) (attribute_regs tcs want desired ids attr) st"
proof -
  have "set_arg 0 (Some (at_type attr)) ARG_IN (new_arg_list 1 0 False)
      = Ok (empty_arg_list\<lparr>al_args := [arg_init (Some (at_type attr)) ARG_IN new_arg]\<rparr>)"
    by (simp add: set_arg_def new_arg_list_def al_init_def empty_arg_list_def)
  moreover have "set_result (Some (tc_void tcs))
      (empty_arg_list\<lparr>al_args := [arg_init (Some (at_type attr)) ARG_IN new_arg]\<rparr>)
      = one_arg_list (at_type attr) (tc_void tcs)"
    by (simp add: set_result_def one_arg_list_def empty_arg_list_def)
  ultimately show ?thesis
    by (simp add: add_attribute_def attribute_regs_def do_register_def no_arg_list_def Let_def
        cong: bindR_cong)
qed

lemma add_levels_regs:
  "add_levels cmp tcs want desired derived ds st
     = each (do_register cmp) (level_regs tcs want desired derived ds) st"
proof (induction ds arbitrary: derived st)
  case (Cons d ds)
  have "add_contents cmp tcs want desired ids d st
      = each (do_register cmp) (content_regs tcs want desired ids d) st" for ids st
    unfolding add_contents_def content_regs_def each_append each_concat each_map
    by (intro bindR_cong each_cong) (simp_all add: add_attribute_regs add_operation_reg)
  then show ?case by (simp add: each_append Cons.IH cong: bindR_cong)
qed simp

lemma keep_or_drop_register:
  assumes "al_refcount al = 1"
  shows "bindR (case al_alloc al (ensure_op cmp m tab) of (a, tab) \<Rightarrow>
           bindR (add_op_args cmp m a i tab) (\<lambda>tab. Ok (a, tab))) (\<lambda>at. keep_or_drop k at res)
       = register cmp m al k [i] (tab, res)"
  using assms
  by (simp add: al_alloc_def add_op_args_def add_ref_def remove_ref_def al_at_def al_put_def
      keep_or_drop_def register_def Let_def ensure_op_def)

lemma is_a_list_eq:
  "set_arg 0 (Some (tc_string tcs)) ARG_IN (set_result (Some (tc_boolean tcs)) (new_arg_list 1 0 False))
     = Ok (one_arg_list (tc_string tcs) (tc_boolean tcs))"
  by (simp add: set_arg_def set_result_def new_arg_list_def al_init_def empty_arg_list_def one_arg_list_def)

lemma list_refcounts [simp]:
  "al_refcount (no_arg_list r) = 1" "al_refcount (one_arg_list t r) = 1"
  "al_refcount (operation_list opd) = 1"
  by (simp_all add: no_arg_list_def one_arg_list_def operation_list_def set_result_def
      new_arg_list_def al_init_def empty_arg_list_def)

lemma add_interface_regs:
  assumes "wants_attribute desired = Ok want"
  shows "add_interface cmp tcs def bases desired tab
    = each (do_register cmp) (interface_regs tcs want desired def bases) (tab, None)"
proof -
  have 1: "bindR (add_is_a cmp tcs (if_id def) tab) (\<lambda>at. keep_or_drop k at res)
      = register cmp ''_is_a'' (one_arg_list (tc_string tcs) (tc_boolean tcs)) k [if_id def] (tab, res)"
    for tab k res
    unfolding add_is_a_def Let_def is_a_list_eq bindR_simps by (rule keep_or_drop_register) simp
  have 2: "bindR (add_non_existent cmp tcs (if_id def) tab) (\<lambda>at. keep_or_drop k at res)
      = register cmp ''_non_existent'' (no_arg_list (tc_boolean tcs)) k [if_id def] (tab, res)"
    for tab k res
    unfolding add_non_existent_def Let_def no_arg_list_def [symmetric] by (rule keep_or_drop_register) simp
  have "add_interface cmp tcs def bases desired tab =
     bindR (bindR (add_is_a cmp tcs (if_id def) tab) (\<lambda>at. keep_or_drop (\<not> want \<and> desired = Some ''_is_a'') at None))
       (\<lambda>(tab, res). bindR (bindR (add_non_existent cmp tcs (if_id def) tab)
          (\<lambda>at. keep_or_drop (\<not> want \<and> desired = Some ''_non_existent'') at res))
          (add_levels cmp tcs want desired [] (def # bases)))"
    unfolding add_interface_def assms bindR_simps by (simp add: bindR_assoc split_def)
  then show ?thesis
    unfolding 1 2 interface_regs_def each.simps do_register_def
    by (simp add: do_register_def [symmetric] add_levels_regs split_def cong: bindR_cong del: level_regs.simps)
qed

lemma content_regs_ok:
  "ids \<noteq> [] \<Longrightarrow> g \<in> set (content_regs tcs want desired ids d) \<Longrightarrow> registration_ok g \<and> rg_ids g = ids"
  by (auto simp: content_regs_def attribute_regs_def operation_reg_def registration_ok_def split: if_splits)

lemma level_regs_ok: "g \<in> set (level_regs tcs want desired derived ds) \<Longrightarrow> registration_ok g"
proof (induction ds arbitrary: derived)
  case (Cons d ds)
  then show ?case using content_regs_ok [of "if_id d # derived" g] by auto
qed simp

lemma interface_regs_ok: "\<forall>g \<in> set (interface_regs tcs want desired def bases). registration_ok g"
proof
  fix g assume "g \<in> set (interface_regs tcs want desired def bases)"
  then consider "al_refcount (rg_list g) = 1" "rg_ids g = [if_id def]"
    | "g \<in> set (level_regs tcs want desired [] (def # bases))"
    by (auto simp: interface_regs_def simp del: level_regs.simps)
  then show "registration_ok g"
  proof cases
    case 1
    then show ?thesis by (simp add: registration_ok_def)
  qed (rule level_regs_ok)
qed

lemma level_regs_member:
  assumes "j < length ds" and "g \<in> set (content_regs tcs want desired (if_id (ds ! j) # derived @ map if_id (take j ds)) (ds ! j))"
  shows "g \<in> set (level_regs tcs want desired derived ds)"
  using assms
proof (induction ds arbitrary: j derived)
  case (Cons d ds)
  show ?case
  proof (cases j)
    case (Suc k)
    with Cons.IH [of k "derived @ [if_id d]"] Cons.prems show ?thesis by simp
  qed (use Cons.prems in simp)
qed simp

lemma operation_registered:
  assumes "j < length (def # bases)" and "opd \<in> set (if_operations ((def # bases) ! j))"
    and "i \<le> j" and "rep_id = if_id ((def # bases) ! i)"
  shows "\<exists>g \<in> set (interface_regs tcs want desired def bases). rg_name g = od_name opd
    \<and> rg_list g = operation_list opd \<and> rep_id \<in> set (rg_ids g)"
proof -
  let ?ds = "def # bases" and ?ids = "if_id ((def # bases) ! j) # [] @ map if_id (take j (def # bases))"
  let ?g = "operation_reg want desired ?ids opd"
  have "?g \<in> set (content_regs tcs want desired ?ids (?ds ! j))"
    using assms(2) by (simp add: content_regs_def)
  from level_regs_member [OF assms(1) this]
  have "?g \<in> set (interface_regs tcs want desired def bases)"
    by (simp add: interface_regs_def del: level_regs.simps)
  moreover have "rep_id \<in> set ?ids"
  proof (cases "i = j")
    case False
    then have "?ds ! i \<in> set (take j ?ds)" using assms(1,3) by (auto simp: in_set_conv_nth intro!: exI [of _ i])
    then show ?thesis using assms(4) by auto
  qed (use assms(4) in simp)
  ultimately show ?thesis by (intro bexI [of _ ?g]) (simp_all add: operation_reg_def)
qed

text \<open>With distinct operation names, the entry that a lookup meets first.\<close>

lemma op_args_append: "op_args i (xs @ ys) = (case op_args i xs of None \<Rightarrow> op_args i ys | Some a \<Rightarrow> Some a)"
  by (induction xs) auto

lemma op_args_same: "op_args i (map (\<lambda>i. (i, a)) ids) = (if i \<in> set ids then Some a else None)"
  by (induction ids) auto

lemma op_args_mem: "op_args i xs = Some a \<Longrightarrow> (i, a) \<in> set xs"
  by (induction xs) (auto split: if_splits)

lemma new_entries_none: "n \<notin> rg_name ` set gs \<Longrightarrow> new_entries gs a n = []"
  by (induction gs arbitrary: a) auto

lemma new_entries_distinct:
  assumes "distinct (map rg_name gs)" and "k < length gs" and "i \<in> set (rg_ids (gs ! k))"
  shows "op_args i (new_entries gs a (rg_name (gs ! k))) = Some (a + k)"
  using assms
proof (induction gs arbitrary: a k)
  case (Cons g gs)
  show ?case
  proof (cases k)
    case 0
    with Cons.prems show ?thesis by (simp add: op_args_append op_args_same)
  next
    case (Suc j)
    then have "rg_name (gs ! j) \<noteq> rg_name g" using Cons.prems Suc by simp (metis image_eqI nth_mem)
    with Suc Cons.IH [of j "a + 1"] Cons.prems show ?thesis by simp
  qed
qed simp

context string_order
begin

lemma find_args_ok:
  assumes "optab_ok own tab" and "op_args i (entries cmp tab n) = Some a"
  shows "\<exists>tab'. find_args cmp n i tab = Ok (Some a, tab') \<and> optab_ok (own(a := own a + 1)) tab'
    \<and> al_body tab' = al_body tab \<and> head_op tab' = head_op tab"
proof -
  obtain s where s: "find_op cmp n (head_op tab) = Some s" "op_args i s = Some a"
    using assms(2) by (cases "find_op cmp n (head_op tab)") (auto simp: entries_def)
  have "0 < refs_to (head_op tab) a" using refs_to_pos [OF s(1)] op_args_mem [OF s(2)] by blast
  then have "lists tab a \<noteq> None" using optab_ok_live [OF assms(1), of a] by simp
  from add_ref_ok [OF assms(1) this] s show ?thesis by (auto simp: find_args_simps)
qed

lemma find_args_None: "op_args i (entries cmp tab n) = None \<Longrightarrow> find_args cmp n i tab = Ok (None, tab)"
  by (auto simp: find_args_simps entries_def split: option.splits)

lemma find_registered:
  assumes "optab_ok own tab" and "\<forall>g \<in> set gs. registration_ok g" and "distinct (map rg_name gs)"
    and "each (do_register cmp) gs (tab, res) = Ok (tab1, res1)"
    and "g \<in> set gs" and "i \<in> set (rg_ids g)" and "op_args i (entries cmp tab (rg_name g)) = None"
  shows "\<exists>a tab2. find_args cmp (rg_name g) i tab1 = Ok (Some a, tab2)
    \<and> al_body tab2 a = Some ((rg_list g)\<lparr>al_refcount := 0\<rparr>)"
proof -
  let ?a = "next_addr tab"
  obtain k where k: "k < length gs" "g = gs ! k" using assms(5) by (metis in_set_conv_nth)
  have ok1: "optab_ok (new_holders gs ?a own) tab1"
    and ent: "entries cmp tab1 n = entries cmp tab n @ new_entries gs ?a n" for n
    using each_register_ok [OF assms(1,2), of res] assms(4) by auto
  have body: "al_body tab1 (?a + k) = Some ((rg_list g)\<lparr>al_refcount := 0\<rparr>)"
    using each_register_ok [OF assms(1,2), of res] assms(4) k by (auto simp: new_bodies_def)
  have "op_args i (entries cmp tab1 (rg_name g)) = Some (?a + k)"
    using ent assms(7) new_entries_distinct [OF assms(3) k(1)] assms(6) k(2) by (simp add: op_args_append)
  from find_args_ok [OF ok1 this] body show ?thesis by auto
qed

end

subsection \<open>Properties\<close>

lemma wants_attribute_Ok: "desired \<noteq> Some ''_'' \<Longrightarrow> \<exists>want. wants_attribute desired = Ok want"
  by (cases desired) (auto simp: wants_attribute_def length_Suc_conv hd_conv_nth)

text \<open>
  C29: Adding an interface, whatever comparison the C library has (only that it gives zero
  exactly for equal strings) and as long as the interface repository answers: it faults exactly when the wanted operation is \<open>_\<close>, whose name is read beyond
  its end. Otherwise it keeps the counts of the argument lists right: each list has
  one reference per entry of the table, and the list that is handed back has one more. The table
  gets the entries of the registrations of the interface, after the entries it had.
\<close>

theorem add_interface_counts:
  assumes "\<forall>a b. strcmp a b = 0 \<longleftrightarrow> a = b" and "optab_ok own tab"
  shows "if desired = Some ''_'' then add_interface strcmp tcs def bases desired tab = Fault BadSubscript
    else \<exists>want gs tab'. wants_attribute desired = Ok want \<and> gs = interface_regs tcs want desired def bases
      \<and> add_interface strcmp tcs def bases desired tab = Ok (tab', wanted_list gs (next_addr tab) None)
      \<and> optab_ok (new_holders gs (next_addr tab) own) tab'
      \<and> (\<forall>n. entries strcmp tab' n = entries strcmp tab n @ new_entries gs (next_addr tab) n)"
proof (cases "desired = Some ''_''")
  case True
  then show ?thesis by (simp add: add_interface_def wants_attribute_def)
next
  case False
  then obtain want where w: "wants_attribute desired = Ok want" using wants_attribute_Ok by blast
  have so: "string_order strcmp" using assms(1) by unfold_locales blast
  let ?gs = "interface_regs tcs want desired def bases"
  from string_order.each_register_ok [OF so assms(2) interface_regs_ok, of tcs want desired def bases None]
  obtain tab' where "add_interface strcmp tcs def bases desired tab = Ok (tab', wanted_list ?gs (next_addr tab) None)"
    "optab_ok (new_holders ?gs (next_addr tab) own) tab'" "\<forall>n. entries strcmp tab' n = entries strcmp tab n @ new_entries ?gs (next_addr tab) n"
    unfolding add_interface_regs [OF w] by blast
  with False w show ?thesis by (simp only: if_False) blast
qed

text \<open>
  C13: After an interface was added, a lookup of any operation that the interface or one of its direct
  bases declares, under the id of the interface, gives an argument list that has the types and
  modes of the operation's parameters in order, its exceptions, its result and its oneway flag.
  (The names of the operations are distinct and were not entered for this interface before.)
\<close>

theorem find_after_add_interface:
  assumes "\<forall>a b. strcmp a b = 0 \<longleftrightarrow> a = b" and "optab_ok own tab"
    and "wants_attribute desired = Ok want"
    and "distinct (map rg_name (interface_regs tcs want desired def bases))"
    and "d \<in> set (def # bases)" and "opd \<in> set (if_operations d)"
    and "op_args (if_id def) (entries strcmp tab (od_name opd)) = None"
  shows "\<exists>tab1 res a tab2 al. add_interface strcmp tcs def bases desired tab = Ok (tab1, res)
    \<and> find_args strcmp (od_name opd) (if_id def) tab1 = Ok (Some a, tab2) \<and> lists tab2 a = Some al
    \<and> al_args al = map arg_of_param (od_params opd) \<and> al_oneway al = od_oneway opd
    \<and> map tc (al_exceptions al) = map Some (od_exceptions opd)
    \<and> tc (al_result al) = (if od_oneway opd then None else Some (od_result opd))"
proof -
  have so: "string_order strcmp" using assms(1) by unfold_locales blast
  obtain j where j: "j < length (def # bases)" "d = (def # bases) ! j"
    using assms(5) by (metis in_set_conv_nth)
  obtain g where g: "g \<in> set (interface_regs tcs want desired def bases)" "rg_name g = od_name opd"
    "rg_list g = operation_list opd" "if_id def \<in> set (rg_ids g)"
    using operation_registered [OF j(1) assms(6) [unfolded j(2)] le0, of "if_id def" tcs want desired] by auto
  obtain tab1 res where t1: "add_interface strcmp tcs def bases desired tab = Ok (tab1, res)"
    using string_order.each_register_ok [OF so assms(2) interface_regs_ok]
    unfolding add_interface_regs [OF assms(3)] by blast
  obtain a tab2 where f: "find_args strcmp (rg_name g) (if_id def) tab1 = Ok (Some a, tab2)"
    "al_body tab2 a = Some ((operation_list opd)\<lparr>al_refcount := 0\<rparr>)"
    using string_order.find_registered [OF so assms(2) interface_regs_ok assms(4)
        t1 [unfolded add_interface_regs [OF assms(3)]] g(1,4)] assms(7) g(2,3) by auto
  then obtain al where al: "lists tab2 a = Some al" "al\<lparr>al_refcount := 0\<rparr> = (operation_list opd)\<lparr>al_refcount := 0\<rparr>"
    by (auto simp: al_body_def)
  have "al = (operation_list opd)\<lparr>al_refcount := al_refcount al\<rparr>"
    using arg_cong [OF al(2), of "al_refcount_update (\<lambda>_. al_refcount al)"] by simp
  then have "al_args al = map arg_of_param (od_params opd)" "al_oneway al = od_oneway opd"
    "map tc (al_exceptions al) = map Some (od_exceptions opd)"
    "tc (al_result al) = (if od_oneway opd then None else Some (od_result opd))"
    by (metis (no_types, lifting) operation_list_fields arg_list.select_convs arg_list.surjective
        arg_list.update_convs(7))+
  with t1 f(1) g(2) al(1) show ?thesis by auto
qed

lemma empty_optab_ok: "optab_ok (\<lambda>_. 0) empty_optab"
  by (simp add: optab_ok_def empty_optab_def refs_to_def)

definition sample_tcs :: "nat tc_consts" where
  "sample_tcs = \<lparr>tc_void = 0, tc_boolean = 1, tc_string = 2\<rparr>"

definition sample_iface :: "string \<Rightarrow> string \<Rightarrow> nat interface_def" where
  "sample_iface i n = \<lparr>if_id = i, if_attributes = [],
     if_operations = [\<lparr>od_name = n, od_params = [(7, PARAM_IN), (8, PARAM_OUT)], od_exceptions = [9],
                       od_oneway = False, od_result = 5\<rparr>]\<rparr>"

lemma sign_law: "\<forall>a b. strcmp_sign a b = 0 \<longleftrightarrow> a = b"
  by (simp add: sign.cmp_zero)

theorem add_interface_counts_witness:
  "(\<exists>tab'. add_interface strcmp_sign sample_tcs (sample_iface ''d'' ''x'') [] None empty_optab = Ok (tab', None) \<and> optab_ok (\<lambda>_. 0) tab')
   \<and> add_interface strcmp_sign sample_tcs (sample_iface ''d'' ''x'') [] (Some ''_'') empty_optab = Fault BadSubscript"
proof (rule conjI)
  show "\<exists>tab'. add_interface strcmp_sign sample_tcs (sample_iface ''d'' ''x'') [] None empty_optab = Ok (tab', None) \<and> optab_ok (\<lambda>_. 0) tab'"
    using add_interface_counts [OF sign_law empty_optab_ok, of None sample_tcs "sample_iface ''d'' ''x''" "[]"]
    by (simp add: wants_attribute_def interface_regs_def content_regs_def sample_iface_def operation_reg_def) blast
  show "add_interface strcmp_sign sample_tcs (sample_iface ''d'' ''x'') [] (Some ''_'') empty_optab = Fault BadSubscript"
    using add_interface_counts [OF sign_law empty_optab_ok, of "Some ''_''"] by simp
qed

theorem find_after_add_interface_witness:
  "\<exists>tab1 res a tab2 al.
     add_interface strcmp_sign sample_tcs (sample_iface ''d'' ''x'') [sample_iface ''b'' ''y''] None empty_optab
       = Ok (tab1, res)
     \<and> find_args strcmp_sign ''y'' ''d'' tab1 = Ok (Some a, tab2) \<and> lists tab2 a = Some al
     \<and> al_args al = [arg_init (Some 7) ARG_IN new_arg, arg_init (Some 8) ARG_OUT new_arg]"
  using find_after_add_interface [OF sign_law empty_optab_ok, of None False sample_tcs
      "sample_iface ''d'' ''x''" "[sample_iface ''b'' ''y'']" "sample_iface ''b'' ''y''"
      "hd (if_operations (sample_iface ''b'' ''y''))"]
  by (simp add: wants_attribute_def interface_regs_def content_regs_def sample_iface_def operation_reg_def
      entries_def empty_optab_def) blast

lemma wanted_list_unique:
  assumes "k < length gs" and "\<forall>i < length gs. rg_wanted (gs ! i) \<longleftrightarrow> i = k"
  shows "wanted_list gs a res = Some (a + k)"
  using assms
proof (induction gs arbitrary: a k res)
  case (Cons g gs)
  have none: "\<forall>g \<in> set gs'. \<not> rg_wanted g \<Longrightarrow> wanted_list gs' b r = r" for gs' :: "'a registration list" and b r
    by (induction gs' arbitrary: b) auto
  show ?case
  proof (cases k)
    case 0
    have "\<not> rg_wanted (gs ! i)" if "i < length gs" for i using Cons.prems(2) 0 that by fastforce
    then have "\<forall>g' \<in> set gs. \<not> rg_wanted g'" by (metis in_set_conv_nth)
    then show ?thesis using none [of gs] Cons.prems 0 by auto
  next
    case (Suc j)
    have "\<forall>i < length gs. rg_wanted (gs ! i) \<longleftrightarrow> i = j" using Cons.prems(2) Suc by fastforce
    then show ?thesis using Cons.IH [of j] Cons.prems Suc by auto
  qed
qed simp

text \<open>
  The operations of a base are entered under the ids of all the interfaces that were passed before,
  the earlier bases of the same interface among them: a lookup of an operation of the second
  base under the id of the first base succeeds, although the first base does not declare it.
\<close>

theorem siblings_share_operations:
  assumes "\<forall>a b. strcmp a b = 0 \<longleftrightarrow> a = b" and "optab_ok own tab"
    and "wants_attribute desired = Ok want" and "bases = b1 # b2 # bs"
    and "distinct (map rg_name (interface_regs tcs want desired def bases))"
    and "opd \<in> set (if_operations b2)" and "op_args (if_id b1) (entries strcmp tab (od_name opd)) = None"
  shows "od_name opd \<notin> od_name ` set (if_operations b1)
    \<and> (\<exists>tab1 res a tab2. add_interface strcmp tcs def bases desired tab = Ok (tab1, res)
         \<and> find_args strcmp (od_name opd) (if_id b1) tab1 = Ok (Some a, tab2))"
proof -
  have so: "string_order strcmp" using assms(1) by unfold_locales blast
  have dist: "distinct (map rg_name (level_regs tcs want desired [] (def # bases)))"
    using assms(5) by (simp add: interface_regs_def del: level_regs.simps)
  then have "od_name opd \<notin> od_name ` set (if_operations b1)"
    using assms(4,6) by (auto simp: content_regs_def operation_reg_def image_iff)
  moreover obtain g where g: "g \<in> set (interface_regs tcs want desired def bases)" "rg_name g = od_name opd"
    "if_id b1 \<in> set (rg_ids g)"
    using operation_registered [of 2 def bases opd 1 "if_id b1" tcs want desired] assms(4,6)
    by (auto simp: numeral_2_eq_2)
  moreover obtain tab1 res where t1: "add_interface strcmp tcs def bases desired tab = Ok (tab1, res)"
    using string_order.each_register_ok [OF so assms(2) interface_regs_ok]
    unfolding add_interface_regs [OF assms(3)] by blast
  moreover obtain a tab2 where "find_args strcmp (rg_name g) (if_id b1) tab1 = Ok (Some a, tab2)"
    using string_order.find_registered [OF so assms(2) interface_regs_ok assms(5)
        t1 [unfolded add_interface_regs [OF assms(3)]] g(1,3)] assms(7) g(2) by auto
  ultimately show ?thesis by auto
qed

theorem siblings_share_operations_witness:
  "\<exists>tab1 res a tab2. add_interface strcmp_sign sample_tcs (sample_iface ''d'' ''x'')
      [sample_iface ''b'' ''y'', sample_iface ''c'' ''z''] None empty_optab = Ok (tab1, res)
    \<and> find_args strcmp_sign ''z'' ''b'' tab1 = Ok (Some a, tab2)"
  using siblings_share_operations [OF sign_law empty_optab_ok, of None False
      "[sample_iface ''b'' ''y'', sample_iface ''c'' ''z'']" "sample_iface ''b'' ''y''"
      "sample_iface ''c'' ''z''" "[]" sample_tcs "sample_iface ''d'' ''x''"
      "hd (if_operations (sample_iface ''c'' ''z''))"]
  by (simp add: wants_attribute_def interface_regs_def content_regs_def sample_iface_def operation_reg_def
      entries_def empty_optab_def)

text \<open>The lookups in a table do not depend on the signs that \<open>strcmp\<close> gives.\<close>

definition object_regs :: "'t tc_consts \<Rightarrow> 't registration list" where
  "object_regs tcs =
     [\<lparr>rg_name = ''_is_a'', rg_list = one_arg_list (tc_string tcs) (tc_boolean tcs), rg_wanted = False,
       rg_ids = [CORBA_OBJECT_ID]\<rparr>,
      \<lparr>rg_name = ''_non_existent'', rg_list = no_arg_list (tc_boolean tcs), rg_wanted = False,
       rg_ids = [CORBA_OBJECT_ID]\<rparr>]"

lemma new_optab_regs:
  "new_optab cmp tcs = bindR (each (do_register cmp) (object_regs tcs) (empty_optab, None)) (\<lambda>(tab, r). Ok tab)"
proof -
  have drop: "bindR m (\<lambda>(al, tab). remove_ref al tab)
      = bindR (bindR m (\<lambda>at. keep_or_drop False at None)) (\<lambda>(tab, r). Ok tab)" for m :: "(nat \<times> 'b optab) result"
    by (cases m) (auto simp: keep_or_drop_def bindR_assoc)
  have 1: "bindR (add_is_a cmp tcs i tab) (\<lambda>(al, tab). remove_ref al tab)
      = bindR (register cmp ''_is_a'' (one_arg_list (tc_string tcs) (tc_boolean tcs)) False [i] (tab, None))
          (\<lambda>(tab, r). Ok tab)" for tab i
    unfolding drop add_is_a_def Let_def is_a_list_eq bindR_simps
    by (subst keep_or_drop_register) simp_all
  have 2: "bindR (add_non_existent cmp tcs i tab) (\<lambda>(al, tab). remove_ref al tab)
      = bindR (register cmp ''_non_existent'' (no_arg_list (tc_boolean tcs)) False [i] (tab, None))
          (\<lambda>(tab, r). Ok tab)" for tab i
    unfolding drop add_non_existent_def Let_def no_arg_list_def [symmetric]
    by (subst keep_or_drop_register) simp_all
  have res: "register cmp m al False ids (tab, r) = bindR (register cmp m al False ids (tab, None))
      (\<lambda>(tab, x). Ok (tab, r))" for m ids r and al :: "'b arg_list" and tab
    by (simp add: register_def split_def bindR_assoc)
  have "new_optab cmp tcs = bindR (bindR (add_is_a cmp tcs CORBA_OBJECT_ID empty_optab)
      (\<lambda>(al, tab). remove_ref al tab)) (\<lambda>tab. bindR (add_non_existent cmp tcs CORBA_OBJECT_ID tab)
      (\<lambda>(al, tab). remove_ref al tab))"
    by (simp add: new_optab_def bindR_assoc split_def)
  then show ?thesis
    unfolding 1 2 by (simp add: object_regs_def do_register_def bindR_assoc split_def) (subst res, simp add: bindR_assoc split_def cong: bindR_cong)
qed

definition add_interfaces ::
    "(string \<Rightarrow> string \<Rightarrow> int) \<Rightarrow> 't tc_consts \<Rightarrow>
     ('t interface_def \<times> 't interface_def list \<times> string option) list \<Rightarrow> 't optab \<Rightarrow> 't optab result" where
  "add_interfaces cmp tcs =
     each (\<lambda>(def, bases, desired) tab.
       bindR (add_interface cmp tcs def bases desired tab) (\<lambda>(tab, r). Ok tab))"

definition same_table ::
    "(string \<Rightarrow> string \<Rightarrow> int) \<Rightarrow> (string \<Rightarrow> string \<Rightarrow> int) \<Rightarrow> 't optab \<Rightarrow> 't optab \<Rightarrow> bool" where
  "same_table cmp cmp' tab tab' \<longleftrightarrow> (\<exists>own. optab_ok own tab \<and> optab_ok own tab')
     \<and> entries cmp tab = entries cmp' tab' \<and> al_body tab = al_body tab' \<and> next_addr tab = next_addr tab'"

lemma each_register_same:
  assumes "string_order cmp" and "string_order cmp'" and "same_table cmp cmp' tab tab'"
    and "\<forall>g \<in> set gs. registration_ok g"
  shows "\<exists>t t' r. each (do_register cmp) gs (tab, res) = Ok (t, r)
    \<and> each (do_register cmp') gs (tab', res) = Ok (t', r) \<and> same_table cmp cmp' t t'"
proof -
  obtain own where own: "optab_ok own tab" "optab_ok own tab'" using assms(3) by (auto simp: same_table_def)
  from string_order.each_register_ok [OF assms(1) own(1) assms(4), of res]
    string_order.each_register_ok [OF assms(2) own(2) assms(4), of res] assms(3)
  show ?thesis unfolding same_table_def by (simp add: fun_eq_iff) (elim exE conjE, intro exI conjI, assumption+, simp_all)
qed

lemma add_interfaces_same:
  assumes "string_order cmp" and "string_order cmp'" and "same_table cmp cmp' tab tab'"
    and "\<forall>(def, bases, desired) \<in> set ifs. desired \<noteq> Some ''_''"
  shows "\<exists>t t'. add_interfaces cmp tcs ifs tab = Ok t \<and> add_interfaces cmp' tcs ifs tab' = Ok t'
    \<and> same_table cmp cmp' t t'"
  using assms(3,4)
proof (induction ifs arbitrary: tab tab')
  case (Cons x ifs)
  obtain def bases desired where x: "x = (def, bases, desired)" by (cases x)
  obtain want where w: "wants_attribute desired = Ok want"
    using wants_attribute_Ok [of desired] Cons.prems(2) x by auto
  obtain t t' r where s: "add_interface cmp tcs def bases desired tab = Ok (t, r)"
    "add_interface cmp' tcs def bases desired tab' = Ok (t', r)" "same_table cmp cmp' t t'"
    using each_register_same [OF assms(1,2) Cons.prems(1) interface_regs_ok]
    unfolding add_interface_regs [OF w] by blast
  from Cons.IH [OF s(3)] Cons.prems(2) s(1,2) x show ?case by (auto simp: add_interfaces_def)
qed (simp add: add_interfaces_def)

text \<open>
  C30: Whatever signs and sizes \<open>strcmp\<close> returns for unequal strings, and so whatever shape the tree
  takes, a table into which the same interfaces were entered answers every lookup with the same
  argument list, or with none.
\<close>

theorem find_independent_of_strcmp:
  assumes "\<forall>a b. strcmp a b = 0 \<longleftrightarrow> a = b" and "\<forall>a b. strcmp' a b = 0 \<longleftrightarrow> a = b"
    and "\<forall>(def, bases, desired) \<in> set ifs. desired \<noteq> Some ''_''"
  shows "\<exists>tab tab' p t t'. bindR (new_optab strcmp tcs) (add_interfaces strcmp tcs ifs) = Ok tab
    \<and> bindR (new_optab strcmp' tcs) (add_interfaces strcmp' tcs ifs) = Ok tab'
    \<and> find_args strcmp opname rep_id tab = Ok (p, t) \<and> find_args strcmp' opname rep_id tab' = Ok (p, t')
    \<and> al_body t = al_body t'"
proof -
  have so: "string_order strcmp" "string_order strcmp'" using assms(1,2) by (unfold_locales, blast)+
  have "same_table strcmp strcmp' empty_optab empty_optab"
    using empty_optab_ok by (auto simp: same_table_def entries_def empty_optab_def)
  moreover have "\<forall>g \<in> set (object_regs tcs). registration_ok g"
    by (simp add: object_regs_def registration_ok_def)
  ultimately obtain t0 t0' r where t0: "each (do_register strcmp) (object_regs tcs) (empty_optab, None) = Ok (t0, r)"
    "each (do_register strcmp') (object_regs tcs) (empty_optab, None) = Ok (t0', r)"
    "same_table strcmp strcmp' t0 t0'"
    using each_register_same [OF so] by blast
  obtain tab tab' where tab: "add_interfaces strcmp tcs ifs t0 = Ok tab"
    "add_interfaces strcmp' tcs ifs t0' = Ok tab'" "same_table strcmp strcmp' tab tab'"
    using add_interfaces_same [OF so t0(3) assms(3)] by blast
  obtain own where own: "optab_ok own tab" "optab_ok own tab'" using tab(3) by (auto simp: same_table_def)
  have ent: "entries strcmp tab opname = entries strcmp' tab' opname" "al_body tab = al_body tab'"
    using tab(3) by (simp_all add: same_table_def fun_eq_iff)
  have "\<exists>p t t'. find_args strcmp opname rep_id tab = Ok (p, t)
      \<and> find_args strcmp' opname rep_id tab' = Ok (p, t') \<and> al_body t = al_body t'"
  proof (cases "op_args rep_id (entries strcmp tab opname)")
    case None
    with ent string_order.find_args_None [OF so(1)] string_order.find_args_None [OF so(2)] show ?thesis by metis
  next
    case (Some a)
    with ent string_order.find_args_ok [OF so(1) own(1)] string_order.find_args_ok [OF so(2) own(2)]
    show ?thesis by metis
  qed
  with t0(1,2) tab(1,2) show ?thesis by (simp add: new_optab_regs)
qed

definition strcmp_other :: "string \<Rightarrow> string \<Rightarrow> int" where
  "strcmp_other a b = 3 * strcmp_sign a b"

theorem find_independent_of_strcmp_witness:
  "\<exists>tab tab' p t t'. bindR (new_optab strcmp_sign sample_tcs)
        (add_interfaces strcmp_sign sample_tcs [(sample_iface ''d'' ''x'', [], None)]) = Ok tab
    \<and> bindR (new_optab strcmp_other sample_tcs)
        (add_interfaces strcmp_other sample_tcs [(sample_iface ''d'' ''x'', [], None)]) = Ok tab'
    \<and> find_args strcmp_sign ''x'' ''d'' tab = Ok (p, t) \<and> find_args strcmp_other ''x'' ''d'' tab' = Ok (p, t')
    \<and> al_body t = al_body t'"
  by (rule find_independent_of_strcmp) (auto simp: sign_law strcmp_other_def)

lemma opargs_dtor_each: "opargs_dtor oas = each (\<lambda>oa. remove_ref (snd oa)) oas"
  by (induction oas; rule ext) (auto simp: split_paired_all)

lemma each_append_fun: "each f (xs @ ys) = (\<lambda>s. bindR (each f xs s) (each f ys))"
  by (rule ext) (rule each_append)

lemma operation_dtor_each: "operation_dtor t = each (\<lambda>oa. remove_ref (snd oa)) (op_entries t)"
  by (induction t; rule ext) (simp_all add: each_append_fun opargs_dtor_each)

lemma remove_all_ok:
  assumes "optab_ok own tab" and "\<forall>a. count_list (map snd oas) a \<le> own a"
  shows "\<exists>tab'. each (\<lambda>oa. remove_ref (snd oa)) oas tab = Ok tab'
    \<and> optab_ok (\<lambda>a. own a - count_list (map snd oas) a) tab' \<and> head_op tab' = head_op tab"
  using assms
proof (induction oas arbitrary: own tab)
  case (Cons oa oas)
  let ?a = "snd oa"
  have pos: "0 < own ?a" using Cons.prems(2) by (auto dest: spec [of _ ?a])
  obtain t1 where t1: "remove_ref ?a tab = Ok t1" "optab_ok (own(?a := own ?a - 1)) t1" "head_op t1 = head_op tab"
    using remove_ref_ok [OF Cons.prems(1) pos] by blast
  have "\<forall>a. count_list (map snd oas) a \<le> (own(?a := own ?a - 1)) a"
  proof
    fix a show "count_list (map snd oas) a \<le> (own(?a := own ?a - 1)) a"
      using spec [OF Cons.prems(2), of a] by (auto split: if_splits)
  qed
  from Cons.IH [OF t1(2) this] obtain t' where "each (\<lambda>oa. remove_ref (snd oa)) oas t1 = Ok t'"
    "optab_ok (\<lambda>a. (own(?a := own ?a - 1)) a - count_list (map snd oas) a) t'" "head_op t' = head_op t1"
    by blast
  moreover have "(\<lambda>a. (own(?a := own ?a - 1)) a - count_list (map snd oas) a)
      = (\<lambda>a. own a - count_list (map snd (oa # oas)) a)" by (auto simp: fun_eq_iff)
  ultimately show ?case using t1 by auto
qed simp

text \<open>
  Destroying the table releases every reference the table held: it never faults, and exactly the
  argument lists that someone outside the table still holds are left.
\<close>

theorem optab_dtor_frees:
  assumes "optab_ok own tab"
  shows "\<exists>tab'. optab_dtor tab = Ok tab' \<and> head_op tab' = Nil_op
    \<and> (\<forall>a. lists tab' a \<noteq> None \<longleftrightarrow> 0 < own a) \<and> optab_ok own tab'"
proof -
  let ?own = "\<lambda>a. own a + refs_to (head_op tab) a"
  have ok: "optab_ok ?own (tab\<lparr>head_op := Nil_op\<rparr>)"
    using assms by (simp add: optab_ok_def refs_to_def)
  obtain tab' where t: "optab_dtor tab = Ok tab'" "head_op tab' = Nil_op"
    "optab_ok (\<lambda>a. ?own a - count_list (map snd (op_entries (head_op tab))) a) tab'"
    using remove_all_ok [OF ok, of "op_entries (head_op tab)"]
    by (auto simp: optab_dtor_def operation_dtor_each refs_to_def)
  then have "optab_ok own tab'" by (simp add: refs_to_def)
  with t(1,2) optab_ok_live [OF this] show ?thesis by (simp add: refs_to_def)
qed

theorem optab_dtor_frees_witness:
  "\<exists>tab'. optab_dtor (\<lparr>head_op = Operation Nil_op ''x'' [(''d'', 0), (''e'', 0)] Nil_op,
       lists = [0 \<mapsto> (no_arg_list (1 :: nat))\<lparr>al_refcount := 3\<rparr>], next_addr = 1\<rparr>) = Ok tab'
     \<and> lists tab' 0 \<noteq> None"
  (is "\<exists>tab'. optab_dtor ?tab = Ok tab' \<and> _")
proof -
  have "optab_ok ((\<lambda>_. 0)(0 := 1)) ?tab" by (simp add: optab_ok_def refs_to_def)
  from optab_dtor_frees [OF this] show ?thesis by auto
qed

end
