(* ===== verification/ReferenceMapValue.thy ===== *)
theory ReferenceMapValue
  imports Prelude
begin

text \<open>
  Reference map values and the smart pointer that counts them (src/src/lorica/ReferenceMapValue.h
  and ReferenceMapValue.cpp). A value ties an original object reference to the mapped one that
  the proxy hands out, with the name it is bound to in the IOR table, the security flag and
  the server agent. The CORBA references themselves are opaque (\<open>'o\<close>; nil is \<^term>\<open>None\<close>).

  Values live in a heap, a partial map from addresses: a \<open>delete\<close> removes the cell, and
  touching an address without a cell is the fault \<open>UseAfterFree\<close>. The address that \<open>new\<close>
  returns is an argument of the operations that allocate. \<open>ReferenceMapValue_var\<close> is the
  pointer it holds (null is \<^term>\<open>None\<close>); its operations run on the heap.

  \<open>counted own h\<close> is the discipline the reference counts serve: every value has as many
  counts as there are owners of it, and a value without owner is gone. The lemmas show what
  each operation does to the owners; the properties state it for the smart pointer.
\<close>

record 'o rmv =
  orig_ref :: "'o option"
  mapped_ref :: "'o option"
  ior_table_name :: string
  require_secure :: "bool option"
  agent :: "'o option"
  ref_count :: int

type_synonym 'o rmv_heap = "nat \<rightharpoonup> 'o rmv"

text \<open>The constructor; it leaves \<open>require_secure_\<close> indeterminate.\<close>

definition new_rmv :: "'o rmv" where
  "new_rmv = \<lparr>orig_ref = None, mapped_ref = None, ior_table_name = [], require_secure = None,
     agent = None, ref_count = 1\<rparr>"

definition rmv_at :: "'o rmv_heap \<Rightarrow> nat \<Rightarrow> 'o rmv result" where
  "rmv_at h a = (case h a of None \<Rightarrow> Fault UseAfterFree | Some v \<Rightarrow> Ok v)"

definition incr_refcount :: "nat \<Rightarrow> 'o rmv_heap \<Rightarrow> 'o rmv_heap result" where
  "incr_refcount a h =
     bindR (rmv_at h a) (\<lambda>v. Ok (h(a \<mapsto> v\<lparr>ref_count := ref_count v + 1\<rparr>)))"

definition decr_refcount :: "nat \<Rightarrow> 'o rmv_heap \<Rightarrow> (int \<times> 'o rmv_heap) result" where
  "decr_refcount a h =
     bindR (rmv_at h a) (\<lambda>v.
       let n = ref_count v - 1 in
       if n > 0 then Ok (n, h(a \<mapsto> v\<lparr>ref_count := n\<rparr>))
       else if n = 0 then Ok (0, h(a := None))
       else Fault AssertFailed)"

definition refcount :: "nat \<Rightarrow> 'o rmv_heap \<Rightarrow> int result" where
  "refcount a h = bindR (rmv_at h a) (\<lambda>v. Ok (ref_count v))"

text \<open>\<open>reverse()\<close>: a new value at address \<open>b\<close> with the two references exchanged.\<close>

definition reverse_rmv :: "nat \<Rightarrow> nat \<Rightarrow> 'o rmv_heap \<Rightarrow> 'o rmv_heap result" where
  "reverse_rmv a b h =
     bindR (rmv_at h a) (\<lambda>v.
       Ok (h(b \<mapsto> new_rmv\<lparr>orig_ref := mapped_ref v, mapped_ref := orig_ref v, ior_table_name := [],
                       require_secure := require_secure v, agent := None\<rparr>)))"

subsection \<open>The smart pointer\<close>

definition incr_ptr :: "nat option \<Rightarrow> 'o rmv_heap \<Rightarrow> 'o rmv_heap result" where
  "incr_ptr p h = (case p of None \<Rightarrow> Ok h | Some a \<Rightarrow> incr_refcount a h)"

definition decr_ptr :: "nat option \<Rightarrow> 'o rmv_heap \<Rightarrow> 'o rmv_heap result" where
  "decr_ptr p h = (case p of None \<Rightarrow> Ok h | Some a \<Rightarrow> bindR (decr_refcount a h) (\<lambda>(n, h). Ok h))"

definition var_of_ptr :: "nat option \<Rightarrow> nat option" where
  "var_of_ptr rmv = rmv"

definition var_empty :: "nat option" where
  "var_empty = None"

definition var_copy :: "nat option \<Rightarrow> 'o rmv_heap \<Rightarrow> (nat option \<times> 'o rmv_heap) result" where
  "var_copy rmv h = bindR (incr_ptr rmv h) (\<lambda>h. Ok (rmv, h))"

definition var_dtor :: "nat option \<Rightarrow> 'o rmv_heap \<Rightarrow> 'o rmv_heap result" where
  "var_dtor p h = decr_ptr p h"

definition var_assign ::
    "nat option \<Rightarrow> nat option \<Rightarrow> 'o rmv_heap \<Rightarrow> (nat option \<times> 'o rmv_heap) result" where
  "var_assign self rmv h =
     bindR (decr_ptr self h) (\<lambda>h. bindR (incr_ptr rmv h) (\<lambda>h. Ok (rmv, h)))"

definition var_set ::
    "nat option \<Rightarrow> nat option \<Rightarrow> 'o rmv_heap \<Rightarrow> (nat option \<times> 'o rmv_heap) result" where
  "var_set self rmv h = bindR (decr_ptr self h) (\<lambda>h. Ok (rmv, h))"

definition var_out :: "nat option \<Rightarrow> 'o rmv_heap \<Rightarrow> (nat option \<times> 'o rmv_heap) result" where
  "var_out self h = bindR (decr_ptr self h) (\<lambda>h. Ok (None, h))"

text \<open>\<open>release()\<close>: the pointer handed over, and what the smart pointer holds then.\<close>

definition var_release :: "nat option \<Rightarrow> nat option \<times> nat option" where
  "var_release self = (self, None)"

subsection \<open>Counting owners\<close>

definition counted :: "(nat \<Rightarrow> nat) \<Rightarrow> 'o rmv_heap \<Rightarrow> bool" where
  "counted own h \<longleftrightarrow>
     (\<forall>a. (h a = None \<longrightarrow> own a = 0) \<and>
          (\<forall>v. h a = Some v \<longrightarrow> ref_count v = int (own a) \<and> 0 < own a))"

definition own_add :: "nat option \<Rightarrow> (nat \<Rightarrow> nat) \<Rightarrow> nat \<Rightarrow> nat" where
  "own_add p own = (case p of None \<Rightarrow> own | Some a \<Rightarrow> own(a := own a + 1))"

definition own_sub :: "nat option \<Rightarrow> (nat \<Rightarrow> nat) \<Rightarrow> nat \<Rightarrow> nat" where
  "own_sub p own = (case p of None \<Rightarrow> own | Some a \<Rightarrow> own(a := own a - 1))"

definition owned :: "nat option \<Rightarrow> (nat \<Rightarrow> nat) \<Rightarrow> bool" where
  "owned p own = (case p of None \<Rightarrow> True | Some a \<Rightarrow> 0 < own a)"

lemma own_simps [simp]:
  "own_add None own = own" "own_sub None own = own" "owned None own"
  "own_add (Some a) own = own(a := own a + 1)" "own_sub (Some a) own = own(a := own a - 1)"
  "owned (Some a) own \<longleftrightarrow> 0 < own a"
  by (simp_all add: own_add_def own_sub_def owned_def)

lemma counted_live: "counted own h \<Longrightarrow> 0 < own a \<longleftrightarrow> h a \<noteq> None"
  unfolding counted_def by (metis not_gr_zero option.exhaust)

lemma counted_Some:
  "counted own h \<Longrightarrow> h a = Some v \<Longrightarrow> ref_count v = int (own a) \<and> 0 < own a"
  unfolding counted_def by blast

lemma counted_upd:
  assumes "counted own h" and "ref_count v = int n" and "0 < n"
  shows "counted (own(a := n)) (h(a \<mapsto> v))"
  using assms unfolding counted_def by simp

lemma counted_del: "counted own h \<Longrightarrow> counted (own(a := 0)) (h(a := None))"
  unfolding counted_def by simp

lemma incr_refcount_counted:
  assumes "counted own h" and "0 < own a"
  shows "\<exists>v. h a = Some v \<and> incr_refcount a h = Ok (h(a \<mapsto> v\<lparr>ref_count := ref_count v + 1\<rparr>))
    \<and> counted (own(a := own a + 1)) (h(a \<mapsto> v\<lparr>ref_count := ref_count v + 1\<rparr>))"
proof -
  from assms obtain v where v: "h a = Some v" using counted_live by blast
  from counted_Some [OF assms(1) v]
  have "counted (own(a := own a + 1)) (h(a \<mapsto> v\<lparr>ref_count := ref_count v + 1\<rparr>))"
    by (intro counted_upd [OF assms(1)]) auto
  with v show ?thesis by (simp add: incr_refcount_def rmv_at_def)
qed

lemma decr_refcount_counted:
  assumes "counted own h" and "0 < own a"
  shows "\<exists>h'. decr_refcount a h = Ok (int (own a) - 1, h') \<and> counted (own(a := own a - 1)) h'
    \<and> (h' a = None \<longleftrightarrow> own a = 1) \<and> (\<forall>b. b \<noteq> a \<longrightarrow> h' b = h b)
    \<and> (own a \<noteq> 1 \<longrightarrow> (\<exists>v. h a = Some v \<and> h' a = Some (v\<lparr>ref_count := int (own a) - 1\<rparr>)))"
proof -
  from assms obtain v where v: "h a = Some v" using counted_live by blast
  from counted_Some [OF assms(1) v] have rc: "ref_count v = int (own a)" by simp
  show ?thesis
  proof (cases "own a = 1")
    case True
    then have "counted (own(a := own a - 1)) (h(a := None))"
      using counted_del [OF assms(1), of a] by simp
    with True v rc show ?thesis by (simp add: decr_refcount_def rmv_at_def)
  next
    case False
    then have n: "int (own a) - 1 = int (own a - 1)" "0 < own a - 1" using assms(2) by auto
    then have "counted (own(a := own a - 1)) (h(a \<mapsto> v\<lparr>ref_count := int (own a) - 1\<rparr>))"
      by (intro counted_upd [OF assms(1)]) auto
    with n False v rc show ?thesis by (simp add: decr_refcount_def rmv_at_def Let_def)
  qed
qed

lemma incr_ptr_counted:
  assumes "counted own h" and "owned p own"
  shows "\<exists>h'. incr_ptr p h = Ok h' \<and> counted (own_add p own) h'"
  using assms incr_refcount_counted [OF assms(1)]
  by (cases p) (auto simp: incr_ptr_def)

lemma decr_ptr_counted:
  assumes "counted own h" and "owned p own"
  shows "\<exists>h'. decr_ptr p h = Ok h' \<and> counted (own_sub p own) h'"
proof (cases p)
  case (Some a)
  with assms decr_refcount_counted [OF assms(1), of a] show ?thesis
    by (auto simp: decr_ptr_def)
qed (use assms in \<open>simp add: decr_ptr_def\<close>)

subsection \<open>Properties\<close>

text \<open>
  C32: The smart pointer keeps the counts right: while the counts agree with the owners, copying
  adds an owner, destruction, \<open>set\<close> and \<open>out\<close> give one up, assignment moves one; none of them
  faults, and afterwards the counts agree with the new owners. Assignment needs a source that
  has an owner besides the target.
\<close>

theorem smart_pointer_counts:
  assumes "counted own h" and "owned self own" and "owned src (own_sub self own)"
  shows "(\<exists>h'. var_copy self h = Ok (self, h') \<and> counted (own_add self own) h')
    \<and> (\<exists>h'. var_dtor self h = Ok h' \<and> counted (own_sub self own) h')
    \<and> (\<exists>h'. var_set self p h = Ok (p, h') \<and> counted (own_sub self own) h')
    \<and> (\<exists>h'. var_out self h = Ok (None, h') \<and> counted (own_sub self own) h')
    \<and> (\<exists>h'. var_assign self src h = Ok (src, h') \<and> counted (own_add src (own_sub self own)) h')"
proof -
  obtain h1 where h1: "incr_ptr self h = Ok h1" "counted (own_add self own) h1"
    using incr_ptr_counted [OF assms(1,2)] by blast
  obtain h2 where h2: "decr_ptr self h = Ok h2" "counted (own_sub self own) h2"
    using decr_ptr_counted [OF assms(1,2)] by blast
  obtain h3 where h3: "incr_ptr src h2 = Ok h3" "counted (own_add src (own_sub self own)) h3"
    using incr_ptr_counted [OF h2(2) assms(3)] by blast
  from h1 h2 h3 show ?thesis
    by (simp add: var_copy_def var_dtor_def var_set_def var_out_def var_assign_def)
qed

definition sample_heap :: "nat rmv_heap" where
  "sample_heap = [7 \<mapsto> new_rmv\<lparr>ref_count := 2\<rparr>, 8 \<mapsto> new_rmv]"

definition sample_owners :: "nat \<Rightarrow> nat" where
  "sample_owners = (\<lambda>a. if a = 7 then 2 else if a = 8 then 1 else 0)"

lemma sample_counted: "counted sample_owners sample_heap"
  by (simp add: counted_def sample_owners_def sample_heap_def new_rmv_def)

theorem smart_pointer_counts_witness:
  "\<exists>h'. var_assign (Some 8) (Some 7) sample_heap = Ok (Some 7, h')
     \<and> counted (own_add (Some 7) (own_sub (Some 8) sample_owners)) h'"
  using smart_pointer_counts [OF sample_counted, of "Some 8" "Some 7" None]
  by (simp add: sample_owners_def)

text \<open>
  Assigning a smart pointer that is the only owner of its value to itself frees the value
  and then touches it: \<open>operator=\<close> drops its reference before it takes the new one.
\<close>

theorem self_assign_use_after_free:
  assumes "counted own h" and "own a = 1"
  shows "var_assign (Some a) (Some a) h = Fault UseAfterFree"
proof -
  from decr_refcount_counted [OF assms(1), of a] assms(2) obtain h'
    where h': "decr_refcount a h = Ok (0, h')" "h' a = None" by auto
  then show ?thesis
    by (simp add: var_assign_def decr_ptr_def incr_ptr_def incr_refcount_def rmv_at_def)
qed

theorem self_assign_use_after_free_witness:
  "var_assign (Some 8) (Some 8) sample_heap = Fault UseAfterFree"
  using self_assign_use_after_free [OF sample_counted, of 8] by (simp add: sample_owners_def)

end
