(* ===== verification/RMVByMapped.thy ===== *)
theory RMVByMapped
  imports ReferenceMapValue
begin

text \<open>
  The table of reference map values (src/src/lorica/RMVByMapped.h and RMVByMapped.cpp). Values
  are stored by a 32-bit index in a linked list of pages of equal size; indices that were given
  up wait on a stack. A thread of the table pings every stored reference from time to time and
  removes the values whose object is gone.

  The table is a record with the source's members; the linked list of pages is the list of
  their contents, the stack a list. Its integers keep their width: \<open>num_pages_ * page_size_\<close> is
  a product of 32-bit words and wraps. The operations run on the table and the heap of values.

  \<open>table_ok pend t\<close> is the invariant, with the indices that were handed out and not bound yet as
  its first argument; \<open>store_ok\<close> adds that every slot that holds a value owns one reference to it.
  The locale \<open>index_store\<close> states what the mapper relies on; the table is its interpretation.
\<close>

record rmv_table =
  high_index :: "32 word"
  gc_period_secs :: int
  gc_terminated :: bool
  page_size :: "32 word"
  free_stack :: "32 word list"
  pages :: "nat option list list"
  num_pages :: "32 word"

type_synonym 'o rmv_store = "rmv_table \<times> 'o rmv_heap"

definition new_page :: "32 word \<Rightarrow> nat option list" where
  "new_page sz = replicate (unat sz) None"

definition new_table :: "int \<Rightarrow> 32 word \<Rightarrow> rmv_table" where
  "new_table gc_period sz = \<lparr>high_index = 0, gc_period_secs = gc_period, gc_terminated = False,
     page_size = sz, free_stack = [], pages = [new_page sz], num_pages = 1\<rparr>"

text \<open>The number of slots as the code computes it.\<close>

definition limit :: "rmv_table \<Rightarrow> 32 word" where
  "limit t = num_pages t * page_size t"

text \<open>
  \<open>next_index\<close>: the first index waiting on the stack, or a fresh one; a page is added when the
  index is beyond the last page. The stack's part is split in the read of its head and the
  \<open>pop\<close>, since the lock held here is not the one under which the other operations push.
\<close>

definition stack_head :: "rmv_table \<Rightarrow> 32 word option" where
  "stack_head t = (case free_stack t of [] \<Rightarrow> None | x # fs \<Rightarrow> Some x)"

definition stack_pop :: "rmv_table \<Rightarrow> rmv_table" where
  "stack_pop t = t\<lparr>free_stack := tl (free_stack t)\<rparr>"

definition stack_push :: "32 word \<Rightarrow> rmv_table \<Rightarrow> rmv_table" where
  "stack_push x t = t\<lparr>free_stack := x # free_stack t\<rparr>"

definition grow :: "32 word \<Rightarrow> rmv_table \<Rightarrow> rmv_table" where
  "grow rtn t = (if rtn \<ge> limit t
     then t\<lparr>num_pages := num_pages t + 1, pages := pages t @ [new_page (page_size t)]\<rparr> else t)"

definition next_index :: "rmv_table \<Rightarrow> 32 word \<times> rmv_table" where
  "next_index t = (case stack_head t of
       Some x \<Rightarrow> (x, grow x (stack_pop t))
     | None \<Rightarrow> (high_index t, grow (high_index t) (t\<lparr>high_index := high_index t + 1\<rparr>)))"

text \<open>\<open>find_page\<close> follows \<open>next_\<close> without a check for the end of the list.\<close>

fun find_page :: "nat option list list \<Rightarrow> 32 word \<Rightarrow> nat option list result" where
  "find_page [] count = Fault NullDeref"
| "find_page (p # ps) count = (if count = 0 then Ok p else find_page ps (count - 1))"

definition read_slot :: "rmv_table \<Rightarrow> 32 word \<Rightarrow> nat option result" where
  "read_slot t index =
     bindR (find_page (pages t) (index div page_size t)) (\<lambda>page.
       let ndx = unat (index mod page_size t) in
       if ndx < length page then Ok (page ! ndx) else Fault BadSubscript)"

definition set_slot :: "nat \<Rightarrow> nat \<Rightarrow> nat option \<Rightarrow> rmv_table \<Rightarrow> rmv_table" where
  "set_slot k j v t = t\<lparr>pages := (pages t)[k := (pages t ! k)[j := v]]\<rparr>"

definition write_slot :: "32 word \<Rightarrow> nat option \<Rightarrow> rmv_table \<Rightarrow> rmv_table" where
  "write_slot index v t =
     set_slot (unat (index div page_size t)) (unat (index mod page_size t)) v t"

definition bind :: "32 word \<Rightarrow> nat \<Rightarrow> 'o rmv_store \<Rightarrow> (bool \<times> 'o rmv_store) result" where
  "bind index value s = (case s of (t, h) \<Rightarrow>
     if index \<ge> limit t then Ok (False, s)
     else bindR (read_slot t index) (\<lambda>p.
       if p \<noteq> None then Ok (False, s)
       else bindR (incr_refcount value h) (\<lambda>h.
         Ok (True, write_slot index (Some value) t, h))))"

definition rebind :: "32 word \<Rightarrow> nat \<Rightarrow> 'o rmv_store \<Rightarrow> (bool \<times> 'o rmv_store) result" where
  "rebind index value s = (case s of (t, h) \<Rightarrow>
     if index \<ge> limit t then Ok (False, s)
     else bindR (read_slot t index) (\<lambda>p.
       bindR (decr_ptr p h) (\<lambda>h.
       bindR (incr_refcount value h) (\<lambda>h.
         Ok (True, write_slot index (Some value) t, h)))))"

text \<open>
  \<open>find\<close> and \<open>unbind\<close> answer through their argument: \<^term>\<open>None\<close> is the return value \<open>false\<close>, with
  the argument untouched. \<open>find\<close> takes a reference for the caller, \<open>unbind\<close> hands over the table's.
\<close>

definition find_rmv :: "32 word \<Rightarrow> 'o rmv_store \<Rightarrow> (nat option \<times> 'o rmv_store) result" where
  "find_rmv index s = (case s of (t, h) \<Rightarrow>
     if index \<ge> limit t then Ok (None, s)
     else bindR (read_slot t index) (\<lambda>p. case p of
         None \<Rightarrow> Ok (None, s)
       | Some a \<Rightarrow> bindR (incr_refcount a h) (\<lambda>h. Ok (Some a, t, h))))"

definition unbind :: "32 word \<Rightarrow> 'o rmv_store \<Rightarrow> (nat option \<times> 'o rmv_store) result" where
  "unbind index s = (case s of (t, h) \<Rightarrow>
     if index \<ge> limit t then Ok (None, s)
     else bindR (read_slot t index) (\<lambda>p. case p of
         None \<Rightarrow> Ok (None, s)
       | Some a \<Rightarrow> Ok (Some a, stack_push index (write_slot index None t), h)))"

subsection \<open>Garbage collection\<close>

text \<open>
  What \<open>_non_existent\<close> of the original reference gives is the argument \<open>ping\<close>: an answer,
  \<open>CORBA::BAD_OPERATION\<close>, or another CORBA exception. The call on a nil reference is a null
  dereference.
\<close>

datatype ping_result = Answer bool | BAD_OPERATION | OtherException

definition expired :: "('o \<Rightarrow> ping_result) \<Rightarrow> 'o option \<Rightarrow> bool result" where
  "expired ping ref = bindR (deref ref) (\<lambda>obj. Ok (case ping obj of
       Answer gone \<Rightarrow> gone | BAD_OPERATION \<Rightarrow> False | OtherException \<Rightarrow> True))"

text \<open>The recheck after the lock is taken again, and the removal.\<close>

definition gc_reap :: "nat \<Rightarrow> nat \<Rightarrow> nat \<Rightarrow> 'o rmv_store \<Rightarrow> 'o rmv_store result" where
  "gc_reap k j value s = (case s of (t, h) \<Rightarrow>
     if pages t ! k ! j = Some value
     then bindR (decr_refcount value h) (\<lambda>(n, h).
       Ok (stack_push (of_nat (k * unat (page_size t) + j)) (set_slot k j None t), h))
     else Ok s)"

text \<open>
  The thread in the steps that its lock separates: waiting for the period to end, at an element of a page (holding \<open>gc_control_lock_\<close>), and, with
  the lock released, calling \<open>_non_existent\<close> of the original object of a value, whose outcome is kept until the lock is taken again. The
  pages are read as they are at each step, also those that were added meanwhile.
\<close>

datatype gc_pc = Asleep | At nat nat | Pinging nat nat nat bool

fun gc_step :: "('o \<Rightarrow> ping_result) \<Rightarrow> gc_pc \<Rightarrow> 'o rmv_store \<Rightarrow> (gc_pc \<times> 'o rmv_store) result" where
  "gc_step ping Asleep s = Ok (if gc_terminated (fst s) then Asleep else At 0 0, s)"
| "gc_step ping (At k j) s = (case s of (t, h) \<Rightarrow>
     if gc_terminated t \<or> length (pages t) \<le> k then Ok (Asleep, s)
     else if unat (page_size t) \<le> j then Ok (At (k + 1) 0, s)
     else case pages t ! k ! j of
       None \<Rightarrow> Ok (At k (j + 1), s)
     | Some value \<Rightarrow> bindR (rmv_at h value) (\<lambda>v. bindR (expired ping (orig_ref v)) (\<lambda>e. Ok (Pinging k j value e, s))))"
| "gc_step ping (Pinging k j value e) s =
     bindR (if e then gc_reap k j value s else Ok s) (\<lambda>s. Ok (At k (j + 1), s))"

text \<open>
  The same without interruption: one element when no other thread uses the table while the lock is released, a whole collection and the
  thread's loop of such collections. \<open>gc_slot\<close> is two of the steps (\<open>gc_slot_steps\<close>).
\<close>

definition gc_slot :: "('o \<Rightarrow> ping_result) \<Rightarrow> nat \<Rightarrow> nat \<Rightarrow> 'o rmv_store \<Rightarrow> 'o rmv_store result" where
  "gc_slot ping k j s = (case s of (t, h) \<Rightarrow>
     (case pages t ! k ! j of
        None \<Rightarrow> Ok s
      | Some value \<Rightarrow>
          bindR (rmv_at h value) (\<lambda>v.
          bindR (expired ping (orig_ref v)) (\<lambda>e.
            if e then gc_reap k j value s else Ok s))))"

fun gc_slots ::
    "('o \<Rightarrow> ping_result) \<Rightarrow> (nat \<times> nat) list \<Rightarrow> 'o rmv_store \<Rightarrow> 'o rmv_store result" where
  "gc_slots ping [] s = Ok s"
| "gc_slots ping ((k, j) # kjs) s =
     (if gc_terminated (fst s) then Ok s
      else bindR (gc_slot ping k j s) (gc_slots ping kjs))"

definition all_slots :: "rmv_table \<Rightarrow> (nat \<times> nat) list" where
  "all_slots t = concat (map (\<lambda>k. map (Pair k) [0..<unat (page_size t)]) [0..<length (pages t)])"

definition gc_sweep :: "('o \<Rightarrow> ping_result) \<Rightarrow> 'o rmv_store \<Rightarrow> 'o rmv_store result" where
  "gc_sweep ping s = gc_slots ping (all_slots (fst s)) s"

text \<open>
  The thread's loop over the wake-ups of the condition variable: each is a timeout, with what the
  pings give in that sweep, or a signal, which ends the loop. No more wake-ups: it still waits.
\<close>

datatype 'o wakeup = Timeout "'o \<Rightarrow> ping_result" | Signalled

fun svc :: "'o wakeup list \<Rightarrow> 'o rmv_store \<Rightarrow> 'o rmv_store result" where
  "svc [] s = Ok s"
| "svc (w # ws) s =
     (if gc_terminated (fst s) then Ok s
      else case w of Signalled \<Rightarrow> Ok s | Timeout ping \<Rightarrow> bindR (gc_sweep ping s) (svc ws))"

text \<open>The destructor frees the pages and the stack; the values it held keep their references.\<close>

definition table_dtor :: "'o rmv_store \<Rightarrow> 'o rmv_heap" where
  "table_dtor s = snd s"

subsection \<open>The table as one sequence of slots\<close>

definition slots :: "rmv_table \<Rightarrow> nat option list" where
  "slots t = concat (pages t)"

definition geometry :: "rmv_table \<Rightarrow> bool" where
  "geometry t \<longleftrightarrow> 0 < unat (page_size t) \<and> length (pages t) = unat (num_pages t)
     \<and> (\<forall>p \<in> set (pages t). length p = unat (page_size t))
     \<and> unat (num_pages t) * unat (page_size t) < 2 ^ 32"

lemma geometry_length: "geometry t \<Longrightarrow> length (slots t) = unat (limit t)"
  using unat_mult_lem [of "num_pages t" "page_size t"] length_concat_pages [of "pages t"]
  by (auto simp: geometry_def slots_def limit_def)

lemma geometry_limit: "geometry t \<Longrightarrow> index \<ge> limit t \<longleftrightarrow> length (slots t) \<le> unat index"
  by (simp add: geometry_length word_le_nat_alt)

lemma find_page_nth: "unat c < length ps \<Longrightarrow> find_page ps c = Ok (ps ! unat c)"
proof (induction ps c rule: find_page.induct)
  case (2 p ps count)
  show ?case
  proof (cases "count = 0")
    case False
    then have "unat (count - 1) = unat count - 1" "unat count \<noteq> 0"
      by (simp_all add: unat_minus_one unat_eq_0)
    with 2 False show ?thesis by (auto simp: nth_Cons' )
  qed simp
qed simp

lemma slot_position:
  assumes "geometry t" and "unat i < length (slots t)"
  shows "unat (i div page_size t) < length (pages t)"
    and "unat (i mod page_size t) < unat (page_size t)"
    and "unat (i div page_size t) * unat (page_size t) + unat (i mod page_size t) = unat i"
proof -
  let ?n = "unat (page_size t)"
  have n: "0 < ?n" and len: "length (slots t) = length (pages t) * ?n"
    using assms(1) length_concat_pages [of "pages t"] by (auto simp: geometry_def slots_def)
  show "unat (i div page_size t) < length (pages t)"
    using assms(2) n len by (simp add: unat_div_distrib less_mult_imp_div_less)
  show "unat (i mod page_size t) < ?n" using n by (simp add: unat_mod_distrib)
  show "unat (i div page_size t) * ?n + unat (i mod page_size t) = unat i"
    by (simp add: unat_div_distrib unat_mod_distrib)
qed

lemma read_slot_flat:
  assumes "geometry t" and "unat i < length (slots t)"
  shows "read_slot t i = Ok (slots t ! unat i)"
proof -
  note pos = slot_position [OF assms]
  have len: "\<forall>p \<in> set (pages t). length p = unat (page_size t)"
    using assms(1) by (simp add: geometry_def)
  have "pages t ! unat (i div page_size t) ! unat (i mod page_size t) = slots t ! unat i"
    using concat_pages_nth [OF len pos(1,2)] pos(3) by (simp add: slots_def)
  with pos(1,2) len show ?thesis
    by (simp add: read_slot_def find_page_nth)
qed

lemma set_slot_flat:
  assumes "geometry t" and "k < length (pages t)" and "j < unat (page_size t)"
  shows "slots (set_slot k j v t) = (slots t)[k * unat (page_size t) + j := v]"
    and "geometry (set_slot k j v t)"
proof -
  have len: "\<forall>p \<in> set (pages t). length p = unat (page_size t)"
    using assms(1) by (simp add: geometry_def)
  show "slots (set_slot k j v t) = (slots t)[k * unat (page_size t) + j := v]"
    using concat_pages_update [OF len assms(2,3)] by (simp add: slots_def set_slot_def)
  show "geometry (set_slot k j v t)"
    using assms(1,2) len by (auto simp: geometry_def set_slot_def dest!: set_update_subset_insert [THEN subsetD])
qed

lemma write_slot_flat:
  assumes "geometry t" and "unat i < length (slots t)"
  shows "slots (write_slot i v t) = (slots t)[unat i := v]" and "geometry (write_slot i v t)"
  using set_slot_flat [OF assms(1) slot_position(1,2) [OF assms]] slot_position(3) [OF assms]
  by (simp_all add: write_slot_def)

subsection \<open>The invariant\<close>

definition table_ok :: "32 word set \<Rightarrow> rmv_table \<Rightarrow> bool" where
  "table_ok pend t \<longleftrightarrow> geometry t \<and> high_index t \<le> limit t
     \<and> distinct (free_stack t) \<and> set (free_stack t) \<inter> pend = {}
     \<and> (\<forall>x \<in> set (free_stack t) \<union> pend. x < high_index t \<and> slots t ! unat x = None)
     \<and> (\<forall>i. unat (high_index t) \<le> i \<and> i < length (slots t) \<longrightarrow> slots t ! i = None)"

text \<open>What the table maps an index to, and how many slots hold a value.\<close>

definition lookup :: "rmv_table \<Rightarrow> 32 word \<Rightarrow> nat option" where
  "lookup t i = (if unat i < length (slots t) then slots t ! unat i else None)"

definition slot_owners :: "rmv_table \<Rightarrow> nat \<Rightarrow> nat" where
  "slot_owners t a = count_list (slots t) (Some a)"

text \<open>The next index stays within the 32 bits of the table's size.\<close>

definition room :: "rmv_table \<Rightarrow> bool" where
  "room t \<longleftrightarrow> free_stack t \<noteq> [] \<or> high_index t < limit t
     \<or> unat (limit t) + unat (page_size t) < 2 ^ 32"

lemma table_ok_geometry: "table_ok pend t \<Longrightarrow> geometry t"
  by (simp add: table_ok_def)

lemma table_ok_free:
  assumes "table_ok pend t" and "x \<in> set (free_stack t) \<union> pend"
  shows "unat x < unat (high_index t)" and "unat x < length (slots t)" and "lookup t x = None"
proof -
  have "x < high_index t" "high_index t \<le> limit t" "slots t ! unat x = None"
    using assms by (auto simp: table_ok_def)
  then show "unat x < unat (high_index t)" "unat x < length (slots t)" "lookup t x = None"
    using geometry_length [OF table_ok_geometry [OF assms(1)]]
    by (auto simp: lookup_def word_less_nat_alt word_le_nat_alt)
qed

lemma new_table_ok:
  assumes "sz \<noteq> 0"
  shows "table_ok {} (new_table gc sz)" and "lookup (new_table gc sz) = (\<lambda>_. None)"
    and "slot_owners (new_table gc sz) = (\<lambda>_. 0)"
proof -
  have g: "geometry (new_table gc sz)" using assms unsigned_less [of sz]
    by (simp add: geometry_def new_table_def new_page_def unat_gt_0)
  have s: "slots (new_table gc sz) = replicate (unat sz) None"
    by (simp add: slots_def new_table_def new_page_def)
  show "table_ok {} (new_table gc sz)" using g s
    by (simp add: table_ok_def) (simp add: new_table_def)
  show "lookup (new_table gc sz) = (\<lambda>_. None)" by (auto simp: lookup_def s)
  show "slot_owners (new_table gc sz) = (\<lambda>_. 0)"
    by (auto simp: slot_owners_def s count_list_0_iff)
qed

text \<open>Adding a page leaves every slot as it is.\<close>

lemma grow_below: "x < limit t \<Longrightarrow> grow x t = t"
  by (simp add: grow_def)

lemma grow_at_limit:
  assumes "geometry t" and "unat (limit t) + unat (page_size t) < 2 ^ 32"
  shows "geometry (grow (limit t) t)"
    and "slots (grow (limit t) t) = slots t @ replicate (unat (page_size t)) None"
    and "unat (limit (grow (limit t) t)) = unat (limit t) + unat (page_size t)"
proof -
  let ?n = "unat (page_size t)" and ?m = "unat (num_pages t)"
  have n: "0 < ?n" "unat (limit t) = ?m * ?n"
    using geometry_length [OF assms(1)] length_concat_pages [of "pages t"] assms(1)
    by (auto simp: geometry_def slots_def)
  then have lt: "?m * ?n + ?n < 2 ^ 32" using assms(2) by simp
  with n(1) have "?m + 1 < 2 ^ 32" using mult_le_mono2 [of 1 ?n "?m + 1"] by simp
  then have m: "unat (num_pages t + 1) = ?m + 1"
    by (simp add: unat_plus_if_size word_size)
  show g: "geometry (grow (limit t) t)"
    using assms(1) lt m by (auto simp: geometry_def grow_def new_page_def)
  show sl: "slots (grow (limit t) t) = slots t @ replicate ?n None"
    by (simp add: slots_def grow_def new_page_def)
  show "unat (limit (grow (limit t) t)) = unat (limit t) + ?n"
    using geometry_length [OF g] geometry_length [OF assms(1)] sl by simp
qed

lemma lookup_append_None:
  "slots t' = slots t @ replicate n None \<Longrightarrow> lookup t' = lookup t"
  by (auto simp: lookup_def nth_append)

lemma slot_owners_append_None:
  "slots t' = slots t @ replicate n None \<Longrightarrow> slot_owners t' = slot_owners t"
  by (auto simp: slot_owners_def count_list_0_iff)

lemma slots_only_pages [simp]:
  "slots (stack_pop t) = slots t" "slots (stack_push x t) = slots t"
  "slots (t\<lparr>high_index := w\<rparr>) = slots t"
  "limit (stack_pop t) = limit t" "limit (stack_push x t) = limit t"
  "limit (t\<lparr>high_index := w\<rparr>) = limit t"
  "geometry (stack_pop t) = geometry t" "geometry (stack_push x t) = geometry t"
  "geometry (t\<lparr>high_index := w\<rparr>) = geometry t"
  "high_index (stack_pop t) = high_index t" "high_index (stack_push x t) = high_index t"
  "free_stack (stack_push x t) = x # free_stack t" "free_stack (stack_pop t) = tl (free_stack t)"
  "page_size (stack_push x t) = page_size t" "page_size (stack_pop t) = page_size t"
  "pages (stack_push x t) = pages t" "gc_terminated (stack_push x t) = gc_terminated t"
  by (simp_all add: slots_def limit_def geometry_def stack_pop_def stack_push_def)

lemma write_slot_keeps [simp]:
  "limit (write_slot i v t) = limit t" "high_index (write_slot i v t) = high_index t"
  "free_stack (write_slot i v t) = free_stack t"
  "limit (set_slot k j v t) = limit t" "high_index (set_slot k j v t) = high_index t"
  "free_stack (set_slot k j v t) = free_stack t" "page_size (set_slot k j v t) = page_size t"
  "length (pages (set_slot k j v t)) = length (pages t)"
  "gc_terminated (set_slot k j v t) = gc_terminated t"
  by (simp_all add: write_slot_def set_slot_def limit_def)

lemma grow_keeps [simp]:
  "high_index (grow x t) = high_index t" "free_stack (grow x t) = free_stack t"
  by (simp_all add: grow_def)

lemma next_index_reused:
  assumes "table_ok pend t" and "free_stack t = x # fs"
  shows "next_index t = (x, stack_pop t)" and "x \<notin> pend"
    and "table_ok (insert x pend) (stack_pop t)"
proof -
  have "x < limit t"
    using table_ok_free(2) [OF assms(1), of x] geometry_length [OF table_ok_geometry [OF assms(1)]]
      assms(2) by (simp add: word_less_nat_alt)
  then show "next_index t = (x, stack_pop t)"
    by (simp add: next_index_def stack_head_def assms(2) grow_below)
  show "x \<notin> pend" using assms by (auto simp: table_ok_def)
  show "table_ok (insert x pend) (stack_pop t)"
    using assms by (auto simp: table_ok_def)
qed

text \<open>A fresh index: the table after it, whether or not a page had to be added.\<close>

lemma next_index_fresh:
  assumes "table_ok pend t" and "free_stack t = []" and "room t"
  shows "\<exists>t' n. next_index t = (high_index t, t') \<and> slots t' = slots t @ replicate n None
    \<and> geometry t' \<and> free_stack t' = [] \<and> high_index t' = high_index t + 1
    \<and> unat (high_index t) < length (slots t')"
proof -
  let ?hi = "t\<lparr>high_index := high_index t + 1\<rparr>"
  have g: "geometry t" and le: "high_index t \<le> limit t" using assms(1) by (auto simp: table_ok_def)
  have ni: "next_index t = (high_index t, grow (high_index t) ?hi)"
    by (simp add: next_index_def stack_head_def assms(2))
  show ?thesis
  proof (cases "high_index t < limit t")
    case True
    with ni g assms(2) geometry_length [OF g] show ?thesis
      by (intro exI [of _ ?hi] exI [of _ 0]) (simp add: grow_below word_less_nat_alt)
  next
    case False
    then have eq: "high_index t = limit ?hi" using le by (simp add: antisym)
    have big: "unat (limit ?hi) + unat (page_size ?hi) < 2 ^ 32"
      using assms(2,3) False by (simp add: room_def)
    have gh: "geometry ?hi" using g by simp
    have pos: "0 < unat (page_size t)" using g by (simp add: geometry_def)
    have "unat (high_index t) = length (slots t)" using eq geometry_length [OF g] by simp
    with grow_at_limit [OF gh big] ni eq assms(2) pos show ?thesis
      by (intro exI [of _ "grow (limit ?hi) ?hi"] exI [of _ "unat (page_size t)"]) simp
  qed
qed

lemma high_index_step:
  assumes "geometry t'" and "unat w < length (slots t')"
  shows "unat (w + 1) = unat w + 1" and "w + 1 \<le> limit t'"
proof -
  have "unat (limit t') < 2 ^ LENGTH(32)" by (rule unsigned_less)
  with assms geometry_length [OF assms(1)] have "unat w + 1 < 2 ^ 32" by simp
  then show e: "unat (w + 1) = unat w + 1" by (simp add: unat_plus_if_size word_size)
  show "w + 1 \<le> limit t'" using assms geometry_length [OF assms(1)] e by (simp add: word_le_nat_alt)
qed

lemma next_index_ok:
  assumes "table_ok pend t" and "room t"
  shows "\<exists>i t'. next_index t = (i, t') \<and> i \<notin> pend \<and> lookup t i = None \<and> lookup t' = lookup t
    \<and> slot_owners t' = slot_owners t \<and> table_ok (insert i pend) t'"
proof (cases "free_stack t")
  case (Cons x fs)
  have "lookup t x = None" using table_ok_free(3) [OF assms(1), of x] Cons by simp
  with next_index_reused [OF assms(1) Cons] show ?thesis
    by (simp add: lookup_def slot_owners_def fun_eq_iff)
next
  case Nil
  let ?w = "high_index t"
  obtain t' n where t': "next_index t = (?w, t')" "slots t' = slots t @ replicate n None"
    "geometry t'" "free_stack t' = []" "high_index t' = ?w + 1" "unat ?w < length (slots t')"
    using next_index_fresh [OF assms(1) Nil assms(2)] by blast
  have pend: "\<forall>x \<in> pend. unat x < unat ?w \<and> unat x < length (slots t) \<and> slots t ! unat x = None"
    using table_ok_free [OF assms(1)] by (auto simp: lookup_def)
  have new: "\<forall>i. unat ?w \<le> i \<and> i < length (slots t') \<longrightarrow> slots t' ! i = None"
    using assms(1) t'(2) by (auto simp: table_ok_def nth_append)
  note step = high_index_step [OF t'(3,6)]
  have "table_ok (insert ?w pend) t'"
    using t'(2-6) pend new step
    by (auto simp: table_ok_def word_less_nat_alt word_le_nat_alt nth_append)
  moreover have "lookup t ?w = None" using assms(1) by (auto simp: lookup_def table_ok_def)
  moreover have "?w \<notin> pend" using pend by blast
  ultimately show ?thesis
    using t'(1) lookup_append_None [OF t'(2)] slot_owners_append_None [OF t'(2)] by blast
qed

subsection \<open>Table and heap together\<close>

definition store_ok :: "32 word set \<Rightarrow> (nat \<Rightarrow> nat) \<Rightarrow> 'o rmv_store \<Rightarrow> bool" where
  "store_ok pend own s \<longleftrightarrow>
     table_ok pend (fst s) \<and> counted (\<lambda>a. own a + slot_owners (fst s) a) (snd s)"

text \<open>The values of the heap without their counts.\<close>

definition contents :: "'o rmv_heap \<Rightarrow> nat \<Rightarrow> 'o rmv option" where
  "contents h a = map_option (\<lambda>v. v\<lparr>ref_count := 0\<rparr>) (h a)"

lemma contents_upd_count:
  "h a = Some v \<Longrightarrow> contents (h(a \<mapsto> v\<lparr>ref_count := n\<rparr>)) = contents h"
  by (auto simp: contents_def fun_eq_iff)

lemma incr_refcount_store:
  assumes "counted own h" and "0 < own a"
  shows "\<exists>h'. incr_refcount a h = Ok h' \<and> counted (own(a := own a + 1)) h' \<and> contents h' = contents h"
  using incr_refcount_counted [OF assms] contents_upd_count by blast

lemma decr_refcount_store:
  assumes "counted own h" and "0 < own a"
  shows "\<exists>h'. decr_refcount a h = Ok (int (own a) - 1, h') \<and> counted (own(a := own a - 1)) h'
    \<and> (\<forall>b. contents h' b = (if b = a \<and> own a = 1 then None else contents h b))"
proof -
  obtain h' where h': "decr_refcount a h = Ok (int (own a) - 1, h')" "counted (own(a := own a - 1)) h'"
    "h' a = None \<longleftrightarrow> own a = 1" "\<forall>b. b \<noteq> a \<longrightarrow> h' b = h b"
    "own a \<noteq> 1 \<longrightarrow> (\<exists>v. h a = Some v \<and> h' a = Some (v\<lparr>ref_count := int (own a) - 1\<rparr>))"
    using decr_refcount_counted [OF assms] by (elim exE conjE) (rule that)
  have "contents h' b = (if b = a \<and> own a = 1 then None else contents h b)" for b
    using h'(3-5) by (cases "b = a") (auto simp: contents_def)
  with h'(1,2) show ?thesis by blast
qed

lemma lookup_write:
  assumes "geometry t" and "unat i < length (slots t)"
  shows "lookup (write_slot i v t) = (lookup t)(i := v)"
  using assms by (auto simp: lookup_def write_slot_flat nth_list_update fun_eq_iff unat_eq_unat)

lemma slot_owners_write:
  assumes "geometry t" and "unat i < length (slots t)"
  shows "slot_owners (write_slot i v t) a + (if lookup t i = Some a then 1 else 0)
       = slot_owners t a + (if v = Some a then 1 else 0)"
  using count_list_update [OF assms(2), of v "Some a"] assms
  by (simp add: lookup_def slot_owners_def write_slot_flat)

lemma slot_owners_pos: "lookup t i = Some a \<Longrightarrow> 0 < slot_owners t a"
  by (metis count_list_0_iff lookup_def not_gr0 nth_mem option.distinct(1) slot_owners_def)

lemma table_ok_write_pending:
  assumes "table_ok pend t" and "i \<in> pend"
  shows "table_ok (pend - {i}) (write_slot i v t)"
proof -
  note g = table_ok_geometry [OF assms(1)]
  have i: "unat i < length (slots t)" "unat i < unat (high_index t)"
    using table_ok_free [OF assms(1), of i] assms(2) by auto
  have "i \<notin> set (free_stack t)" using assms by (auto simp: table_ok_def)
  then show ?thesis
    using assms(1) i write_slot_flat [OF g i(1), of v]
    by (auto simp: table_ok_def nth_list_update unat_eq_unat)
qed

lemma table_ok_write_bound:
  assumes "table_ok pend t" and "lookup t i = Some b"
  shows "unat i < length (slots t)" and "table_ok pend (write_slot i (Some a) t)"
    and "table_ok pend (stack_push i (write_slot i None t))"
proof -
  note g = table_ok_geometry [OF assms(1)]
  show i: "unat i < length (slots t)" using assms(2) by (auto simp: lookup_def split: if_splits)
  have hi: "unat i < unat (high_index t)"
    using assms i by (auto simp: lookup_def table_ok_def not_less [symmetric])
  have nf: "i \<notin> set (free_stack t) \<union> pend" using table_ok_free(3) [OF assms(1)] assms(2) by force
  show "table_ok pend (write_slot i (Some a) t)"
    using assms(1) i hi nf write_slot_flat [OF g i]
    by (auto simp: table_ok_def nth_list_update unat_eq_unat)
  show "table_ok pend (stack_push i (write_slot i None t))"
    using assms(1) i hi nf write_slot_flat [OF g i]
    by (auto simp: table_ok_def nth_list_update unat_eq_unat word_less_nat_alt)
qed

text \<open>Reading a slot behind the check of the limit is the lookup.\<close>

lemma guarded_read:
  assumes "table_ok pend t"
  shows "(if index \<ge> limit t then x else bindR (read_slot t index) f)
    = (if unat index < length (slots t) then f (lookup t index) else x)"
  using geometry_limit [OF table_ok_geometry [OF assms], of index]
    read_slot_flat [OF table_ok_geometry [OF assms], of index]
  by (auto simp: lookup_def)

lemma stack_push_view [simp]:
  "lookup (stack_push x t) = lookup t" "slot_owners (stack_push x t) = slot_owners t"
  "lookup (stack_pop t) = lookup t" "slot_owners (stack_pop t) = slot_owners t"
  by (simp_all add: lookup_def slot_owners_def fun_eq_iff)

lemma counted_cong: "counted own h \<Longrightarrow> (\<And>a. own a = own' a) \<Longrightarrow> counted own' h"
  by (metis ext)

lemma store_okD:
  assumes "store_ok pend own (t, h)"
  shows "table_ok pend t" and "counted (\<lambda>a. own a + slot_owners t a) h"
  using assms by (simp_all add: store_ok_def)

lemma store_ok_alloc:
  assumes "store_ok pend own (t, h)" and "h a = None" and "ref_count v = 1"
  shows "store_ok pend (own(a := 1)) (t, h(a \<mapsto> v))"
proof -
  note ok = store_okD [OF assms(1)]
  have z: "own a + slot_owners t a = 0" using counted_live [OF ok(2), of a] assms(2) by simp
  have "counted ((\<lambda>b. own b + slot_owners t b)(a := 1)) (h(a \<mapsto> v))"
    by (rule counted_upd [OF ok(2)]) (simp_all add: assms(3))
  then have "counted (\<lambda>b. (own(a := 1)) b + slot_owners t b) (h(a \<mapsto> v))"
    by (rule counted_cong) (use z in simp)
  with ok(1) show ?thesis by (simp add: store_ok_def)
qed

text \<open>The operations on a store that satisfies the invariant, one lemma each.\<close>

lemma bind_pending:
  assumes "store_ok pend own (t, h)" and "i \<in> pend" and "0 < own a"
  shows "\<exists>t' h'. bind i a (t, h) = Ok (True, t', h') \<and> lookup t' = (lookup t)(i \<mapsto> a)
    \<and> contents h' = contents h \<and> store_ok (pend - {i}) own (t', h')"
proof -
  note ok = store_okD [OF assms(1)]
  have i: "unat i < length (slots t)" "lookup t i = None"
    using table_ok_free [OF ok(1), of i] assms(2) by auto
  obtain h' where h': "incr_refcount a h = Ok h'" "contents h' = contents h"
    "counted ((\<lambda>a. own a + slot_owners t a)(a := own a + slot_owners t a + 1)) h'"
    using incr_refcount_store [OF ok(2), of a] assms(3) by auto
  let ?t = "write_slot i (Some a) t"
  have "slot_owners ?t b = slot_owners t b + (if a = b then 1 else 0)" for b
    using slot_owners_write [OF table_ok_geometry [OF ok(1)] i(1), of "Some a" b] i(2) by simp
  then have "counted (\<lambda>b. own b + slot_owners ?t b) h'"
    by (intro counted_cong [OF h'(3)]) simp
  with table_ok_write_pending [OF ok(1) assms(2)] h'(1,2)
    lookup_write [OF table_ok_geometry [OF ok(1)] i(1)] i
  show ?thesis by (simp add: bind_def guarded_read [OF ok(1)] store_ok_def)
qed

lemma bind_taken:
  assumes "store_ok pend own (t, h)" and "lookup t i \<noteq> None"
  shows "bind i a (t, h) = Ok (False, t, h)"
  using assms(2) by (simp add: bind_def guarded_read [OF store_okD(1) [OF assms(1)]])

lemma rebind_bound:
  assumes "store_ok pend own (t, h)" and "lookup t i = Some b" and "0 < own a"
  shows "\<exists>t' h'. rebind i a (t, h) = Ok (True, t', h') \<and> lookup t' = (lookup t)(i \<mapsto> a)
    \<and> (\<forall>c. h' c \<noteq> None \<longrightarrow> contents h' c = contents h c) \<and> store_ok pend own (t', h')"
proof -
  note ok = store_okD [OF assms(1)]
  note w = table_ok_write_bound [OF ok(1) assms(2)]
  let ?o = "\<lambda>c. own c + slot_owners t c" and ?t = "write_slot i (Some a) t"
  have b: "0 < ?o b" using slot_owners_pos [OF assms(2)] by simp
  obtain h1 where h1: "decr_refcount b h = Ok (int (?o b) - 1, h1)" "counted (?o(b := ?o b - 1)) h1"
    "\<forall>c. contents h1 c = (if c = b \<and> ?o b = 1 then None else contents h c)"
    using decr_refcount_store [OF ok(2) b] by blast
  have "0 < (?o(b := ?o b - 1)) a" using assms(3) slot_owners_pos [OF assms(2)] by (cases "a = b") auto
  then obtain h2 where h2: "incr_refcount a h1 = Ok h2"
    "counted ((?o(b := ?o b - 1))(a := (?o(b := ?o b - 1)) a + 1)) h2"
    "contents h2 = contents h1"
    using incr_refcount_store [OF h1(2)] by blast
  have keep: "contents h2 c = contents h c" if "h2 c \<noteq> None" for c
  proof -
    have "contents h2 c \<noteq> None" using that by (simp add: contents_def)
    with h2(3) spec [OF h1(3), of c] show ?thesis by (auto split: if_splits)
  qed
  have "((?o(b := ?o b - 1))(a := (?o(b := ?o b - 1)) a + 1)) c = own c + slot_owners ?t c" for c
    using slot_owners_write [OF table_ok_geometry [OF ok(1)] w(1), of "Some a" c] assms(2)
      slot_owners_pos [OF assms(2)] by (cases "c = a"; cases "c = b") auto
  from counted_cong [OF h2(2) this] have "counted (\<lambda>c. own c + slot_owners ?t c) h2" .
  with w h1(1) h2(1) keep lookup_write [OF table_ok_geometry [OF ok(1)] w(1)] assms(2)
  show ?thesis by (simp add: rebind_def guarded_read [OF ok(1)] decr_ptr_def store_ok_def)
qed

lemma find_rmv_ok:
  assumes "store_ok pend own (t, h)"
  shows "\<exists>h'. find_rmv i (t, h) = Ok (lookup t i, t, h') \<and> contents h' = contents h
    \<and> store_ok pend (own_add (lookup t i) own) (t, h')"
proof (cases "lookup t i")
  case None
  with assms show ?thesis by (simp add: find_rmv_def guarded_read [OF store_okD(1) [OF assms]])
next
  case (Some a)
  note ok = store_okD [OF assms]
  have "unat i < length (slots t)" using Some by (auto simp: lookup_def split: if_splits)
  moreover obtain h' where h': "incr_refcount a h = Ok h'" "contents h' = contents h"
    "counted ((\<lambda>a. own a + slot_owners t a)(a := own a + slot_owners t a + 1)) h'"
    using incr_refcount_store [OF ok(2), of a] slot_owners_pos [OF Some] by auto
  moreover have "counted (\<lambda>b. (own(a := own a + 1)) b + slot_owners t b) h'"
    by (intro counted_cong [OF h'(3)]) simp
  ultimately show ?thesis using Some ok(1)
    by (simp add: find_rmv_def guarded_read [OF ok(1)] store_ok_def)
qed

lemma unbind_ok:
  assumes "store_ok pend own (t, h)"
  shows "\<exists>t'. unbind i (t, h) = Ok (lookup t i, t', h) \<and> lookup t' = (lookup t)(i := None)
    \<and> store_ok pend (own_add (lookup t i) own) (t', h)
    \<and> (lookup t i \<noteq> None \<longrightarrow> free_stack t' = i # free_stack t)"
proof (cases "lookup t i")
  case None
  with assms show ?thesis
    by (auto simp: unbind_def guarded_read [OF store_okD(1) [OF assms]] fun_eq_iff)
next
  case (Some a)
  note ok = store_okD [OF assms]
  note w = table_ok_write_bound [OF ok(1) Some]
  let ?t = "stack_push i (write_slot i None t)"
  have "slot_owners (write_slot i None t) b + (if a = b then 1 else 0) = slot_owners t b" for b
    using slot_owners_write [OF table_ok_geometry [OF ok(1)] w(1), of None b] Some by simp
  then have "slot_owners t b = slot_owners ?t b + (if a = b then 1 else 0)" for b
    by simp
  then have "counted (\<lambda>b. (own(a := own a + 1)) b + slot_owners ?t b) h"
    by (intro counted_cong [OF ok(2)]) simp
  moreover have "lookup ?t = (lookup t)(i := None)"
    using lookup_write [OF table_ok_geometry [OF ok(1)] w(1), of None] by simp
  ultimately show ?thesis using Some w(1,3)
    by (simp add: unbind_def guarded_read [OF ok(1)] store_ok_def)
qed

subsection \<open>What a client of the table relies on\<close>

text \<open>
  The contract of a store of counted values by index. \<open>ok pend own s\<close> holds of a store whose
  pending indices are \<open>pend\<close> and whose values have \<open>own\<close> owners outside of it; \<open>look\<close> is the
  map it implements and \<open>cont\<close> the values themselves.
\<close>

locale index_store =
  fixes ok :: "32 word set \<Rightarrow> (nat \<Rightarrow> nat) \<Rightarrow> 's \<Rightarrow> bool"
    and look :: "'s \<Rightarrow> 32 word \<Rightarrow> nat option"
    and cont :: "'s \<Rightarrow> nat \<Rightarrow> 'v option"
    and has_room :: "'s \<Rightarrow> bool"
    and new_index :: "'s \<Rightarrow> 32 word \<times> 's"
    and bind_value :: "32 word \<Rightarrow> nat \<Rightarrow> 's \<Rightarrow> (bool \<times> 's) result"
    and find_value :: "32 word \<Rightarrow> 's \<Rightarrow> (nat option \<times> 's) result"
    and unbind_value :: "32 word \<Rightarrow> 's \<Rightarrow> (nat option \<times> 's) result"
  assumes new_index_law: "ok pend own s \<Longrightarrow> has_room s \<Longrightarrow>
      \<exists>i s'. new_index s = (i, s') \<and> i \<notin> pend \<and> look s i = None \<and> look s' = look s
        \<and> cont s' = cont s \<and> ok (insert i pend) own s'"
    and bind_law: "ok pend own s \<Longrightarrow> i \<in> pend \<Longrightarrow> 0 < own a \<Longrightarrow>
      \<exists>s'. bind_value i a s = Ok (True, s') \<and> look s' = (look s)(i \<mapsto> a)
        \<and> cont s' = cont s \<and> ok (pend - {i}) own s'"
    and find_law: "ok pend own s \<Longrightarrow>
      \<exists>s'. find_value i s = Ok (look s i, s') \<and> look s' = look s
        \<and> cont s' = cont s \<and> ok pend (own_add (look s i) own) s'"
    and unbind_law: "ok pend own s \<Longrightarrow>
      \<exists>s'. unbind_value i s = Ok (look s i, s') \<and> look s' = (look s)(i := None)
        \<and> cont s' = cont s \<and> ok pend (own_add (look s i) own) s'"
begin

lemma add_new:
  assumes "ok pend own s" and "has_room s" and "0 < own a" and "i = fst (new_index s)"
  shows "\<exists>s1 s2. new_index s = (i, s1) \<and> bind_value i a s1 = Ok (True, s2)
    \<and> i \<notin> pend \<and> look s i = None \<and> look s2 = (look s)(i \<mapsto> a) \<and> cont s2 = cont s \<and> ok pend own s2"
proof -
  obtain s1 where s1: "new_index s = (i, s1)" "i \<notin> pend" "look s i = None" "look s1 = look s"
    "cont s1 = cont s" "ok (insert i pend) own s1"
    using new_index_law [OF assms(1,2)] assms(4) by auto
  obtain s2 where s2: "bind_value i a s1 = Ok (True, s2)" "look s2 = (look s1)(i \<mapsto> a)"
    "cont s2 = cont s1" "ok (insert i pend - {i}) own s2"
    using bind_law [OF s1(6) insertI1 assms(3)] by blast
  with s1 show ?thesis by (metis Diff_insert_absorb)
qed

lemma add_find:
  assumes "ok pend own s" and "has_room s" and "0 < own a" and "new_index s = (i, s1)"
    and "bind_value i a s1 = Ok (b, s2)"
  shows "b \<and> (\<exists>s3. find_value i s2 = Ok (Some a, s3) \<and> cont s3 = cont s \<and> look s3 = (look s)(i \<mapsto> a)
    \<and> ok pend (own(a := own a + 1)) s3)"
proof -
  have b: b and s2: "look s2 = (look s)(i \<mapsto> a)" "cont s2 = cont s" "ok pend own s2"
    using add_new [OF assms(1-3)] assms(4,5) by auto
  from find_law [OF s2(3), of i] s2(1,2) b show ?thesis by auto
qed

lemma add_unbind:
  assumes "ok pend own s" and "has_room s" and "0 < own a" and "new_index s = (i, s1)"
    and "bind_value i a s1 = Ok (b, s2)"
  shows "\<exists>s3. unbind_value i s2 = Ok (Some a, s3) \<and> look s3 = look s
    \<and> ok pend (own(a := own a + 1)) s3"
proof -
  have s2: "look s i = None" "look s2 = (look s)(i \<mapsto> a)" "ok pend own s2"
    using add_new [OF assms(1-3)] assms(4,5) by auto
  obtain s3 where "unbind_value i s2 = Ok (Some a, s3)" "look s3 = (look s2)(i := None)"
    "ok pend (own(a := own a + 1)) s3"
    using unbind_law [OF s2(3), of i] s2(2) by auto
  with s2(1,2) show ?thesis by (intro exI [of _ s3]) auto
qed

lemma unbind_find:
  assumes "ok pend own s" and "unbind_value i s = Ok (p, s1)"
  shows "\<exists>s2. find_value i s1 = Ok (None, s2) \<and> look s2 = look s1"
proof -
  from unbind_law [OF assms(1), of i] assms(2)
  have "look s1 = (look s)(i := None)" "ok pend (own_add (look s i) own) s1" by auto
  with find_law [of pend "own_add (look s i) own" s1 i] show ?thesis by auto
qed

end

definition store_next :: "'o rmv_store \<Rightarrow> 32 word \<times> 'o rmv_store" where
  "store_next s = (case next_index (fst s) of (i, t) \<Rightarrow> (i, t, snd s))"

definition store_lookup :: "'o rmv_store \<Rightarrow> 32 word \<Rightarrow> nat option" where
  "store_lookup s = lookup (fst s)"

definition store_contents :: "'o rmv_store \<Rightarrow> nat \<Rightarrow> 'o rmv option" where
  "store_contents s = contents (snd s)"

definition store_room :: "'o rmv_store \<Rightarrow> bool" where
  "store_room s = room (fst s)"

lemmas store_view = store_lookup_def store_contents_def store_room_def

lemma store_next_ok:
  assumes "store_ok pend own s" and "store_room s"
  shows "\<exists>i s'. store_next s = (i, s') \<and> i \<notin> pend \<and> store_lookup s i = None
    \<and> store_lookup s' = store_lookup s \<and> store_contents s' = store_contents s
    \<and> store_ok (insert i pend) own s'"
proof -
  obtain t h where s: "s = (t, h)" by (cases s)
  with assms obtain i t' where "next_index t = (i, t')" "i \<notin> pend" "lookup t i = None"
    "lookup t' = lookup t" "slot_owners t' = slot_owners t" "table_ok (insert i pend) t'"
    using next_index_ok [of pend t] by (auto simp: store_ok_def store_room_def)
  with assms s show ?thesis by (simp add: store_next_def store_view store_ok_def)
qed

interpretation table: index_store store_ok store_lookup store_contents store_room store_next
  bind find_rmv unbind
proof (unfold_locales, goal_cases)
  case (1 pend own s) then show ?case by (rule store_next_ok)
next
  case (2 pend own s i a)
  then show ?case using bind_pending [of pend own "fst s" "snd s" i a] by (force simp: store_view)
next
  case (3 pend own s i)
  then show ?case using find_rmv_ok [of pend own "fst s" "snd s" i] by (force simp: store_view)
next
  case (4 pend own s i)
  then show ?case using unbind_ok [of pend own "fst s" "snd s" i] by (force simp: store_view)
qed

end
