(* ===== verification/ProxyMapper.thy ===== *)
theory ProxyMapper
  imports RMVByMapped MapperRegistry
begin

text \<open>
  The proxy mappers (src/src/lorica/ProxyMapper.h, ProxyMapper.cpp, NullProxyMapper.cpp, the evaluator
  selection of GenericMapper.cpp and EvaluatorBase.cpp, and the mapping functions of
  MapperRegistry.cpp). A mapper turns the reference of a native object into one that the proxy
  serves, and finds the native reference for an incoming request again.

  It works in two ways. With a table of values (\<open>CacheProxyReferences\<close>), the object id of the mapped
  reference is a structure of 16 bytes with the index of the value. Without, the object id is the
  stringified native reference.

  The object request broker is not part of the sources: \<open>broker\<close> is a record of the calls that the code
  makes, and \<open>broker_ok\<close> states what the code relies on. Object references are opaque and never nil
  here. A chain of mappers is the list of its mappers in the order of their links. The values
  are on the heap of \<open>ReferenceMapValue\<close>; the address of a new value is an argument.
\<close>

subsection \<open>The object id\<close>

record mapped_id =
  magic :: "8 word list"
  version :: "8 word"
  in_out :: "8 word"
  pid :: "16 word"
  index :: "32 word"
  hostid :: "32 word"

text \<open>The bytes of a machine word in the byte order of the host.\<close>

definition byte_at :: "nat \<Rightarrow> nat \<Rightarrow> 8 word" where
  "byte_at k n = of_nat (n div 256 ^ k)"

definition bytes16 :: "bool \<Rightarrow> 16 word \<Rightarrow> 8 word list" where
  "bytes16 big w = (let bs = map (\<lambda>k. byte_at k (unat w)) [0, 1] in if big then rev bs else bs)"

definition bytes32 :: "bool \<Rightarrow> 32 word \<Rightarrow> 8 word list" where
  "bytes32 big w = (let bs = map (\<lambda>k. byte_at k (unat w)) [0, 1, 2, 3] in if big then rev bs else bs)"

fun byte_sum :: "8 word list \<Rightarrow> nat" where
  "byte_sum [] = 0"
| "byte_sum (b # bs) = unat b + 256 * byte_sum bs"

definition word_of_bytes :: "bool \<Rightarrow> 8 word list \<Rightarrow> 'a::len word" where
  "word_of_bytes big bs = of_nat (byte_sum (if big then rev bs else bs))"

definition MAGIC :: "8 word list" where
  "MAGIC = [76, 82, 67, 65]"

definition id_size :: nat where
  "id_size = 16"

text \<open>The layout of \<open>MappedObjectId\<close> in memory, as \<open>memcpy\<close> copies it.\<close>

definition encode_id :: "bool \<Rightarrow> mapped_id \<Rightarrow> 8 word list" where
  "encode_id big m =
     magic m @ [version m, in_out m] @ bytes16 big (pid m) @ bytes32 big (index m) @ bytes32 big (hostid m)"

definition decode_id :: "bool \<Rightarrow> 8 word list \<Rightarrow> mapped_id" where
  "decode_id big bs = \<lparr>magic = take 4 bs, version = bs ! 4, in_out = bs ! 5,
     pid = word_of_bytes big (take 2 (drop 6 bs)), index = word_of_bytes big (take 4 (drop 8 bs)),
     hostid = word_of_bytes big (take 4 (drop 12 bs))\<rparr>"

text \<open>Reading \<open>index\<close> through a cast of the buffer: only the first twelve bytes are needed.\<close>

definition index_of_id :: "bool \<Rightarrow> 8 word list \<Rightarrow> 32 word result" where
  "index_of_id big bs =
     (if length bs < 12 then Fault BadSubscript else Ok (word_of_bytes big (take 4 (drop 8 bs))))"

subsection \<open>The broker\<close>

record ('o, 'p) broker =
  big_endian :: bool
  br_pid :: "16 word"
  br_hostid :: "32 word"
  key_of :: "'o \<Rightarrow> 8 word list option"
  type_of :: "'o \<Rightarrow> string"
  make_ref :: "'p \<Rightarrow> 8 word list \<Rightarrow> string \<Rightarrow> 'o"
  ref_id :: "'p \<Rightarrow> 'o \<Rightarrow> 8 word list option"
  poa_id :: "'p \<Rightarrow> 8 word list"
  to_ior :: "'o \<Rightarrow> string"
  of_ior :: "string \<Rightarrow> 'o option"
  id_of_string :: "string \<Rightarrow> 8 word list"
  string_of_id :: "8 word list \<Rightarrow> string"
  br_security :: bool
  has_ssl :: "'o \<Rightarrow> bool"
  with_policies :: "'o \<Rightarrow> 'o"

text \<open>
  What the code relies on: a reference keeps its object id and its type, its key ends with the object
  id, and references and strings convert back.
\<close>

definition broker_ok :: "('o, 'p) broker \<Rightarrow> bool" where
  "broker_ok br \<longleftrightarrow>
     (\<forall>p bs t. ref_id br p (make_ref br p bs t) = Some bs \<and> type_of br (make_ref br p bs t) = t
        \<and> (\<exists>pre. key_of br (make_ref br p bs t) = Some (pre @ bs)))
     \<and> (\<forall>s. string_of_id br (id_of_string br s) = s) \<and> (\<forall>r. of_ior br (to_ior br r) = Some r)"

definition mapped_object_id :: "('o, 'p) broker \<Rightarrow> mapped_id" where
  "mapped_object_id br = \<lparr>magic = MAGIC, version = 1, in_out = 48, pid = br_pid br, index = 0,
     hostid = br_hostid br\<rparr>"

definition facing :: "bool \<Rightarrow> 8 word" where
  "facing out_facing = (if out_facing then 79 else 73)"

subsection \<open>Mappers and evaluators\<close>

text \<open>The evaluators of a mapper are the ids of its chain of evaluators.\<close>

record 'p mapper =
  mkind :: mapper_kind
  evaluators :: "string list"
  mapped_values :: "rmv_table option"
  in_facing_poa :: 'p
  out_facing_poa :: 'p

datatype ifr_answer = Interface | NilInterface | IfrException

fun find_evaluator :: "string \<Rightarrow> string list \<Rightarrow> nat option" where
  "find_evaluator typeId [] = None"
| "find_evaluator typeId (i # is) =
     (if i = typeId then Some 0 else map_option Suc (find_evaluator typeId is))"

definition add_evaluator :: "string \<Rightarrow> 'p mapper \<Rightarrow> 'p mapper" where
  "add_evaluator ev m = m\<lparr>evaluators := evaluators m @ [ev]\<rparr>"

definition evaluator_head :: "'p mapper \<Rightarrow> nat option" where
  "evaluator_head m = (if evaluators m = [] then None else Some 0)"

definition null_evaluator_for :: "string list \<Rightarrow> 'p mapper \<Rightarrow> string \<Rightarrow> nat option" where
  "null_evaluator_for types m typeId =
     (if types = [] then evaluator_head m
      else if typeId \<in> set types then evaluator_head m else None)"

definition generic_evaluator_for ::
    "(string \<Rightarrow> ifr_answer) \<Rightarrow> 'p mapper \<Rightarrow> string \<Rightarrow> nat option \<times> 'p mapper" where
  "generic_evaluator_for ifr m typeId =
     (case find_evaluator typeId (evaluators m) of
        Some k \<Rightarrow> (Some k, m)
      | None \<Rightarrow> (case ifr typeId of
            Interface \<Rightarrow> (Some (length (evaluators m)), add_evaluator typeId m)
          | NilInterface \<Rightarrow> (None, m)
          | IfrException \<Rightarrow> (None, m)))"

definition evaluator_for ::
    "(string \<Rightarrow> ifr_answer) \<Rightarrow> 'p mapper \<Rightarrow> string \<Rightarrow> nat option \<times> 'p mapper" where
  "evaluator_for ifr m typeId = (case mkind m of
       PlainMapper \<Rightarrow> (find_evaluator typeId (evaluators m), m)
     | NullMapper types \<Rightarrow> (null_evaluator_for types m typeId, m)
     | GenericMapper \<Rightarrow> generic_evaluator_for ifr m typeId)"

definition other_POA :: "'p mapper \<Rightarrow> 'p \<Rightarrow> 'p" where
  "other_POA m p = (if p = in_facing_poa m then out_facing_poa m else in_facing_poa m)"

subsection \<open>Mapping a native reference\<close>

datatype mapped_status = ALREADY_MAPPED | REVERSE_MAPPED | NOT_MAPPED | MAPPER_ERROR

definition get_mapped_objectId ::
    "('o, 'p) broker \<Rightarrow> bool \<Rightarrow> rmv_table \<Rightarrow> 8 word list \<times> 32 word \<times> rmv_table" where
  "get_mapped_objectId br out_facing t = (case next_index t of (i, t) \<Rightarrow>
     (encode_id (big_endian br) ((mapped_object_id br)\<lparr>in_out := facing out_facing, index := i\<rparr>), i, t))"

definition already_mapped ::
    "('o, 'p) broker \<Rightarrow> 'p mapper \<Rightarrow> 'o \<Rightarrow> bool \<Rightarrow> mapped_status \<times> 32 word" where
  "already_mapped br m native out_facing =
     (if mapped_values m = None then (NOT_MAPPED, 0)
      else case key_of br native of
        None \<Rightarrow> (NOT_MAPPED, 0)
      | Some key \<Rightarrow>
          if length key < id_size then (NOT_MAPPED, 0)
          else let buffer = drop (length key - id_size) key in
            if take 4 buffer = MAGIC then
              let temp = decode_id (big_endian br) buffer in
              if pid temp = br_pid br \<and> hostid temp = br_hostid br
              then (if in_out temp = facing out_facing then ALREADY_MAPPED else REVERSE_MAPPED, index temp)
              else (NOT_MAPPED, 0)
            else (NOT_MAPPED, 0))"

definition supports_secure :: "('o, 'p) broker \<Rightarrow> 'o \<Rightarrow> bool" where
  "supports_secure br native = (br_security br \<and> has_ssl br native)"

definition original_ref :: "('o, 'p) broker \<Rightarrow> 'o \<Rightarrow> 'o" where
  "original_ref br native = (if supports_secure br native then with_policies br native else native)"

definition facing_poa :: "bool \<Rightarrow> 'p mapper \<Rightarrow> 'p" where
  "facing_poa out_facing m = (if out_facing then out_facing_poa m else in_facing_poa m)"

text \<open>The value that \<open>add_native_unchecked\<close> fills in.\<close>

definition native_value ::
    "('o, 'p) broker \<Rightarrow> 'p mapper \<Rightarrow> 'o \<Rightarrow> 8 word list \<Rightarrow> string \<Rightarrow> bool \<Rightarrow> bool \<Rightarrow> 'o rmv" where
  "native_value br m native oid typeId out_facing secure =
     new_rmv\<lparr>orig_ref := Some (original_ref br native),
             mapped_ref := Some (make_ref br (facing_poa out_facing m) oid typeId),
             require_secure := Some secure\<rparr>"

definition add_native_unchecked ::
    "('o, 'p) broker \<Rightarrow> nat \<Rightarrow> 'o \<Rightarrow> string \<Rightarrow> bool \<Rightarrow> bool \<Rightarrow> 'p mapper \<Rightarrow> 'o rmv_heap \<Rightarrow>
     (nat \<times> 'p mapper \<times> 'o rmv_heap) result" where
  "add_native_unchecked br a native typeId out_facing secure m h = (case mapped_values m of
       None \<Rightarrow>
         let oid = id_of_string br (to_ior br native) in
         Ok (a, m, h(a \<mapsto> native_value br m native oid typeId out_facing secure))
     | Some t \<Rightarrow> (case get_mapped_objectId br out_facing t of (oid, i, t) \<Rightarrow>
         let h = h(a \<mapsto> native_value br m native oid typeId out_facing secure) in
         bindR (bind i a (t, h)) (\<lambda>(bound, t, h). Ok (a, m\<lparr>mapped_values := Some t\<rparr>, h))))"

text \<open>The lookup by index in a mapper's table; there is none to look in without a table.\<close>

definition mapper_find ::
    "32 word \<Rightarrow> 'p mapper \<Rightarrow> 'o rmv_heap \<Rightarrow> (nat option \<times> 'o rmv_heap) result" where
  "mapper_find i m h = bindR (deref (mapped_values m)) (\<lambda>t.
     bindR (find_rmv i (t, h)) (\<lambda>(p, t, h). Ok (p, h)))"

fun add_native ::
    "('o, 'p) broker \<Rightarrow> (string \<Rightarrow> ifr_answer) \<Rightarrow> nat \<Rightarrow> 'o \<Rightarrow> string \<Rightarrow> bool \<Rightarrow> bool \<Rightarrow>
     'p mapper list \<Rightarrow> 'o rmv_heap \<Rightarrow> (nat option \<times> 'p mapper list \<times> 'o rmv_heap) result" where
  "add_native br ifr a native typeId out_facing secure [] h = Ok (None, [], h)"
| "add_native br ifr a native typeId out_facing secure (m # ms) h =
     (case evaluator_for ifr m typeId of
        (Some k, m) \<Rightarrow>
          (case already_mapped br m native out_facing of
             (ALREADY_MAPPED, i) \<Rightarrow>
               bindR (mapper_find i m h) (\<lambda>(rmv, h). Ok (rmv, m # ms, h))
           | (REVERSE_MAPPED, i) \<Rightarrow>
               bindR (mapper_find i m h) (\<lambda>(rmv, h).
               bindR (deref rmv) (\<lambda>p.
               bindR (reverse_rmv p a h) (\<lambda>h.
               bindR (var_dtor rmv h) (\<lambda>h. Ok (Some a, m # ms, h)))))
           | (NOT_MAPPED, i) \<Rightarrow>
               bindR (add_native_unchecked br a native typeId out_facing secure m h)
                 (\<lambda>(p, m, h). Ok (Some p, m # ms, h))
           | (MAPPER_ERROR, i) \<Rightarrow> Ok (None, m # ms, h))
      | (None, m) \<Rightarrow>
          bindR (add_native br ifr a native typeId out_facing secure ms h)
            (\<lambda>(p, ms, h). Ok (p, m # ms, h)))"

fun remove_mapped ::
    "('o, 'p) broker \<Rightarrow> (string \<Rightarrow> ifr_answer) \<Rightarrow> 'o \<Rightarrow> string \<Rightarrow> bool \<Rightarrow>
     'p mapper list \<Rightarrow> 'o rmv_heap \<Rightarrow> (nat option \<times> 'p mapper list \<times> 'o rmv_heap) result" where
  "remove_mapped br ifr mapped typeId out_facing [] h = Ok (None, [], h)"
| "remove_mapped br ifr mapped typeId out_facing (m # ms) h =
     (case evaluator_for ifr m typeId of
        (Some k, m) \<Rightarrow>
          (case mapped_values m of
             None \<Rightarrow> Ok (None, m # ms, h)
           | Some t \<Rightarrow>
               (case ref_id br (facing_poa out_facing m) mapped of
                  None \<Rightarrow> Fault (Thrown ''WrongAdapter'')
                | Some oid \<Rightarrow>
                    bindR (index_of_id (big_endian br) oid) (\<lambda>i.
                    bindR (unbind i (t, h)) (\<lambda>(rmv, t, h).
                      Ok (rmv, m\<lparr>mapped_values := Some t\<rparr> # ms, h)))))
      | (None, m) \<Rightarrow>
          bindR (remove_mapped br ifr mapped typeId out_facing ms h)
            (\<lambda>(p, ms, h). Ok (p, m # ms, h)))"

subsection \<open>From mapped to native\<close>

text \<open>The native reference and the server agent, both nil when the index is not bound.\<close>

definition native_for_mapped_i ::
    "('o, 'p) broker \<Rightarrow> 8 word list \<Rightarrow> 'p mapper \<Rightarrow> 'o rmv_heap \<Rightarrow>
     ('o option \<times> 'o option \<times> 'o rmv_heap) result" where
  "native_for_mapped_i br oid m h =
     bindR (index_of_id (big_endian br) oid) (\<lambda>i.
     bindR (mapper_find i m h) (\<lambda>(rmv, h). case rmv of
         None \<Rightarrow> Ok (None, None, h)
       | Some p \<Rightarrow>
           bindR (rmv_at h p) (\<lambda>v.
           bindR (var_dtor rmv h) (\<lambda>h. Ok (orig_ref v, agent v, h)))))"

text \<open>
  \<open>native_for_mapped\<close>: whether the reference was replaced, and the reference afterwards. An exception of
  the broker is reported to the server agent, which is nil at that point.
\<close>

definition native_for_mapped ::
    "('o, 'p) broker \<Rightarrow> 'o \<Rightarrow> 'p \<Rightarrow> 'p mapper \<Rightarrow> 'o rmv_heap \<Rightarrow>
     (bool \<times> 'o option \<times> 'o rmv_heap) result" where
  "native_for_mapped br ref poa m h = (case ref_id br poa ref of
       None \<Rightarrow> Fault NullDeref
     | Some oid \<Rightarrow>
         (if mapped_values m = None then
            (case of_ior br (string_of_id br oid) of
               None \<Rightarrow> Fault NullDeref
             | Some nref \<Rightarrow> Ok (True, Some nref, h))
          else
            bindR (native_for_mapped_i br oid m h) (\<lambda>(nref, sa, h).
              if nref = None then Ok (False, Some ref, h) else Ok (True, nref, h))))"

text \<open>\<open>current_native\<close>: the object id of the current request is an argument, absent outside of one.\<close>

definition current_native ::
    "('o, 'p) broker \<Rightarrow> 8 word list option \<Rightarrow> 'p mapper \<Rightarrow> 'o rmv_heap \<Rightarrow>
     ('o option \<times> 'o option \<times> 'o rmv_heap) result" where
  "current_native br current m h = (case current of
       None \<Rightarrow> Fault NullDeref
     | Some oid \<Rightarrow>
         if mapped_values m = None then
           (case of_ior br (string_of_id br oid) of
              None \<Rightarrow> Fault NullDeref
            | Some nref \<Rightarrow> Ok (Some nref, None, h))
         else native_for_mapped_i br oid m h)"

subsection \<open>The registry's mapping functions\<close>

definition map_reference ::
    "('o, 'p) broker \<Rightarrow> (string \<Rightarrow> ifr_answer) \<Rightarrow> nat \<Rightarrow> 'o \<Rightarrow> bool \<Rightarrow> bool \<Rightarrow>
     'p mapper list \<Rightarrow> 'o rmv_heap \<Rightarrow> (nat option \<times> 'p mapper list \<times> 'o rmv_heap) result" where
  "map_reference br ifr a native out_facing secure ms h =
     add_native br ifr a native (type_of br native) out_facing secure ms h"

definition remove_reference ::
    "('o, 'p) broker \<Rightarrow> (string \<Rightarrow> ifr_answer) \<Rightarrow> 'o \<Rightarrow> bool \<Rightarrow>
     'p mapper list \<Rightarrow> 'o rmv_heap \<Rightarrow> (nat option \<times> 'p mapper list \<times> 'o rmv_heap) result" where
  "remove_reference br ifr mapped out_facing ms h =
     remove_mapped br ifr mapped (type_of br mapped) out_facing ms h"

text \<open>\<open>mapped_for_native\<close> of a mapper whose inward facing POA is \<open>in_poa\<close>; a nil reference stays nil.\<close>

definition mapped_for_native ::
    "('o, 'p) broker \<Rightarrow> (string \<Rightarrow> ifr_answer) \<Rightarrow> nat \<Rightarrow> 'o option \<Rightarrow> 'p \<Rightarrow> 'p \<Rightarrow>
     'p mapper list \<Rightarrow> 'o rmv_heap \<Rightarrow> (bool \<times> 'o option \<times> 'p mapper list \<times> 'o rmv_heap) result" where
  "mapped_for_native br ifr a ref poa in_poa ms h = (case ref of
       None \<Rightarrow> Ok (True, None, ms, h)
     | Some native \<Rightarrow>
         bindR (map_reference br ifr a native (poa = in_poa) False ms h) (\<lambda>(rmv, ms, h).
         case rmv of
           None \<Rightarrow> Ok (False, ref, ms, h)
         | Some p \<Rightarrow>
             bindR (rmv_at h p) (\<lambda>v.
             bindR (var_dtor rmv h) (\<lambda>h. Ok (True, mapped_ref v, ms, h)))))"

fun poa_and_object_id ::
    "('o, 'p) broker \<Rightarrow> (string \<Rightarrow> ifr_answer) \<Rightarrow> 'o \<Rightarrow> 'p mapper list \<Rightarrow>
     bool \<times> 8 word list \<times> 8 word list \<times> 'p mapper list" where
  "poa_and_object_id br ifr ref [] = (False, [], [], [])"
| "poa_and_object_id br ifr ref (m # ms) =
     (case evaluator_for ifr m (type_of br ref) of
        (None, m) \<Rightarrow> (case poa_and_object_id br ifr ref ms of (ok, p, oid, ms) \<Rightarrow> (ok, p, oid, m # ms))
      | (Some k, m) \<Rightarrow>
          (case ref_id br (out_facing_poa m) ref of
             None \<Rightarrow> (False, poa_id br (out_facing_poa m), [], m # ms)
           | Some oid \<Rightarrow> (True, poa_id br (out_facing_poa m), oid, m # ms)))"

subsection \<open>The object id is read back\<close>

lemma unat_byte_at: "unat (byte_at k n) = n div 256 ^ k mod 256"
  by (simp add: byte_at_def unat_of_nat)

lemma digit_step: "n mod 256 + 256 * (n div 256 mod m) = n mod (256 * m)" for n m :: nat
  by (metis add.commute mod_mult2_eq)

lemma byte_sum_digits: "byte_sum (map (\<lambda>k. byte_at k n) [0..<j]) = n mod 256 ^ j"
proof (induction j arbitrary: n)
  case (Suc j)
  have "map (\<lambda>k. byte_at k n) [0..<Suc j] = byte_at 0 n # map (\<lambda>k. byte_at k (n div 256)) [0..<j]"
    by (simp add: map_upt_Suc byte_at_def div_mult2_eq del: upt_Suc)
  then show ?case using Suc.IH [of "n div 256"] digit_step [of n "256 ^ j"]
    by (simp add: unat_byte_at)
qed simp

lemma word_of_bytes16: "word_of_bytes big (bytes16 big w) = w"
proof -
  have "unat w < 2 ^ LENGTH(16)" by (rule unsigned_less)
  then have "unat w < 256 ^ 2" by simp
  moreover have "[0, 1] = [0..<2]" by (simp add: upt_rec)
  ultimately have "byte_sum (map (\<lambda>k. byte_at k (unat w)) [0, 1]) = unat w"
    using byte_sum_digits [of "unat w" 2] by (simp only: mod_less)
  then show ?thesis by (simp add: word_of_bytes_def bytes16_def Let_def)
qed

lemma word_of_bytes32: "word_of_bytes big (bytes32 big w) = w"
proof -
  have "unat w < 2 ^ LENGTH(32)" by (rule unsigned_less)
  then have "unat w < 256 ^ 4" by simp
  moreover have "[0, 1, 2, 3] = [0..<4]" by (simp add: upt_rec)
  ultimately have "byte_sum (map (\<lambda>k. byte_at k (unat w)) [0, 1, 2, 3]) = unat w"
    using byte_sum_digits [of "unat w" 4] by (simp only: mod_less)
  then show ?thesis by (simp add: word_of_bytes_def bytes32_def Let_def)
qed

lemma bytes_length [simp]: "length (bytes16 big w) = 2" "length (bytes32 big v) = 4"
  by (simp_all add: bytes16_def bytes32_def Let_def)

lemma encode_id_parts:
  assumes "length (magic m) = 4"
  shows "length (encode_id big m) = id_size" and "take 4 (encode_id big m) = magic m"
    and "encode_id big m ! 4 = version m" and "encode_id big m ! 5 = in_out m"
    and "take 2 (drop 6 (encode_id big m)) = bytes16 big (pid m)"
    and "take 4 (drop 8 (encode_id big m)) = bytes32 big (index m)"
    and "take 4 (drop 12 (encode_id big m)) = bytes32 big (hostid m)"
  using assms by (simp_all add: encode_id_def id_size_def nth_append)

lemma decode_encode: "length (magic m) = 4 \<Longrightarrow> decode_id big (encode_id big m) = m"
  using encode_id_parts [of m big] by (simp add: decode_id_def word_of_bytes16 word_of_bytes32)

lemma index_of_encode: "length (magic m) = 4 \<Longrightarrow> index_of_id big (encode_id big m) = Ok (index m)"
  using encode_id_parts [of m big] by (simp add: index_of_id_def id_size_def word_of_bytes32)

text \<open>The object id of a mapped reference with an index and a direction.\<close>

definition oid_for :: "('o, 'p) broker \<Rightarrow> bool \<Rightarrow> 32 word \<Rightarrow> 8 word list" where
  "oid_for br out_facing i =
     encode_id (big_endian br) ((mapped_object_id br)\<lparr>in_out := facing out_facing, index := i\<rparr>)"

lemma oid_for_facts:
  "length (oid_for br f i) = id_size" "take 4 (oid_for br f i) = MAGIC"
  "decode_id (big_endian br) (oid_for br f i) = (mapped_object_id br)\<lparr>in_out := facing f, index := i\<rparr>"
  "index_of_id (big_endian br) (oid_for br f i) = Ok i"
proof -
  let ?m = "(mapped_object_id br)\<lparr>in_out := facing f, index := i\<rparr>"
  have len: "length (magic ?m) = 4" "magic ?m = MAGIC" by (simp_all add: mapped_object_id_def MAGIC_def)
  show "length (oid_for br f i) = id_size" "take 4 (oid_for br f i) = MAGIC"
    using encode_id_parts(1,2) [OF len(1)] len(2) by (simp_all add: oid_for_def)
  show "decode_id (big_endian br) (oid_for br f i) = ?m" "index_of_id (big_endian br) (oid_for br f i) = Ok i"
    unfolding oid_for_def using decode_encode [OF len(1)] index_of_encode [OF len(1)] by simp_all
qed

lemma facing_inj [simp]: "facing f = facing g \<longleftrightarrow> f = g"
  by (simp add: facing_def)

text \<open>A reference that this process made is recognised, with its index and direction.\<close>

lemma already_mapped_own:
  assumes "broker_ok br" and "mapped_values m \<noteq> None"
  shows "already_mapped br m (make_ref br p (oid_for br f i) t) g
    = (if f = g then ALREADY_MAPPED else REVERSE_MAPPED, i)"
proof -
  obtain pre where "key_of br (make_ref br p (oid_for br f i) t) = Some (pre @ oid_for br f i)"
    using assms(1) unfolding broker_ok_def by blast
  then show ?thesis
    using assms(2) oid_for_facts [of br f i] by (auto simp: already_mapped_def mapped_object_id_def)
qed

subsection \<open>Adding and finding\<close>

lemma native_value_refs:
  "orig_ref (native_value br m native oid ty f sec) = Some (original_ref br native)"
  "mapped_ref (native_value br m native oid ty f sec) = Some (make_ref br (facing_poa f m) oid ty)"
  by (simp_all add: native_value_def)

lemma add_native_unchecked_ok:
  assumes "mapped_values m = Some t" and "store_ok {} own (t, h)" and "room t" and "h a = None"
  shows "\<exists>i t' h'. add_native_unchecked br a native ty f sec m h = Ok (a, m\<lparr>mapped_values := Some t'\<rparr>, h')
    \<and> i = fst (next_index t) \<and> lookup t i = None \<and> lookup t' = (lookup t)(i \<mapsto> a)
    \<and> store_ok {} (own(a := 1)) (t', h')
    \<and> contents h' = (contents h)(a \<mapsto> (native_value br m native (oid_for br f i) ty f sec)\<lparr>ref_count := 0\<rparr>)"
proof -
  obtain i t1 where n: "next_index t = (i, t1)" "lookup t i = None" "lookup t1 = lookup t"
    "store_ok {i} own (t1, h)"
    using store_next_ok [OF assms(2)] assms(3)
    by (auto simp: store_room_def store_next_def store_view split: prod.splits)
  let ?v = "native_value br m native (oid_for br f i) ty f sec"
  have "ref_count ?v = 1" by (simp add: native_value_def new_rmv_def)
  then have "store_ok {i} (own(a := 1)) (t1, h(a \<mapsto> ?v))" using store_ok_alloc [OF n(4) assms(4)] by blast
  then obtain t' h' where b: "bind i a (t1, h(a \<mapsto> ?v)) = Ok (True, t', h')" "lookup t' = (lookup t1)(i \<mapsto> a)"
    "contents h' = contents (h(a \<mapsto> ?v))" "store_ok ({i} - {i}) (own(a := 1)) (t', h')"
    using bind_pending [of "{i}" "own(a := 1)" t1 "h(a \<mapsto> ?v)" i a] by auto
  have "contents h' = (contents h)(a \<mapsto> ?v\<lparr>ref_count := 0\<rparr>)"
    using b(3) by (auto simp: contents_def fun_eq_iff)
  moreover have "add_native_unchecked br a native ty f sec m h = Ok (a, m\<lparr>mapped_values := Some t'\<rparr>, h')"
    using assms(1) n(1) b(1) by (simp add: add_native_unchecked_def get_mapped_objectId_def oid_for_def [symmetric])
  ultimately show ?thesis using n b by auto
qed

lemma mapper_find_ok:
  assumes "mapped_values m = Some t" and "store_ok pend own (t, h)"
  shows "\<exists>h'. mapper_find i m h = Ok (lookup t i, h') \<and> contents h' = contents h
    \<and> store_ok pend (own_add (lookup t i) own) (t, h')"
  using find_rmv_ok [OF assms(2), of i] assms(1) by (auto simp: mapper_find_def)

lemma contents_Some:
  "contents h a = Some (v\<lparr>ref_count := 0\<rparr>) \<Longrightarrow>
   \<exists>w. h a = Some w \<and> orig_ref w = orig_ref v \<and> mapped_ref w = mapped_ref v \<and> agent w = agent v
     \<and> require_secure w = require_secure v"
  by (cases "h a") (auto simp: contents_def dest: arg_cong [where f = orig_ref] arg_cong [where f = mapped_ref]
      arg_cong [where f = agent] arg_cong [where f = require_secure])

lemma drop_found:
  assumes "store_ok pend (own(a := own a + 1)) (t, h)"
  shows "\<exists>h'. var_dtor (Some a) h = Ok h' \<and> store_ok pend own (t, h')
    \<and> (0 < own a + slot_owners t a \<longrightarrow> contents h' = contents h)"
proof -
  note ok = store_okD [OF assms]
  let ?o = "\<lambda>b. (own(a := own a + 1)) b + slot_owners t b"
  obtain h' where d: "decr_refcount a h = Ok (int (?o a) - 1, h')" "counted (?o(a := ?o a - 1)) h'"
    "\<forall>b. contents h' b = (if b = a \<and> ?o a = 1 then None else contents h b)"
    using decr_refcount_store [OF ok(2), of a] by auto
  have "counted (\<lambda>b. own b + slot_owners t b) h'" by (rule counted_cong [OF d(2)]) simp
  moreover have "0 < own a + slot_owners t a \<longrightarrow> contents h' = contents h" using d(3) by (auto simp: fun_eq_iff)
  ultimately show ?thesis using d(1) ok(1) by (simp add: var_dtor_def decr_ptr_def store_ok_def)
qed

text \<open>The native reference behind a bound index, and the counts afterwards as before.\<close>

lemma native_for_mapped_bound:
  assumes "mapped_values m = Some t" and "store_ok {} own (t, h)" and "lookup t i = Some a"
    and "contents h a = Some (v\<lparr>ref_count := 0\<rparr>)"
  shows "\<exists>h'. native_for_mapped_i br (oid_for br f i) m h = Ok (orig_ref v, agent v, h')
    \<and> store_ok {} own (t, h') \<and> contents h' = contents h"
proof -
  obtain h1 where f: "mapper_find i m h = Ok (Some a, h1)" "contents h1 = contents h"
    "store_ok {} (own(a := own a + 1)) (t, h1)"
    using mapper_find_ok [OF assms(1,2), of i] assms(3) by auto
  obtain w where w: "h1 a = Some w" "orig_ref w = orig_ref v" "agent w = agent v"
    using contents_Some [of h1 a v] f(2) assms(4) by auto
  obtain h2 where d: "var_dtor (Some a) h1 = Ok h2" "store_ok {} own (t, h2)" "contents h2 = contents h1"
    using drop_found [OF f(3)] slot_owners_pos [OF assms(3)] by auto
  show ?thesis
    using f(1,2) w d by (simp add: native_for_mapped_i_def oid_for_facts(4) rmv_at_def)
qed

lemma find_evaluator_append:
  "find_evaluator ty (is @ [ty]) = (case find_evaluator ty is of None \<Rightarrow> Some (length is) | Some k \<Rightarrow> Some k)"
  by (induction "is") (auto split: option.split)

text \<open>Selecting an evaluator twice selects the same; it never touches the table or the POAs.\<close>

lemma evaluator_for_again:
  assumes "evaluator_for ifr m ty = (Some k, m0)"
  shows "evaluator_for ifr (m0\<lparr>mapped_values := x\<rparr>) ty = (Some k, m0\<lparr>mapped_values := x\<rparr>)"
    and "mapped_values m0 = mapped_values m" and "in_facing_poa m0 = in_facing_poa m"
    and "out_facing_poa m0 = out_facing_poa m"
  using assms
  by (auto simp: evaluator_for_def generic_evaluator_for_def null_evaluator_for_def evaluator_head_def
      add_evaluator_def find_evaluator_append split: mapper_kind.splits option.splits ifr_answer.splits if_splits)

lemma already_mapped_cong:
  "mapped_values m0 = None \<longleftrightarrow> mapped_values m = None \<Longrightarrow> already_mapped br m0 r f = already_mapped br m r f"
  by (simp add: already_mapped_def)

lemma add_native_again:
  assumes "broker_ok br" and "mapped_values m = Some t" and "store_ok {} own (t, h)"
    and "lookup t i = Some a" and "evaluator_for ifr m ty = (Some k, m)"
  shows "\<exists>h'. add_native br ifr b (make_ref br p (oid_for br f i) ty) ty f sec (m # ms) h = Ok (Some a, m # ms, h')
    \<and> store_ok {} (own(a := own a + 1)) (t, h')"
proof -
  obtain h' where "mapper_find i m h = Ok (Some a, h')" "store_ok {} (own(a := own a + 1)) (t, h')"
    using mapper_find_ok [OF assms(2,3), of i] assms(4) by auto
  then show ?thesis using assms(5) already_mapped_own [OF assms(1)] assms(2) by simp
qed

lemma add_native_reverse:
  assumes "broker_ok br" and "mapped_values m = Some t" and "store_ok {} own (t, h)"
    and "lookup t i = Some a" and "evaluator_for ifr m ty = (Some k, m)" and "h b = None"
    and "contents h a = Some (v\<lparr>ref_count := 0\<rparr>)"
  shows "\<exists>h' w. add_native br ifr b (make_ref br p (oid_for br f i) ty) ty (\<not> f) sec (m # ms) h = Ok (Some b, m # ms, h')
    \<and> h' b = Some w \<and> orig_ref w = mapped_ref v \<and> mapped_ref w = orig_ref v
    \<and> store_ok {} (own(b := 1)) (t, h') \<and> contents h' = (contents h)(b \<mapsto> w\<lparr>ref_count := 0\<rparr>)"
proof -
  obtain h1 where f: "mapper_find i m h = Ok (Some a, h1)" "contents h1 = contents h"
    "store_ok {} (own(a := own a + 1)) (t, h1)"
    using mapper_find_ok [OF assms(2,3), of i] assms(4) by auto
  obtain w where w: "h1 a = Some w" "orig_ref w = orig_ref v" "mapped_ref w = mapped_ref v"
    using contents_Some [of h1 a v] f(2) assms(7) by auto
  have b: "h1 b = None" "a \<noteq> b"
    using fun_cong [OF f(2), of b] assms(6) w(1) by (auto simp: contents_def)
  let ?r = "new_rmv\<lparr>orig_ref := mapped_ref w, mapped_ref := orig_ref w, ior_table_name := [],
              require_secure := require_secure w, agent := None\<rparr>"
  have rev: "reverse_rmv a b h1 = Ok (h1(b \<mapsto> ?r))" using w(1) by (simp add: reverse_rmv_def rmv_at_def)
  have "store_ok {} ((own(a := own a + 1))(b := 1)) (t, h1(b \<mapsto> ?r))"
    using store_ok_alloc [OF f(3) b(1)] by (simp add: new_rmv_def)
  then have "store_ok {} ((own(b := 1))(a := (own(b := 1)) a + 1)) (t, h1(b \<mapsto> ?r))"
    using b(2) by (simp add: fun_upd_twist)
  from drop_found [OF this] obtain h2 where d: "var_dtor (Some a) (h1(b \<mapsto> ?r)) = Ok h2"
    "store_ok {} (own(b := 1)) (t, h2)" "contents h2 = contents (h1(b \<mapsto> ?r))"
    using slot_owners_pos [OF assms(4)] by auto
  obtain u where u: "h2 b = Some u" "orig_ref u = orig_ref ?r" "mapped_ref u = mapped_ref ?r"
    using contents_Some [of h2 b ?r] d(3) by (auto simp: contents_def)
  have "add_native br ifr b (make_ref br p (oid_for br f i) ty) ty (\<not> f) sec (m # ms) h = Ok (Some b, m # ms, h2)"
    using assms(5) already_mapped_own [OF assms(1)] assms(2) f(1) rev d(1) by simp
  moreover have "contents h2 = (contents h)(b \<mapsto> u\<lparr>ref_count := 0\<rparr>)"
    using d(3) fun_cong [OF d(3), of b] u(1) f(2) [symmetric] by (auto simp: contents_def fun_eq_iff)
  ultimately show ?thesis using u w d(2) by auto
qed

subsection \<open>Properties\<close>

text \<open>
  The object id of a mapped reference is 16 bytes long and reads back as the structure that was
  written, in either byte order; the index is read from it without a fault.
\<close>

theorem mapped_id_roundtrip:
  assumes "length (magic m) = 4"
  shows "length (encode_id big m) = id_size \<and> decode_id big (encode_id big m) = m
    \<and> index_of_id big (encode_id big m) = Ok (index m)"
  using encode_id_parts(1) decode_encode index_of_encode assms by blast

definition sample_id :: mapped_id where
  "sample_id = \<lparr>magic = MAGIC, version = 1, in_out = 79, pid = 4711, index = 70000, hostid = 0xC0A80101\<rparr>"

theorem mapped_id_roundtrip_witness:
  "decode_id True (encode_id True sample_id) = sample_id \<and> index_of_id True (encode_id True sample_id) = Ok 70000"
  using mapped_id_roundtrip [of sample_id True] by (simp add: sample_id_def MAGIC_def)

text \<open>A native reference is not looked for among the values: mapped once more, it gets a value and a reference of its own.\<close>

lemma oid_for_inject:
  assumes "oid_for br f i = oid_for br f j"
  shows "i = j"
proof -
  have "Ok i = index_of_id (big_endian br) (oid_for br f i)" by (simp only: oid_for_facts(4))
  also have "\<dots> = Ok j" by (simp only: assms oid_for_facts(4))
  finally show ?thesis by simp
qed

lemma add_native_twice:
  assumes "broker_ok br" and "mapped_values m = Some t" and "store_ok {} own (t, h)" and "room t" and "h b = None"
    and "evaluator_for ifr m ty = (Some k, m)" and "fst (already_mapped br m native f) = NOT_MAPPED" and "lookup t i = Some a"
  shows "\<exists>t' h' w q. add_native br ifr b native ty f sec (m # ms) h = Ok (Some b, m\<lparr>mapped_values := Some t'\<rparr> # ms, h')
    \<and> store_ok {} (own(b := 1)) (t', h') \<and> h' b = Some w \<and> orig_ref w = Some (original_ref br native)
    \<and> mapped_ref w = Some q \<and> q \<noteq> make_ref br (facing_poa f m) (oid_for br f i) ty"
proof -
  obtain j t' h' where u: "add_native_unchecked br b native ty f sec m h = Ok (b, m\<lparr>mapped_values := Some t'\<rparr>, h')"
    "lookup t j = None" "store_ok {} (own(b := 1)) (t', h')"
    "contents h' = (contents h)(b \<mapsto> (native_value br m native (oid_for br f j) ty f sec)\<lparr>ref_count := 0\<rparr>)"
    using add_native_unchecked_ok [OF assms(2-5)] by blast
  let ?q = "\<lambda>j. make_ref br (facing_poa f m) (oid_for br f j) ty"
  have "contents h' b = Some ((native_value br m native (oid_for br f j) ty f sec)\<lparr>ref_count := 0\<rparr>)" using u(4) by simp
  from contents_Some [OF this] obtain w where w: "h' b = Some w" "orig_ref w = Some (original_ref br native)" "mapped_ref w = Some (?q j)"
    by (auto simp: native_value_def)
  have "j \<noteq> i" using u(2) assms(8) by auto
  moreover have "ref_id br (facing_poa f m) (?q x) = Some (oid_for br f x)" for x using assms(1) by (simp add: broker_ok_def)
  ultimately have "?q j \<noteq> ?q i" using oid_for_inject [of br f j i] by (metis option.inject)
  moreover have "add_native br ifr b native ty f sec (m # ms) h = Ok (Some b, m\<lparr>mapped_values := Some t'\<rparr> # ms, h')"
    using assms(6,7) u(1) by (cases "already_mapped br m native f") simp
  ultimately show ?thesis using u(3) w by blast
qed

text \<open>
  C5: With a table, mapping a native reference and looking the mapped one up are inverse: the mapped
  reference gives the original one back, mapping the mapped reference again in the same direction gives the same value,
  and mapping it in the other direction gives a value with the two references exchanged. Mapping the native reference itself again is not recognised: while there
  is room it gets a second value with another reference, against the comments of ProxyMapper.h and MapperRegistry.h. No step
  faults, and the counts agree with the owners throughout.
\<close>

theorem map_native_roundtrip:
  assumes "broker_ok br" and "mapped_values m = Some t" and "store_ok {} own (t, h)" and "room t"
    and "h a = None" and "evaluator_for ifr m ty = (Some k, m0)"
    and "fst (already_mapped br m native f) = NOT_MAPPED"
  shows "\<exists>m1 t1 h1 v r. add_native br ifr a native ty f sec (m # ms) h = Ok (Some a, m1 # ms, h1)
    \<and> mapped_values m1 = Some t1 \<and> store_ok {} (own(a := 1)) (t1, h1)
    \<and> h1 a = Some v \<and> mapped_ref v = Some r \<and> orig_ref v = Some (original_ref br native)
    \<and> require_secure v = Some sec \<and> type_of br r = ty
    \<and> (\<exists>h2. native_for_mapped br r (facing_poa f m1) m1 h1 = Ok (True, Some (original_ref br native), h2)
         \<and> store_ok {} (own(a := 1)) (t1, h2))
    \<and> (\<exists>h2. add_native br ifr b r ty f sec (m1 # ms) h1 = Ok (Some a, m1 # ms, h2)
         \<and> store_ok {} (own(a := 2)) (t1, h2))
    \<and> (h1 b = None \<longrightarrow> (\<exists>h2 w. add_native br ifr b r ty (\<not> f) sec (m1 # ms) h1 = Ok (Some b, m1 # ms, h2)
         \<and> h2 b = Some w \<and> orig_ref w = Some r \<and> mapped_ref w = Some (original_ref br native)
         \<and> store_ok {} (own(a := 1, b := 1)) (t1, h2)))
    \<and> (h1 b = None \<and> room t1 \<longrightarrow> (\<exists>t2 h2 w q. add_native br ifr b native ty f sec (m1 # ms) h1 = Ok (Some b, m1\<lparr>mapped_values := Some t2\<rparr> # ms, h2)
         \<and> store_ok {} (own(a := 1, b := 1)) (t2, h2)
         \<and> h2 b = Some w \<and> orig_ref w = Some (original_ref br native) \<and> mapped_ref w = Some q \<and> q \<noteq> r))"
proof -
  note ev = evaluator_for_again [OF assms(6)]
  have m0: "mapped_values m0 = Some t" using ev(2) assms(2) by simp
  obtain i t1 h1 where u: "add_native_unchecked br a native ty f sec m0 h = Ok (a, m0\<lparr>mapped_values := Some t1\<rparr>, h1)"
    "lookup t1 = (lookup t)(i \<mapsto> a)" "store_ok {} (own(a := 1)) (t1, h1)"
    "contents h1 = (contents h)(a \<mapsto> (native_value br m0 native (oid_for br f i) ty f sec)\<lparr>ref_count := 0\<rparr>)"
    using add_native_unchecked_ok [OF m0 assms(3,4,5)] by blast
  let ?m1 = "m0\<lparr>mapped_values := Some t1\<rparr>" and ?v = "native_value br m0 native (oid_for br f i) ty f sec"
  let ?p = "facing_poa f m0" let ?r = "make_ref br ?p (oid_for br f i) ty"
  have nm: "fst (already_mapped br m0 native f) = NOT_MAPPED"
    using assms(7) by (simp add: already_mapped_cong [of m0 m] ev(2))
  have run: "add_native br ifr a native ty f sec (m # ms) h = Ok (Some a, ?m1 # ms, h1)"
    using assms(6) nm u(1) by (cases "already_mapped br m0 native f") simp
  have c1: "contents h1 a = Some (?v\<lparr>ref_count := 0\<rparr>)" using u(4) by simp
  obtain v where v: "h1 a = Some v" "orig_ref v = Some (original_ref br native)" "mapped_ref v = Some ?r"
    "require_secure v = Some sec"
    using contents_Some [OF c1] by (auto simp: native_value_def)
  have l1: "lookup t1 i = Some a" "mapped_values ?m1 = Some t1" using u(2) by simp_all
  have fp: "facing_poa f ?m1 = ?p" by (simp add: facing_poa_def)
  have br: "ref_id br ?p ?r = Some (oid_for br f i)" "type_of br ?r = ty"
    using assms(1) by (simp_all add: broker_ok_def)
  obtain h2 where "native_for_mapped_i br (oid_for br f i) ?m1 h1 = Ok (Some (original_ref br native), agent ?v, h2)"
    "store_ok {} (own(a := 1)) (t1, h2)"
    using native_for_mapped_bound [OF l1(2) u(3) l1(1) c1, of br f] by (auto simp: native_value_def)
  then have 1: "\<exists>h2. native_for_mapped br ?r (facing_poa f ?m1) ?m1 h1 = Ok (True, Some (original_ref br native), h2)
      \<and> store_ok {} (own(a := 1)) (t1, h2)"
    using br(1) fp by (simp add: native_for_mapped_def)
  have 2: "\<exists>h2. add_native br ifr b ?r ty f sec (?m1 # ms) h1 = Ok (Some a, ?m1 # ms, h2)
      \<and> store_ok {} (own(a := 2)) (t1, h2)"
    using add_native_again [OF assms(1) l1(2) u(3) l1(1) ev(1)] by (simp add: numeral_2_eq_2)
  have 3: "h1 b = None \<longrightarrow> (\<exists>h2 w. add_native br ifr b ?r ty (\<not> f) sec (?m1 # ms) h1 = Ok (Some b, ?m1 # ms, h2)
      \<and> h2 b = Some w \<and> orig_ref w = Some ?r \<and> mapped_ref w = Some (original_ref br native)
      \<and> store_ok {} (own(a := 1, b := 1)) (t1, h2))"
  proof
    assume "h1 b = None"
    from add_native_reverse [OF assms(1) l1(2) u(3) l1(1) ev(1) this c1, of ?p f sec ms]
    obtain h2 w where "add_native br ifr b ?r ty (\<not> f) sec (?m1 # ms) h1 = Ok (Some b, ?m1 # ms, h2)"
      "h2 b = Some w" "orig_ref w = mapped_ref ?v" "mapped_ref w = orig_ref ?v" "store_ok {} (own(a := 1, b := 1)) (t1, h2)"
      by (elim exE conjE) (rule that)
    then show "\<exists>h2 w. add_native br ifr b ?r ty (\<not> f) sec (?m1 # ms) h1 = Ok (Some b, ?m1 # ms, h2)
        \<and> h2 b = Some w \<and> orig_ref w = Some ?r \<and> mapped_ref w = Some (original_ref br native)
        \<and> store_ok {} (own(a := 1, b := 1)) (t1, h2)"
      by (intro exI [of _ h2] exI [of _ w] conjI) (simp_all only: native_value_refs)
  qed
  have nm1: "fst (already_mapped br ?m1 native f) = NOT_MAPPED" using nm m0 by (simp add: already_mapped_cong [of ?m1 m0])
  have 4: "h1 b = None \<and> room t1 \<longrightarrow> (\<exists>t2 h2 w q. add_native br ifr b native ty f sec (?m1 # ms) h1 = Ok (Some b, ?m1\<lparr>mapped_values := Some t2\<rparr> # ms, h2)
      \<and> store_ok {} (own(a := 1, b := 1)) (t2, h2)
      \<and> h2 b = Some w \<and> orig_ref w = Some (original_ref br native) \<and> mapped_ref w = Some q \<and> q \<noteq> ?r)"
    using add_native_twice [OF assms(1) l1(2) u(3) _ _ ev(1) nm1 l1(1), of b sec ms] unfolding fp by blast
  show ?thesis
    by (rule exI [of _ ?m1], rule exI [of _ t1], rule exI [of _ h1], rule exI [of _ v], rule exI [of _ ?r])
       (intro conjI run l1(2) u(3) v br(2) 1 2 3 4)
qed

text \<open>
  A broker whose references are strings: as many dots as the type has characters, a bar, the type, and
  the bytes of the object id.
\<close>

definition byte_of_char :: "char \<Rightarrow> 8 word" where
  "byte_of_char c = of_nat (of_char c)"

definition char_of_byte :: "8 word \<Rightarrow> char" where
  "char_of_byte b = char_of (unat b)"

definition dots :: "string \<Rightarrow> nat" where
  "dots s = length (takeWhile (\<lambda>c. c = CHR ''.'') s)"

definition ref_body :: "string \<Rightarrow> string" where
  "ref_body s = drop (dots s + 1) s"

definition sample_broker :: "(string, nat) broker" where
  "sample_broker = \<lparr>big_endian = False, br_pid = 4711, br_hostid = 77,
     key_of = (\<lambda>r. Some (map byte_of_char (drop (dots r) (ref_body r)))),
     type_of = (\<lambda>r. take (dots r) (ref_body r)),
     make_ref = (\<lambda>p bs t. replicate (length t) CHR ''.'' @ CHR ''|'' # t @ map char_of_byte bs),
     ref_id = (\<lambda>p r. Some (map byte_of_char (drop (dots r) (ref_body r)))),
     poa_id = (\<lambda>p. [of_nat p]), to_ior = (\<lambda>r. r), of_ior = Some,
     id_of_string = map byte_of_char, string_of_id = map char_of_byte,
     br_security = False, has_ssl = (\<lambda>r. False), with_policies = (\<lambda>r. r)\<rparr>"

lemma byte_char_inverse [simp]: "byte_of_char (char_of_byte b) = b" "char_of_byte (byte_of_char c) = c"
proof -
  have "unat b < 2 ^ LENGTH(8)" by (rule unsigned_less)
  then show "byte_of_char (char_of_byte b) = b"
    by (simp add: byte_of_char_def char_of_byte_def)
  have "unat (of_nat (of_char c) :: 8 word) = of_char c"
    by (simp add: unat_of_nat of_char_mod_256)
  then show "char_of_byte (byte_of_char c) = c" by (simp add: byte_of_char_def char_of_byte_def)
qed

lemma sample_broker_ok: "broker_ok sample_broker"
proof -
  have 1: "byte_of_char \<circ> char_of_byte = id" "char_of_byte \<circ> byte_of_char = id" by (simp_all add: fun_eq_iff)
  have "dots (replicate n CHR ''.'' @ CHR ''|'' # s) = n" for n s
    by (induction n) (simp_all add: dots_def)
  then show ?thesis by (simp add: broker_ok_def sample_broker_def ref_body_def 1)
qed

definition sample_mapper :: "nat mapper" where
  "sample_mapper = \<lparr>mkind = NullMapper [], evaluators = [[]], mapped_values = Some (new_table 60 2),
     in_facing_poa = 1, out_facing_poa = 2\<rparr>"

lemma sample_mapper_ok:
  "store_ok {} (\<lambda>_. 0) (new_table 60 2, \<lambda>_. None)" "room (new_table 60 2)"
  "mapped_values sample_mapper = Some (new_table 60 2)"
  "evaluator_for ifr sample_mapper ty = (Some 0, sample_mapper)"
  using new_table_ok [of 2 60]
  by (simp_all add: store_ok_def counted_def sample_mapper_def evaluator_for_def null_evaluator_for_def
      evaluator_head_def) (simp add: room_def new_table_def limit_def)

theorem map_native_roundtrip_witness:
  "\<exists>m1 h1. add_native sample_broker (\<lambda>_. NilInterface) 5 ''..|IDnative'' ''ID'' True False [sample_mapper] (\<lambda>_. None)
      = Ok (Some 5, m1 # [], h1)
    \<and> (\<exists>r h2. native_for_mapped sample_broker r (facing_poa True m1) m1 h1 = Ok (True, Some ''..|IDnative'', h2))"
proof -
  have nm: "fst (already_mapped sample_broker sample_mapper ''..|IDnative'' True) = NOT_MAPPED"
    by (simp add: already_mapped_def sample_broker_def ref_body_def dots_def id_size_def)
  have orig: "original_ref sample_broker r = r" for r
    by (simp add: original_ref_def supports_secure_def sample_broker_def)
  from map_native_roundtrip [OF sample_broker_ok sample_mapper_ok(3,1,2) refl sample_mapper_ok(4) nm,
      where a = 5 and ifr = "\<lambda>_. NilInterface" and ty = "''ID''" and sec = False and ms = "[]" and b = 6]
  show ?thesis unfolding orig by (elim exE conjE) (intro exI conjI)
qed

text \<open>
  Without a table the mapped reference carries the native one: whatever native reference was mapped,
  the mapped reference gives exactly it back, and neither step changes the mapper. The security
  policies that the stored original reference has are not in what comes back.
\<close>

theorem stateless_roundtrip:
  assumes "broker_ok br" and "mapped_values m = None" and "evaluator_for ifr m ty = (Some k, m0)"
  shows "\<exists>v r. add_native br ifr a native ty f sec (m # ms) h = Ok (Some a, m0 # ms, h(a \<mapsto> v))
    \<and> ref_count v = 1 \<and> orig_ref v = Some (original_ref br native) \<and> mapped_ref v = Some r
    \<and> native_for_mapped br r (facing_poa f m0) m0 (h(a \<mapsto> v)) = Ok (True, Some native, h(a \<mapsto> v))"
proof -
  have m0: "mapped_values m0 = None" using evaluator_for_again(2) [OF assms(3)] assms(2) by simp
  let ?oid = "id_of_string br (to_ior br native)"
  let ?v = "native_value br m0 native ?oid ty f sec" and ?r = "make_ref br (facing_poa f m0) ?oid ty"
  have "add_native br ifr a native ty f sec (m # ms) h = Ok (Some a, m0 # ms, h(a \<mapsto> ?v))"
    using assms(3) m0 by (simp add: already_mapped_def add_native_unchecked_def)
  moreover have "native_for_mapped br ?r (facing_poa f m0) m0 (h(a \<mapsto> ?v)) = Ok (True, Some native, h(a \<mapsto> ?v))"
    using assms(1) m0 by (simp add: native_for_mapped_def broker_ok_def)
  ultimately show ?thesis
    by (intro exI [of _ ?v] exI [of _ ?r]) (simp add: native_value_def new_rmv_def)
qed

theorem stateless_roundtrip_witness:
  "\<exists>v r. add_native sample_broker (\<lambda>_. Interface) 5 ''..|IDnative'' ''ID'' False False
      [sample_mapper\<lparr>mapped_values := None, mkind := GenericMapper, evaluators := []\<rparr>] (\<lambda>_. None)
      = Ok (Some 5, [sample_mapper\<lparr>mapped_values := None, mkind := GenericMapper, evaluators := [''ID'']\<rparr>], [5 \<mapsto> v])
    \<and> native_for_mapped sample_broker r 1
        (sample_mapper\<lparr>mapped_values := None, mkind := GenericMapper, evaluators := [''ID'']\<rparr>) [5 \<mapsto> v]
      = Ok (True, Some ''..|IDnative'', [5 \<mapsto> v])"
proof -
  let ?m = "sample_mapper\<lparr>mapped_values := None, mkind := GenericMapper, evaluators := []\<rparr>"
  let ?g = "sample_mapper\<lparr>mapped_values := None, mkind := GenericMapper, evaluators := [''ID'']\<rparr>"
  have ev: "evaluator_for (\<lambda>_. Interface) ?m ''ID'' = (Some 0, ?g)"
    by (simp add: evaluator_for_def generic_evaluator_for_def add_evaluator_def)
  have p: "facing_poa False ?g = 1" by (simp add: facing_poa_def sample_mapper_def)
  have none: "mapped_values ?m = None" by simp
  obtain v r where "add_native sample_broker (\<lambda>_. Interface) 5 ''..|IDnative'' ''ID'' False False [?m] (\<lambda>_. None)
      = Ok (Some 5, [?g], [5 \<mapsto> v])"
    "native_for_mapped sample_broker r (facing_poa False ?g) ?g [5 \<mapsto> v] = Ok (True, Some ''..|IDnative'', [5 \<mapsto> v])"
    using stateless_roundtrip [OF sample_broker_ok none ev, of 5 "''..|IDnative''" False False "[]" "\<lambda>_. None"]
    by (elim exE conjE) (rule that)
  then show ?thesis unfolding p by (intro exI conjI)
qed

text \<open>
  Removing a mapped reference hands the table's reference to its value to the caller, and the mapping
  is gone: the mapped reference is then not replaced any more, and mapping it in the other
  direction dereferences the null pointer that the failed lookup left.
\<close>

theorem remove_mapped_gone:
  assumes "broker_ok br" and "mapped_values m = Some t" and "store_ok {} own (t, h)"
    and "lookup t i = Some a" and "evaluator_for ifr m ty = (Some k, m)"
    and "r = make_ref br (facing_poa f m) (oid_for br f i) ty"
  shows "\<exists>t' m'. remove_mapped br ifr r ty f (m # ms) h = Ok (Some a, m' # ms, h)
    \<and> m' = m\<lparr>mapped_values := Some t'\<rparr> \<and> lookup t' = (lookup t)(i := None)
    \<and> store_ok {} (own(a := own a + 1)) (t', h)
    \<and> (\<exists>h2. native_for_mapped br r (facing_poa f m) m' h = Ok (False, Some r, h2) \<and> contents h2 = contents h)
    \<and> add_native br ifr b r ty (\<not> f) sec (m' # ms) h = Fault NullDeref"
proof -
  obtain t' where u: "unbind i (t, h) = Ok (Some a, t', h)" "lookup t' = (lookup t)(i := None)"
    "store_ok {} (own(a := own a + 1)) (t', h)"
    using unbind_ok [OF assms(3), of i] assms(4) by auto
  let ?m = "m\<lparr>mapped_values := Some t'\<rparr>"
  have rid: "ref_id br (facing_poa f m) r = Some (oid_for br f i)"
    using assms(1,6) by (simp add: broker_ok_def)
  have rem: "remove_mapped br ifr r ty f (m # ms) h = Ok (Some a, ?m # ms, h)"
    using assms(2,5) rid u(1) by (simp add: oid_for_facts(4))
  obtain h2 where f: "mapper_find i ?m h = Ok (None, h2)" "contents h2 = contents h"
    using mapper_find_ok [of ?m t' "{}" "own(a := own a + 1)" h i] u(2,3) by auto
  have "native_for_mapped br r (facing_poa f m) ?m h = Ok (False, Some r, h2)"
    using rid f(1) by (simp add: native_for_mapped_def native_for_mapped_i_def oid_for_facts(4))
  moreover have "add_native br ifr b r ty (\<not> f) sec (?m # ms) h = Fault NullDeref"
    using evaluator_for_again(1) [OF assms(5), of "Some t'"] already_mapped_own [OF assms(1), of ?m] f(1) assms(6)
    by simp
  ultimately show ?thesis using rem u f(2) by blast
qed

definition bound_table :: rmv_table where
  "bound_table = \<lparr>high_index = 1, gc_period_secs = 60, gc_terminated = False, page_size = 2, free_stack = [],
      pages = [[Some 5, None]], num_pages = 1\<rparr>"

definition bound_heap :: "string rmv_heap" where
  "bound_heap = [5 \<mapsto> new_rmv\<lparr>orig_ref := Some ''..|IDnative'', ref_count := 2\<rparr>]"

lemma bound_store_ok:
  "store_ok {} ((\<lambda>_. 0)(5 := 1)) (bound_table, bound_heap)" "lookup bound_table 0 = Some 5"
proof -
  have "table_ok {} bound_table"
    by (auto simp: table_ok_def bound_table_def geometry_def slots_def limit_def nth_Cons')
  moreover have "slot_owners bound_table = (\<lambda>a. if a = 5 then 1 else 0)"
    by (auto simp: slot_owners_def slots_def bound_table_def)
  ultimately show "store_ok {} ((\<lambda>_. 0)(5 := 1)) (bound_table, bound_heap)"
    by (simp add: store_ok_def counted_def new_rmv_def bound_heap_def)
  show "lookup bound_table 0 = Some 5" by (simp add: lookup_def slots_def bound_table_def)
qed

theorem remove_mapped_gone_witness:
  "\<exists>t' m'. remove_mapped sample_broker (\<lambda>_. NilInterface)
        (make_ref sample_broker 2 (oid_for sample_broker True 0) ''ID'') ''ID'' True
        [sample_mapper\<lparr>mapped_values := Some bound_table\<rparr>] bound_heap = Ok (Some 5, [m'], bound_heap)
     \<and> m' = sample_mapper\<lparr>mapped_values := Some t'\<rparr> \<and> lookup t' = (lookup bound_table)(0 := None)"
proof -
  let ?m = "sample_mapper\<lparr>mapped_values := Some bound_table\<rparr>"
  have ev: "evaluator_for (\<lambda>_. NilInterface) ?m ''ID'' = (Some 0, ?m)"
    by (simp add: evaluator_for_def null_evaluator_for_def evaluator_head_def sample_mapper_def)
  have p: "facing_poa True ?m = 2" by (simp add: facing_poa_def sample_mapper_def)
  have mv: "mapped_values ?m = Some bound_table" by simp
  from remove_mapped_gone [OF sample_broker_ok mv bound_store_ok ev refl, of True "[]" 0 False]
  show ?thesis unfolding p by auto
qed

lemma evaluator_for_None: "evaluator_for ifr m ty = (None, m0) \<Longrightarrow> m0 = m"
  by (auto simp: evaluator_for_def generic_evaluator_for_def
      split: mapper_kind.splits option.splits ifr_answer.splits)

text \<open>
  The first mapper of the chain that has an evaluator for the type takes the reference; the mappers
  before it are left alone and the mappers after it are not asked. When no mapper has one, nothing
  happens and no value comes back.
\<close>

theorem first_mapper_takes_type:
  assumes "\<forall>x \<in> set xs. fst (evaluator_for ifr x ty) = None"
  shows "add_native br ifr a native ty f sec (xs @ ys) h
      = bindR (add_native br ifr a native ty f sec ys h) (\<lambda>(p, ys, h). Ok (p, xs @ ys, h))
    \<and> remove_mapped br ifr native ty f (xs @ ys) h
      = bindR (remove_mapped br ifr native ty f ys h) (\<lambda>(p, ys, h). Ok (p, xs @ ys, h))
    \<and> add_native br ifr a native ty f sec xs h = Ok (None, xs, h)"
  using assms
proof (induction xs)
  case Nil
  have "bindR r (\<lambda>(p, ys, h). Ok (p, ys, h)) = r" for r :: "(nat option \<times> 'b mapper list \<times> 'a rmv_heap) result"
    by (cases r) auto
  then show ?case by simp
next
  case (Cons x xs)
  obtain m0 where "evaluator_for ifr x ty = (None, m0)"
    using Cons.prems by (cases "evaluator_for ifr x ty") auto
  moreover from this have "m0 = x" by (rule evaluator_for_None)
  ultimately show ?case using Cons by (simp add: bindR_assoc split_def)
qed

theorem first_mapper_takes_type_witness:
  "add_native sample_broker (\<lambda>_. NilInterface) 5 ''..|IDnative'' ''ID'' True False
     ([sample_mapper\<lparr>mkind := NullMapper [''other'']\<rparr>] @ [sample_mapper]) (\<lambda>_. None)
   = bindR (add_native sample_broker (\<lambda>_. NilInterface) 5 ''..|IDnative'' ''ID'' True False [sample_mapper] (\<lambda>_. None))
       (\<lambda>(p, ys, h). Ok (p, [sample_mapper\<lparr>mkind := NullMapper [''other'']\<rparr>] @ ys, h))"
  by (rule first_mapper_takes_type [THEN conjunct1])
     (simp add: evaluator_for_def null_evaluator_for_def)

end
