(* ===== verification/ReferenceMapper.thy ===== *)
theory ReferenceMapper
  imports ProxyMapper
begin

text \<open>
  The reference mapper, the interface that applications in the enclave call
  (src/src/proxy/ReferenceMapper_i.h and ReferenceMapper_i.cpp): it maps a server's reference for use
  outside, with an optional name in the IOR table and an optional server agent, maps outside
  references for use inside, and removes mappings.

  Its state is the IOR table (absent when the broker has none), the security flag, the objects that the
  access decision object lets in without security, and the mappers and values it works on. The
  broker is the one of \<open>ProxyMapper\<close>; the change of a reference's type is an argument.
\<close>

record ('o, 'p) ref_mapper =
  ior_table :: "(string \<rightharpoonup> string) option"
  rm_security :: bool
  access_decision :: bool
  allowed :: "(8 word list \<times> 8 word list) list"
  chain_of :: "'p mapper list"
  rmvs :: "'o rmv_heap"

text \<open>
  The constructor: with security the access decision object is resolved, which may fail (\<open>found\<close>) without anything else than a message. The
  registry is the one whose chain is \<open>ms\<close>.
\<close>

definition new_ref_mapper :: "bool \<Rightarrow> (string \<rightharpoonup> string) option \<Rightarrow> bool \<Rightarrow> 'p mapper list \<Rightarrow> 'o rmv_heap \<Rightarrow> ('o, 'p) ref_mapper" where
  "new_ref_mapper found iort has_sec ms h = \<lparr>ior_table = iort, rm_security = has_sec, access_decision = has_sec \<and> found, allowed = [],
     chain_of = ms, rmvs = h\<rparr>"

definition supports_security :: "('o, 'p) ref_mapper \<Rightarrow> bool" where
  "supports_security st = rm_security st"

text \<open>\<open>allow_insecure_access\<close>: the object is entered with its POA and its object id.\<close>

definition allow_insecure_access ::
    "('o, 'p) broker \<Rightarrow> (string \<Rightarrow> ifr_answer) \<Rightarrow> 'o \<Rightarrow> ('o, 'p) ref_mapper \<Rightarrow> ('o, 'p) ref_mapper" where
  "allow_insecure_access br ifr self st =
     (if rm_security st \<and> access_decision st then
        (case poa_and_object_id br ifr self (chain_of st) of (known, poaid, oid, ms) \<Rightarrow>
           if known then st\<lparr>chain_of := ms, allowed := allowed st @ [(poaid, oid)]\<rparr>
           else st\<lparr>chain_of := ms\<rparr>)
      else st)"

text \<open>The binding in the IOR table; a name that is bound already stays as it is.\<close>

definition bind_name ::
    "('o, 'p) broker \<Rightarrow> nat \<Rightarrow> 'o \<Rightarrow> string \<Rightarrow> ('o, 'p) ref_mapper \<Rightarrow> ('o, 'p) ref_mapper result" where
  "bind_name br p mapped name st = (case ior_table st of
       None \<Rightarrow> Ok st
     | Some tab \<Rightarrow>
         if name = [] then Ok st
         else if tab name \<noteq> None then Ok st
         else bindR (rmv_at (rmvs st) p) (\<lambda>v.
           Ok (st\<lparr>ior_table := Some (tab(name \<mapsto> to_ior br mapped)),
                  rmvs := (rmvs st)(p \<mapsto> v\<lparr>ior_table_name := name\<rparr>)\<rparr>)))"

definition update_rmv ::
    "nat \<Rightarrow> ('o rmv \<Rightarrow> 'o rmv) \<Rightarrow> ('o, 'p) ref_mapper \<Rightarrow> ('o, 'p) ref_mapper result" where
  "update_rmv p f st = bindR (rmv_at (rmvs st) p) (\<lambda>v. Ok (st\<lparr>rmvs := (rmvs st)(p \<mapsto> f v)\<rparr>))"

text \<open>The end of scope of the smart pointer.\<close>

definition leave :: "nat option \<Rightarrow> ('o, 'p) ref_mapper \<Rightarrow> ('o, 'p) ref_mapper result" where
  "leave rmv st = bindR (var_dtor rmv (rmvs st)) (\<lambda>h. Ok (st\<lparr>rmvs := h\<rparr>))"

definition as_server_i ::
    "('o, 'p) broker \<Rightarrow> (string \<Rightarrow> ifr_answer) \<Rightarrow> nat \<Rightarrow> bool \<Rightarrow> 'o \<Rightarrow> string \<Rightarrow> 'o option \<Rightarrow>
     ('o, 'p) ref_mapper \<Rightarrow> ('o option \<times> ('o, 'p) ref_mapper) result" where
  "as_server_i br ifr a secure orig name agnt st =
     bindR (map_reference br ifr a orig True secure (chain_of st) (rmvs st)) (\<lambda>(rmv, ms, h).
     let st = st\<lparr>chain_of := ms, rmvs := h\<rparr> in
     case rmv of
       None \<Rightarrow> Ok (None, st)
     | Some p \<Rightarrow>
         bindR (rmv_at (rmvs st) p) (\<lambda>v.
         bindR (deref (mapped_ref v)) (\<lambda>mapped.
         bindR (bind_name br p mapped name st) (\<lambda>st.
         bindR (update_rmv p (\<lambda>v. v\<lparr>require_secure := Some secure\<rparr>) st) (\<lambda>st.
         let st = (if secure then st else allow_insecure_access br ifr mapped st) in
         bindR (if agnt = None then Ok st else update_rmv p (\<lambda>v. v\<lparr>agent := agnt\<rparr>) st) (\<lambda>st.
         bindR (leave rmv st) (\<lambda>st. Ok (Some mapped, st))))))))"

definition as_server ::
    "('o, 'p) broker \<Rightarrow> (string \<Rightarrow> ifr_answer) \<Rightarrow> nat \<Rightarrow> 'o option \<Rightarrow> string \<Rightarrow> 'o option \<Rightarrow>
     ('o, 'p) ref_mapper \<Rightarrow> ('o option \<times> ('o, 'p) ref_mapper) result" where
  "as_server br ifr a orig name agnt st = (case orig of
       None \<Rightarrow> Ok (None, st)
     | Some r \<Rightarrow> as_server_i br ifr a False r name agnt st)"

definition as_secure_server ::
    "('o, 'p) broker \<Rightarrow> (string \<Rightarrow> ifr_answer) \<Rightarrow> nat \<Rightarrow> 'o option \<Rightarrow> string \<Rightarrow> 'o option \<Rightarrow>
     ('o, 'p) ref_mapper \<Rightarrow> ('o option \<times> ('o, 'p) ref_mapper) result" where
  "as_secure_server br ifr a orig name agnt st =
     (if \<not> rm_security st then Fault (Thrown ''SecurityNotAvailable'')
      else case orig of
        None \<Rightarrow> Ok (None, st)
      | Some r \<Rightarrow> as_server_i br ifr a True r name agnt st)"

definition map_client ::
    "('o, 'p) broker \<Rightarrow> (string \<Rightarrow> ifr_answer) \<Rightarrow> nat \<Rightarrow> 'o \<Rightarrow>
     ('o, 'p) ref_mapper \<Rightarrow> ('o option \<times> ('o, 'p) ref_mapper) result" where
  "map_client br ifr a orig st =
     bindR (map_reference br ifr a orig False False (chain_of st) (rmvs st)) (\<lambda>(rmv, ms, h).
     let st = st\<lparr>chain_of := ms, rmvs := h\<rparr> in
     case rmv of
       None \<Rightarrow> Ok (None, st)
     | Some p \<Rightarrow>
         bindR (rmv_at (rmvs st) p) (\<lambda>v.
         bindR (leave rmv st) (\<lambda>st. Ok (mapped_ref v, st))))"

definition as_client ::
    "('o, 'p) broker \<Rightarrow> (string \<Rightarrow> ifr_answer) \<Rightarrow> nat \<Rightarrow> 'o option \<Rightarrow>
     ('o, 'p) ref_mapper \<Rightarrow> ('o option \<times> ('o, 'p) ref_mapper) result" where
  "as_client br ifr a orig st = (case orig of
       None \<Rightarrow> Ok (None, st) | Some r \<Rightarrow> map_client br ifr a r st)"

definition as_client_with_corbaloc ::
    "('o, 'p) broker \<Rightarrow> (string \<Rightarrow> ifr_answer) \<Rightarrow> (string \<Rightarrow> 'o \<Rightarrow> 'o) \<Rightarrow> nat \<Rightarrow> string \<Rightarrow> string \<Rightarrow>
     ('o, 'p) ref_mapper \<Rightarrow> ('o option \<times> ('o, 'p) ref_mapper) result" where
  "as_client_with_corbaloc br ifr set_type a corbaloc interface_id st = (case of_ior br corbaloc of
       None \<Rightarrow> Ok (None, st)
     | Some r \<Rightarrow> map_client br ifr a (set_type interface_id r) st)"

definition remove_server ::
    "('o, 'p) broker \<Rightarrow> (string \<Rightarrow> ifr_answer) \<Rightarrow> 'o option \<Rightarrow>
     ('o, 'p) ref_mapper \<Rightarrow> ('o, 'p) ref_mapper result" where
  "remove_server br ifr mapped st = (case mapped of
       None \<Rightarrow> Ok st
     | Some r \<Rightarrow>
         bindR (remove_reference br ifr r True (chain_of st) (rmvs st)) (\<lambda>(rmv, ms, h).
         let st = st\<lparr>chain_of := ms, rmvs := h\<rparr> in
         bindR (case rmv of
             None \<Rightarrow> Ok st
           | Some p \<Rightarrow>
               bindR (rmv_at (rmvs st) p) (\<lambda>v.
               if ior_table_name v = [] then Ok st
               else bindR (deref (ior_table st)) (\<lambda>tab.
                 if tab (ior_table_name v) = None then Fault (Thrown ''NotFound'')
                 else Ok (st\<lparr>ior_table := Some (tab(ior_table_name v := None))\<rparr>)))) (\<lambda>st.
         leave rmv st)))"

definition remove_client ::
    "('o, 'p) broker \<Rightarrow> (string \<Rightarrow> ifr_answer) \<Rightarrow> 'o option \<Rightarrow>
     ('o, 'p) ref_mapper \<Rightarrow> ('o, 'p) ref_mapper result" where
  "remove_client br ifr mapped st = (case mapped of
       None \<Rightarrow> Ok st
     | Some r \<Rightarrow>
         bindR (remove_reference br ifr r False (chain_of st) (rmvs st)) (\<lambda>(rmv, ms, h).
           leave rmv (st\<lparr>chain_of := ms, rmvs := h\<rparr>)))"

subsection \<open>What each step does\<close>

lemma store_ok_modify:
  assumes "store_ok pend own (t, h)" and "h a = Some v" and "ref_count w = ref_count v"
  shows "store_ok pend own (t, h(a \<mapsto> w))"
  using assms by (simp add: store_ok_def counted_def)

text \<open>The name goes into the table when there is a table, a name, and the name is free.\<close>

definition publishes :: "string \<Rightarrow> ('o, 'p) ref_mapper \<Rightarrow> bool" where
  "publishes name st = (case ior_table st of None \<Rightarrow> False | Some tab \<Rightarrow> name \<noteq> [] \<and> tab name = None)"

definition published :: "('o, 'p) broker \<Rightarrow> string \<Rightarrow> 'o \<Rightarrow> ('o, 'p) ref_mapper \<Rightarrow> (string \<rightharpoonup> string) option" where
  "published br name mapped st =
     (if publishes name st then map_option (\<lambda>tab. tab(name \<mapsto> to_ior br mapped)) (ior_table st) else ior_table st)"

lemma bind_name_ok:
  assumes "rmvs st p = Some v"
  shows "bind_name br p mapped name st
    = Ok (st\<lparr>ior_table := published br name mapped st,
             rmvs := (rmvs st)(p \<mapsto> v\<lparr>ior_table_name := if publishes name st then name else ior_table_name v\<rparr>)\<rparr>)"
proof -
  have "v\<lparr>ior_table_name := ior_table_name v\<rparr> = v" by (cases v) simp
  moreover have "(rmvs st)(p \<mapsto> v) = rmvs st" using assms by (simp add: map_upd_triv)
  moreover have "st\<lparr>ior_table := ior_table st\<rparr> = st" "st\<lparr>ior_table := ior_table st, rmvs := rmvs st\<rparr> = st"
    by (cases st; simp)+
  ultimately show ?thesis
    using assms by (auto simp: bind_name_def publishes_def published_def rmv_at_def split: option.split)
qed

lemma allow_insecure_access_ok:
  assumes "broker_ok br" and "chain_of st = m # ms" and "evaluator_for ifr m ty = (Some k, m)"
    and "out_facing_poa m = p" and "r = make_ref br p oid ty"
  shows "allow_insecure_access br ifr r st = st\<lparr>allowed := allowed st @
    (if rm_security st \<and> access_decision st then [(poa_id br p, oid)] else [])\<rparr>"
proof -
  have r: "type_of br r = ty" "ref_id br (out_facing_poa m) r = Some oid"
    using assms(1,4,5) by (simp_all add: broker_ok_def)
  have "poa_and_object_id br ifr r (m # ms) = (True, poa_id br p, oid, m # ms)"
    using assms(3,4) r by simp
  moreover have "st\<lparr>allowed := allowed st\<rparr> = st" "st\<lparr>chain_of := m # ms\<rparr> = st" using assms(2) by (cases st; simp)+
  ultimately show ?thesis using assms(2) by (simp add: allow_insecure_access_def)
qed

lemma update_rmv_ok:
  "rmvs st p = Some v \<Longrightarrow> update_rmv p f st = Ok (st\<lparr>rmvs := (rmvs st)(p \<mapsto> f v)\<rparr>)"
  by (simp add: update_rmv_def rmv_at_def)

lemma set_agent_ok:
  assumes "rmvs st p = Some v" and "agent v = None"
  shows "(if agnt = None then Ok st else update_rmv p (\<lambda>v. v\<lparr>agent := agnt\<rparr>) st)
    = Ok (st\<lparr>rmvs := (rmvs st)(p \<mapsto> v\<lparr>agent := agnt\<rparr>)\<rparr>)"
proof -
  have "v\<lparr>agent := None\<rparr> = v" using assms(2) by (cases v) simp
  moreover have "st\<lparr>rmvs := (rmvs st)(p \<mapsto> v)\<rparr> = st" using assms(1) by (cases st) (simp add: map_upd_triv)
  ultimately show ?thesis using update_rmv_ok [OF assms(1)] by simp
qed

text \<open>The value of a server after \<open>as_server_i\<close>, without its count.\<close>

definition server_value ::
    "('o, 'p) broker \<Rightarrow> 'p mapper \<Rightarrow> 'o \<Rightarrow> 32 word \<Rightarrow> bool \<Rightarrow> string \<Rightarrow> 'o option \<Rightarrow> 'o rmv" where
  "server_value br m orig i secure name agnt =
     (native_value br m orig (oid_for br True i) (type_of br orig) True secure)
       \<lparr>ior_table_name := name, agent := agnt, ref_count := 0\<rparr>"

text \<open>
  A reference mapper ready for a new server: a first mapper with a table that takes the type, a free
  address for the value, and a reference that is not itself a mapped one.
\<close>

definition server_ready ::
    "('o, 'p) broker \<Rightarrow> (string \<Rightarrow> ifr_answer) \<Rightarrow> (nat \<Rightarrow> nat) \<Rightarrow> nat \<Rightarrow> 'o \<Rightarrow>
     'p mapper \<Rightarrow> 'p mapper list \<Rightarrow> rmv_table \<Rightarrow> ('o, 'p) ref_mapper \<Rightarrow> bool" where
  "server_ready br ifr own a orig m ms t st \<longleftrightarrow>
     chain_of st = m # ms \<and> mapped_values m = Some t \<and> store_ok {} own (t, rmvs st) \<and> room t
     \<and> rmvs st a = None \<and> fst (evaluator_for ifr m (type_of br orig)) \<noteq> None
     \<and> fst (already_mapped br m orig True) = NOT_MAPPED"

definition server_mapper :: "(string \<Rightarrow> ifr_answer) \<Rightarrow> string \<Rightarrow> rmv_table \<Rightarrow> 'p mapper \<Rightarrow> 'p mapper" where
  "server_mapper ifr ty t m = (snd (evaluator_for ifr m ty))\<lparr>mapped_values := Some t\<rparr>"

lemma server_mapper_facts:
  assumes "fst (evaluator_for ifr m ty) \<noteq> None"
  shows "\<exists>k. evaluator_for ifr (server_mapper ifr ty t m) ty = (Some k, server_mapper ifr ty t m)"
    and "out_facing_poa (server_mapper ifr ty t m) = out_facing_poa m"
    and "server_mapper ifr ty t' (server_mapper ifr ty t m) = server_mapper ifr ty t' m"
    and "mapped_values (server_mapper ifr ty t m) = Some t"
proof -
  obtain k m0 where "evaluator_for ifr m ty = (Some k, m0)"
    using assms by (cases "evaluator_for ifr m ty") auto
  then show "\<exists>k. evaluator_for ifr (server_mapper ifr ty t m) ty = (Some k, server_mapper ifr ty t m)"
    "out_facing_poa (server_mapper ifr ty t m) = out_facing_poa m"
    "server_mapper ifr ty t' (server_mapper ifr ty t m) = server_mapper ifr ty t' m"
    "mapped_values (server_mapper ifr ty t m) = Some t"
    using evaluator_for_again [of ifr m ty k m0] by (simp_all add: server_mapper_def)
qed

definition server_ref :: "('o, 'p) broker \<Rightarrow> 'o \<Rightarrow> 'p mapper \<Rightarrow> 32 word \<Rightarrow> 'o" where
  "server_ref br orig m i = make_ref br (out_facing_poa m) (oid_for br True i) (type_of br orig)"

lemma map_server_ok:
  assumes "broker_ok br" and "server_ready br ifr own a orig m ms t st" and "i = fst (next_index t)"
  shows "\<exists>t' h v. map_reference br ifr a orig True secure (chain_of st) (rmvs st)
      = Ok (Some a, server_mapper ifr (type_of br orig) t' m # ms, h)
    \<and> lookup t i = None \<and> lookup t' = (lookup t)(i \<mapsto> a) \<and> store_ok {} (own(a := own a + 1)) (t', h)
    \<and> h a = Some v \<and> contents h = (contents (rmvs st))(a \<mapsto> v\<lparr>ref_count := 0\<rparr>)
    \<and> v\<lparr>ref_count := 0\<rparr> = server_value br m orig i secure [] None
    \<and> mapped_ref v = Some (server_ref br orig m i)"
proof -
  note r = assms(2) [unfolded server_ready_def]
  let ?ty = "type_of br orig"
  obtain k m0 where ev: "evaluator_for ifr m ?ty = (Some k, m0)"
    using r by (cases "evaluator_for ifr m ?ty") auto
  note again = evaluator_for_again [OF ev]
  have m0: "mapped_values m0 = Some t" using again(2) r by simp
  have st: "store_ok {} own (t, rmvs st)" "room t" "rmvs st a = None" using r by auto
  obtain t' h where u: "add_native_unchecked br a orig ?ty True secure m0 (rmvs st)
      = Ok (a, m0\<lparr>mapped_values := Some t'\<rparr>, h)"
    "lookup t i = None" "lookup t' = (lookup t)(i \<mapsto> a)" "store_ok {} (own(a := 1)) (t', h)"
    "contents h = (contents (rmvs st))(a \<mapsto> (native_value br m0 orig (oid_for br True i) ?ty True secure)\<lparr>ref_count := 0\<rparr>)"
    using add_native_unchecked_ok [OF m0 st] assms(3) by blast
  have nv: "native_value br m0 orig oid ?ty True secure = native_value br m orig oid ?ty True secure" for oid
    using again(4) by (simp add: native_value_def facing_poa_def)
  obtain v where v: "h a = Some v" "v\<lparr>ref_count := 0\<rparr> = server_value br m orig i secure [] None"
    using fun_cong [OF u(5), of a] unfolding nv
    by (cases "h a") (simp_all add: contents_def server_value_def native_value_def new_rmv_def)
  have own: "own a = 0" using counted_live [OF store_okD(2) [OF st(1)], of a] st(3) by simp
  have nm: "fst (already_mapped br m0 orig True) = NOT_MAPPED"
    using r by (simp add: already_mapped_cong [of m0 m] again(2))
  have run: "map_reference br ifr a orig True secure (chain_of st) (rmvs st)
      = Ok (Some a, server_mapper ifr ?ty t' m # ms, h)"
    using r ev nm u(1) by (cases "already_mapped br m0 orig True") (simp add: map_reference_def server_mapper_def)
  have c: "contents h = (contents (rmvs st))(a \<mapsto> v\<lparr>ref_count := 0\<rparr>)"
    using u(5) v(2) unfolding nv by (simp add: server_value_def native_value_def new_rmv_def)
  have "mapped_ref v = Some (server_ref br orig m i)"
    using arg_cong [OF v(2), of mapped_ref]
    by (simp add: server_value_def native_value_def server_ref_def facing_poa_def)
  with run u(2-4) v c own show ?thesis by auto
qed

lemma as_server_i_fresh:
  assumes "broker_ok br" and "server_ready br ifr own a orig m ms t st" and "i = fst (next_index t)"
  shows "\<exists>t' h. as_server_i br ifr a secure orig name agnt st
      = Ok (Some (server_ref br orig m i),
            st\<lparr>chain_of := server_mapper ifr (type_of br orig) t' m # ms, rmvs := h,
               ior_table := published br name (server_ref br orig m i) st,
               allowed := allowed st @
                 (if \<not> secure \<and> rm_security st \<and> access_decision st
                  then [(poa_id br (out_facing_poa m), oid_for br True i)] else [])\<rparr>)
    \<and> lookup t i = None \<and> lookup t' = (lookup t)(i \<mapsto> a) \<and> store_ok {} own (t', h)
    \<and> contents h = (contents (rmvs st))
        (a \<mapsto> server_value br m orig i secure (if publishes name st then name else []) agnt)"
proof -
  let ?r = "server_ref br orig m i" and ?ty = "type_of br orig"
  obtain t' h v where u: "map_reference br ifr a orig True secure (chain_of st) (rmvs st)
      = Ok (Some a, server_mapper ifr ?ty t' m # ms, h)"
    "lookup t i = None" "lookup t' = (lookup t)(i \<mapsto> a)" "store_ok {} (own(a := own a + 1)) (t', h)"
    "h a = Some v" "contents h = (contents (rmvs st))(a \<mapsto> v\<lparr>ref_count := 0\<rparr>)"
    "v\<lparr>ref_count := 0\<rparr> = server_value br m orig i secure [] None" "mapped_ref v = Some ?r"
    using map_server_ok [OF assms] by blast
  let ?m = "server_mapper ifr ?ty t' m" and ?n = "if publishes name st then name else []"
  have some: "fst (evaluator_for ifr m ?ty) \<noteq> None" using assms(2) by (simp add: server_ready_def)
  obtain k where k: "evaluator_for ifr ?m ?ty = (Some k, ?m)" using server_mapper_facts(1) [OF some] by blast
  have vn: "ior_table_name v = []" "agent v = None"
    using arg_cong [OF u(7), of ior_table_name] arg_cong [OF u(7), of agent] by (simp_all add: server_value_def)
  let ?v = "v\<lparr>ior_table_name := ?n, require_secure := Some secure, agent := agnt\<rparr>"
  let ?al = "if rm_security st \<and> access_decision st then [(poa_id br (out_facing_poa m), oid_for br True i)] else []"
  let ?s1 = "st\<lparr>chain_of := ?m # ms, rmvs := h\<rparr>"
  let ?s2 = "?s1\<lparr>ior_table := published br name ?r st, rmvs := h(a \<mapsto> v\<lparr>ior_table_name := ?n\<rparr>)\<rparr>"
  let ?s3 = "?s2\<lparr>rmvs := h(a \<mapsto> v\<lparr>ior_table_name := ?n, require_secure := Some secure\<rparr>)\<rparr>"
  let ?s4 = "?s3\<lparr>allowed := allowed st @ (if \<not> secure then ?al else [])\<rparr>"
  have pub: "publishes name ?s1 = publishes name st" "published br name ?r ?s1 = published br name ?r st"
    by (simp_all add: publishes_def published_def)
  have b: "bind_name br a ?r name ?s1 = Ok ?s2"
    using bind_name_ok [of ?s1 a v br ?r name] u(5) vn by (simp add: pub)
  have s: "update_rmv a (\<lambda>v. v\<lparr>require_secure := Some secure\<rparr>) ?s2 = Ok ?s3" by (simp add: update_rmv_ok)
  have poa: "out_facing_poa ?m = out_facing_poa m" by (rule server_mapper_facts(2) [OF some])
  have "allow_insecure_access br ifr ?r ?s3 = ?s3\<lparr>allowed := allowed ?s3 @ ?al\<rparr>"
    using allow_insecure_access_ok [OF assms(1) _ k poa, of ?s3 ms ?r "oid_for br True i"]
    by (simp add: server_ref_def)
  moreover have "?s3 = ?s3\<lparr>allowed := allowed st\<rparr>" by (cases st) simp
  ultimately have al: "(if secure then ?s3 else allow_insecure_access br ifr ?r ?s3) = ?s4" by (cases secure) simp_all
  have g: "(if agnt = None then Ok ?s4 else update_rmv a (\<lambda>v. v\<lparr>agent := agnt\<rparr>) ?s4)
      = Ok (?s4\<lparr>rmvs := h(a \<mapsto> ?v)\<rparr>)"
    using set_agent_ok [of ?s4 a "v\<lparr>ior_table_name := ?n, require_secure := Some secure\<rparr>"] vn(2) by simp
  have "store_ok {} (own(a := own a + 1)) (t', h(a \<mapsto> ?v))" using store_ok_modify [OF u(4,5)] by simp
  from drop_found [OF this] slot_owners_pos [of t' i a] u(3)
  obtain h' where d: "var_dtor (Some a) (h(a \<mapsto> ?v)) = Ok h'" "store_ok {} own (t', h')"
    "contents h' = contents (h(a \<mapsto> ?v))" by auto
  have c: "contents h' = (contents (rmvs st))(a \<mapsto> server_value br m orig i secure ?n agnt)"
  proof -
    have "?v\<lparr>ref_count := 0\<rparr> = (v\<lparr>ref_count := 0\<rparr>)\<lparr>ior_table_name := ?n, require_secure := Some secure, agent := agnt\<rparr>"
      by simp
    also have "\<dots> = server_value br m orig i secure ?n agnt"
      unfolding u(7) by (simp add: server_value_def native_value_def)
    moreover have "contents (h(a \<mapsto> ?v)) = (contents h)(a \<mapsto> ?v\<lparr>ref_count := 0\<rparr>)"
      by (simp add: contents_def fun_eq_iff)
    ultimately show ?thesis using d(3) u(6) by simp
  qed
  have "rmv_at (rmvs ?s1) a = Ok v" "leave (Some a) (?s4\<lparr>rmvs := h(a \<mapsto> ?v)\<rparr>) = Ok (?s4\<lparr>rmvs := h'\<rparr>)"
    using u(5) d(1) by (simp_all add: rmv_at_def leave_def)
  then have "as_server_i br ifr a secure orig name agnt st = Ok (Some ?r, ?s4\<lparr>rmvs := h'\<rparr>)"
    by (simp only: as_server_i_def u(1,8) bindR_simps prod.case Let_def option.case deref_simps b s al g)
  then show ?thesis using u(2,3) d(2) c by (intro exI [of _ t'] exI [of _ h']) simp
qed

subsection \<open>Removing a server\<close>

lemma slot_owners_lookup:
  assumes "geometry t"
  shows "0 < slot_owners t a \<longleftrightarrow> (\<exists>i. lookup t i = Some a)"
proof
  assume "0 < slot_owners t a"
  then obtain k where k: "k < length (slots t)" "slots t ! k = Some a"
    unfolding slot_owners_def by (metis count_list_0_iff in_set_conv_nth less_irrefl)
  have "unat (limit t) < 2 ^ LENGTH(32)" by (rule unsigned_less)
  with k(1) geometry_length [OF assms] have "unat (of_nat k :: 32 word) = k" by (simp add: unat_of_nat)
  with k show "\<exists>i. lookup t i = Some a" by (intro exI [of _ "of_nat k"]) (simp add: lookup_def)
qed (auto intro: slot_owners_pos)

lemma drop_last:
  assumes "store_ok pend (own(a := own a + 1)) (t, h)" and "own a = 0" and "\<forall>i. lookup t i \<noteq> Some a"
  shows "\<exists>h'. var_dtor (Some a) h = Ok h' \<and> store_ok pend own (t, h') \<and> contents h' = (contents h)(a := None)"
proof -
  note ok = store_okD [OF assms(1)]
  have z: "slot_owners t a = 0" using slot_owners_lookup [OF table_ok_geometry [OF ok(1)], of a] assms(3) by simp
  obtain h' where d: "decr_refcount a h = Ok (0, h')" "\<forall>b. contents h' b = (if b = a then None else contents h b)"
    using decr_refcount_store [OF ok(2), of a] assms(2) z by auto
  obtain h2 where h2: "var_dtor (Some a) h = Ok h2" "store_ok pend own (t, h2)" using drop_found [OF assms(1)] by blast
  have "h2 = h'" using d(1) h2(1) by (simp add: var_dtor_def decr_ptr_def)
  moreover have "contents h' = (contents h)(a := None)" using d(2) by (simp add: fun_eq_iff)
  ultimately show ?thesis using h2 by blast
qed

lemma remove_server_ok:
  assumes "broker_ok br" and "chain_of st = m # ms" and "mapped_values m = Some t"
    and "evaluator_for ifr m (type_of br orig) = (Some k, m)" and "store_ok {} own (t, rmvs st)"
    and "lookup t i = Some a" and "own a = 0" and "\<forall>j. lookup t j = Some a \<longrightarrow> j = i"
    and "contents (rmvs st) a = Some v" and "ior_table_name v = name"
    and "name \<noteq> [] \<longrightarrow> (\<exists>tab. ior_table st = Some tab \<and> tab name \<noteq> None)"
  shows "\<exists>t' h. remove_server br ifr (Some (server_ref br orig m i)) st
      = Ok (st\<lparr>chain_of := m\<lparr>mapped_values := Some t'\<rparr> # ms, rmvs := h,
               ior_table := if name = [] then ior_table st else map_option (\<lambda>tab. tab(name := None)) (ior_table st)\<rparr>)
    \<and> lookup t' = (lookup t)(i := None) \<and> free_stack t' = i # free_stack t \<and> store_ok {} own (t', h)
    \<and> contents h = (contents (rmvs st))(a := None)"
proof -
  let ?r = "server_ref br orig m i" and ?ty = "type_of br orig"
  obtain t' where u: "unbind i (t, rmvs st) = Ok (Some a, t', rmvs st)" "lookup t' = (lookup t)(i := None)"
    "store_ok {} (own(a := own a + 1)) (t', rmvs st)" "free_stack t' = i # free_stack t"
    using unbind_ok [OF assms(5), of i] assms(6) by auto
  let ?m = "m\<lparr>mapped_values := Some t'\<rparr>"
  have r: "type_of br ?r = ?ty" "ref_id br (facing_poa True m) ?r = Some (oid_for br True i)"
    using assms(1) by (simp_all add: broker_ok_def server_ref_def facing_poa_def)
  have rem: "remove_reference br ifr ?r True (chain_of st) (rmvs st) = Ok (Some a, ?m # ms, rmvs st)"
    using assms(2-4) r u(1) by (simp add: remove_reference_def oid_for_facts(4))
  obtain w where w: "rmvs st a = Some w" "ior_table_name w = name"
    using assms(9,10) by (cases "rmvs st a") (auto simp: contents_def)
  have "\<forall>j. lookup t' j \<noteq> Some a" using u(2) assms(8) by auto
  then obtain h where d: "var_dtor (Some a) (rmvs st) = Ok h" "store_ok {} own (t', h)"
    "contents h = (contents (rmvs st))(a := None)"
    using drop_last [OF u(3) assms(7)] by blast
  have "remove_server br ifr (Some ?r) st = Ok (st\<lparr>chain_of := ?m # ms, rmvs := h,
      ior_table := if name = [] then ior_table st else map_option (\<lambda>tab. tab(name := None)) (ior_table st)\<rparr>)"
    using rem w d(1) assms(11) by (auto simp: remove_server_def rmv_at_def leave_def)
  then show ?thesis using u(2,4) d(2,3) by blast
qed

text \<open>Publishing a free name and unbinding it gives the table back.\<close>

lemma published_unbound:
  "(if publishes name st then map_option (\<lambda>tab. tab(name := None)) (published br name r st)
    else published br name r st) = ior_table st"
  by (auto simp: published_def publishes_def fun_upd_idem split: option.split)

lemma fresh_address:
  assumes "store_ok pend own (t, h)" and "h a = None"
  shows "own a = 0" and "lookup t j \<noteq> Some a" and "contents h a = None"
  using counted_live [OF store_okD(2) [OF assms(1)], of a] assms(2) slot_owners_pos [of t j a]
  by (auto simp: contents_def)

lemma server_cycle:
  assumes "broker_ok br" and "server_ready br ifr own a orig m ms t st" and "i = fst (next_index t)"
  shows "\<exists>st1 st2 t2. as_server_i br ifr a secure orig name agnt st = Ok (Some (server_ref br orig m i), st1)
    \<and> ior_table st1 = published br name (server_ref br orig m i) st
    \<and> contents (rmvs st1) = (contents (rmvs st))
        (a \<mapsto> server_value br m orig i secure (if publishes name st then name else []) agnt)
    \<and> allowed st1 = allowed st @ (if \<not> secure \<and> rm_security st \<and> access_decision st
                  then [(poa_id br (out_facing_poa m), oid_for br True i)] else [])
    \<and> remove_server br ifr (Some (server_ref br orig m i)) st1 = Ok st2
    \<and> st2 = st\<lparr>chain_of := server_mapper ifr (type_of br orig) t2 m # ms, rmvs := rmvs st2, allowed := allowed st1\<rparr>
    \<and> lookup t2 = lookup t \<and> (\<exists>fs. free_stack t2 = i # fs)
    \<and> store_ok {} own (t2, rmvs st2) \<and> contents (rmvs st2) = contents (rmvs st)"
proof -
  let ?r = "server_ref br orig m i" and ?ty = "type_of br orig"
  let ?n = "if publishes name st then name else []"
  let ?al = "if \<not> secure \<and> rm_security st \<and> access_decision st
    then [(poa_id br (out_facing_poa m), oid_for br True i)] else []"
  obtain t1 h1 where s: "as_server_i br ifr a secure orig name agnt st
      = Ok (Some ?r, st\<lparr>chain_of := server_mapper ifr ?ty t1 m # ms, rmvs := h1,
           ior_table := published br name ?r st, allowed := allowed st @ ?al\<rparr>)"
    "lookup t i = None" "lookup t1 = (lookup t)(i \<mapsto> a)" "store_ok {} own (t1, h1)"
    "contents h1 = (contents (rmvs st))(a \<mapsto> server_value br m orig i secure ?n agnt)"
    using as_server_i_fresh [OF assms, of secure name agnt] by blast
  let ?m = "server_mapper ifr ?ty t1 m"
  let ?s1 = "st\<lparr>chain_of := ?m # ms, rmvs := h1, ior_table := published br name ?r st, allowed := allowed st @ ?al\<rparr>"
  have ready: "store_ok {} own (t, rmvs st)" "rmvs st a = None" "fst (evaluator_for ifr m ?ty) \<noteq> None"
    using assms(2) by (auto simp: server_ready_def)
  note fresh = fresh_address [OF ready(1,2)] and sm = server_mapper_facts [OF ready(3)]
  obtain k where k: "evaluator_for ifr ?m ?ty = (Some k, ?m)" using sm(1) by blast
  have only: "\<forall>j. lookup t1 j = Some a \<longrightarrow> j = i" using s(3) fresh(2) by auto
  have ref: "server_ref br orig ?m i = ?r" by (simp add: server_ref_def sm(2))
  have st1: "chain_of ?s1 = ?m # ms" "store_ok {} own (t1, rmvs ?s1)" "lookup t1 i = Some a"
    "contents (rmvs ?s1) a = Some (server_value br m orig i secure ?n agnt)"
    "ior_table_name (server_value br m orig i secure ?n agnt) = ?n"
    "?n \<noteq> [] \<longrightarrow> (\<exists>tab. ior_table ?s1 = Some tab \<and> tab ?n \<noteq> None)"
    using s(3-5) by (auto simp: server_value_def published_def publishes_def split: option.splits)
  obtain t2 h2 where e: "remove_server br ifr (Some ?r) ?s1 = Ok (?s1\<lparr>chain_of := ?m\<lparr>mapped_values := Some t2\<rparr> # ms,
      rmvs := h2, ior_table := if ?n = [] then ior_table ?s1 else map_option (\<lambda>tab. tab(?n := None)) (ior_table ?s1)\<rparr>)"
    "lookup t2 = (lookup t1)(i := None)" "free_stack t2 = i # free_stack t1" "store_ok {} own (t2, h2)"
    "contents h2 = (contents (rmvs ?s1))(a := None)"
    using remove_server_ok [OF assms(1) st1(1) sm(4) k st1(2,3) fresh(1) only st1(4,5,6)] unfolding ref by blast
  have "(if ?n = [] then ior_table ?s1 else map_option (\<lambda>tab. tab(?n := None)) (ior_table ?s1)) = ior_table st"
    using published_unbound [of name st br ?r] by (auto simp: publishes_def split: option.splits)
  moreover have "?m\<lparr>mapped_values := Some t2\<rparr> = server_mapper ifr ?ty t2 m" by (simp add: server_mapper_def)
  ultimately have rem: "remove_server br ifr (Some ?r) ?s1
      = Ok (st\<lparr>chain_of := server_mapper ifr ?ty t2 m # ms, rmvs := h2, allowed := allowed ?s1\<rparr>)"
    using e(1) by (cases st) simp
  have "lookup t2 = lookup t" "contents h2 = contents (rmvs st)"
    using e(2,5) s(2,3,5) fresh(3) by (auto simp: fun_eq_iff)
  with s(1,5) rem e(3,4) show ?thesis
    by (intro exI [of _ ?s1] exI [of _ "st\<lparr>chain_of := server_mapper ifr ?ty t2 m # ms, rmvs := h2, allowed := allowed ?s1\<rparr>"]
        exI [of _ t2]) simp
qed

text \<open>Ready again after a server is gone, and the index it had comes next.\<close>

lemma ready_again:
  assumes "server_ready br ifr own a orig m ms t st" and "type_of br orig2 = type_of br orig"
    and "fst (already_mapped br m orig2 True) = NOT_MAPPED"
    and "chain_of st2 = server_mapper ifr (type_of br orig) t2 m # ms" and "free_stack t2 = i # fs"
    and "store_ok {} own (t2, rmvs st2)" and "contents (rmvs st2) = contents (rmvs st)"
  shows "server_ready br ifr own a orig2 (server_mapper ifr (type_of br orig) t2 m) ms t2 st2"
    and "fst (next_index t2) = i"
proof -
  let ?m = "server_mapper ifr (type_of br orig) t2 m"
  note ready = assms(1) [unfolded server_ready_def]
  have some: "fst (evaluator_for ifr m (type_of br orig)) \<noteq> None" using ready by simp
  note sm = server_mapper_facts [OF some]
  obtain k where k: "evaluator_for ifr ?m (type_of br orig) = (Some k, ?m)" using sm(1) by blast
  have "rmvs st2 a = None" using fun_cong [OF assms(7), of a] ready by (simp add: contents_def)
  moreover have "fst (already_mapped br ?m orig2 True) = NOT_MAPPED"
    using assms(3) ready by (simp add: already_mapped_cong [of ?m m] sm(4))
  ultimately show "server_ready br ifr own a orig2 ?m ms t2 st2"
    using assms(2,4-6) k sm(4) by (simp add: server_ready_def room_def)
  show "fst (next_index t2) = i" using next_index_reused(1) [OF store_okD(1) [OF assms(6)] assms(5)] by simp
qed

text \<open>The call that an application makes, by whether it asks for security.\<close>

definition serve ::
    "('o, 'p) broker \<Rightarrow> (string \<Rightarrow> ifr_answer) \<Rightarrow> nat \<Rightarrow> bool \<Rightarrow> 'o \<Rightarrow> string \<Rightarrow> 'o option \<Rightarrow>
     ('o, 'p) ref_mapper \<Rightarrow> ('o option \<times> ('o, 'p) ref_mapper) result" where
  "serve br ifr a secure orig name agnt st =
     (if secure then as_secure_server br ifr a (Some orig) name agnt st
      else as_server br ifr a (Some orig) name agnt st)"

lemma serve_i: "secure \<longrightarrow> rm_security st \<Longrightarrow>
    serve br ifr a secure orig name agnt st = as_server_i br ifr a secure orig name agnt st"
  by (simp add: serve_def as_secure_server_def as_server_def)

subsection \<open>Properties\<close>

text \<open>
  C11: When the first mapper keeps a table (\<open>CacheProxyReferences\<close> set, which it is not by default), takes the server's type and has room, mapping a server whose
  reference is not itself a mapped one publishes it and removing it undoes that. The name is bound in the IOR table to the mapped reference when it is
  free and otherwise left alone; the value holds the original reference, the security flag and the agent; removing gives back the IOR table, the
  mappings and the values as they were before, the value of the server freed. No step faults. Without a table the removal leaves the name
  bound: \<open>without_table\<close> of theory DefaultMode.
\<close>

theorem server_roundtrip:
  assumes "broker_ok br" and "server_ready br ifr own a orig m ms t st" and "secure \<longrightarrow> rm_security st"
  shows "\<exists>r st1 v st2 t2. serve br ifr a secure orig name agnt st = Ok (Some r, st1)
    \<and> type_of br r = type_of br orig \<and> ior_table st1 = published br name r st
    \<and> rmvs st1 a = Some v \<and> orig_ref v = Some (original_ref br orig) \<and> mapped_ref v = Some r
    \<and> require_secure v = Some secure \<and> agent v = agnt
    \<and> remove_server br ifr (Some r) st1 = Ok st2 \<and> ior_table st2 = ior_table st
    \<and> chain_of st2 = server_mapper ifr (type_of br orig) t2 m # ms \<and> lookup t2 = lookup t
    \<and> contents (rmvs st2) = contents (rmvs st) \<and> rmvs st2 a = None \<and> store_ok {} own (t2, rmvs st2)"
proof -
  let ?i = "fst (next_index t)" let ?r = "server_ref br orig m ?i"
  let ?v = "server_value br m orig ?i secure (if publishes name st then name else []) agnt"
  obtain st1 st2 t2 where c: "as_server_i br ifr a secure orig name agnt st = Ok (Some ?r, st1)"
    "ior_table st1 = published br name ?r st" "contents (rmvs st1) = (contents (rmvs st))(a \<mapsto> ?v)"
    "remove_server br ifr (Some ?r) st1 = Ok st2"
    "st2 = st\<lparr>chain_of := server_mapper ifr (type_of br orig) t2 m # ms, rmvs := rmvs st2, allowed := allowed st1\<rparr>"
    "lookup t2 = lookup t" "store_ok {} own (t2, rmvs st2)" "contents (rmvs st2) = contents (rmvs st)"
    using server_cycle [OF assms(1,2) refl, of secure name agnt] by blast
  obtain v where v: "rmvs st1 a = Some v" "v\<lparr>ref_count := 0\<rparr> = ?v"
    using fun_cong [OF c(3), of a] by (cases "rmvs st1 a") (auto simp: contents_def)
  have f: "orig_ref v = Some (original_ref br orig)" "mapped_ref v = Some ?r" "require_secure v = Some secure"
    "agent v = agnt"
    using arg_cong [OF v(2), of orig_ref] arg_cong [OF v(2), of mapped_ref] arg_cong [OF v(2), of require_secure]
      arg_cong [OF v(2), of agent]
    by (simp_all add: server_value_def native_value_def server_ref_def facing_poa_def)
  have "ior_table st2 = ior_table st" "chain_of st2 = server_mapper ifr (type_of br orig) t2 m # ms"
    by (subst c(5), simp)+
  moreover have "rmvs st2 a = None"
    using fun_cong [OF c(8), of a] assms(2) by (simp add: contents_def server_ready_def)
  moreover have "type_of br ?r = type_of br orig" using assms(1) by (simp add: server_ref_def broker_ok_def)
  ultimately show ?thesis using c v(1) f serve_i [OF assms(3)]
    by (intro exI [of _ ?r] exI [of _ st1] exI [of _ v] exI [of _ st2] exI [of _ t2]) simp
qed

definition sample_ref_mapper :: "(string, nat) ref_mapper" where
  "sample_ref_mapper = \<lparr>ior_table = Some (\<lambda>_. None), rm_security = True, access_decision = True, allowed = [],
     chain_of = [sample_mapper], rmvs = (\<lambda>_. None)\<rparr>"

lemma sample_ready:
  assumes "orig \<in> {''..|IDnative'', ''..|IDother''}"
  shows "server_ready sample_broker (\<lambda>_. NilInterface) (\<lambda>_. 0) 5 orig sample_mapper [] (new_table 60 2) sample_ref_mapper"
proof -
  have "fst (already_mapped sample_broker sample_mapper orig True) = NOT_MAPPED"
    using assms by (auto simp: already_mapped_def sample_broker_def ref_body_def dots_def id_size_def)
  then show ?thesis using sample_mapper_ok by (simp add: server_ready_def sample_ref_mapper_def)
qed

theorem server_roundtrip_witness:
  "\<exists>r st1 st2. serve sample_broker (\<lambda>_. NilInterface) 5 True ''..|IDnative'' ''name'' (Some ''agent'') sample_ref_mapper
      = Ok (Some r, st1) \<and> ior_table st1 = Some [''name'' \<mapsto> r]
    \<and> remove_server sample_broker (\<lambda>_. NilInterface) (Some r) st1 = Ok st2 \<and> ior_table st2 = Some (\<lambda>_. None)"
proof -
  have sec: "True \<longrightarrow> rm_security sample_ref_mapper" by (simp add: sample_ref_mapper_def)
  have pub: "published sample_broker ''name'' r sample_ref_mapper = Some [''name'' \<mapsto> r]" for r
    by (simp add: published_def publishes_def sample_ref_mapper_def sample_broker_def)
  have tab: "ior_table sample_ref_mapper = Some (\<lambda>_. None)" by (simp add: sample_ref_mapper_def)
  from server_roundtrip [OF sample_broker_ok sample_ready sec, of "''..|IDnative''" "''name''" "Some ''agent''"]
  show ?thesis unfolding pub tab by auto
qed

text \<open>
  C39: The entry for insecure access outlives the server it was made for. After a server without
  security is removed, a server mapped with security gets the same mapped reference, since the free
  index is used again: the access decision still holds the entry that lets requests to this reference
  in without security, and the reference that the clients of the first server keep leads to the second.
\<close>

theorem stale_insecure_access:
  assumes "broker_ok br" and "server_ready br ifr own a orig m ms t st"
    and "rm_security st" and "access_decision st"
    and "type_of br secret = type_of br orig" and "fst (already_mapped br m secret True) = NOT_MAPPED"
  shows "\<exists>r st1 st2 st3 m3 poa oid. as_server br ifr a (Some orig) name agnt st = Ok (Some r, st1)
    \<and> remove_server br ifr (Some r) st1 = Ok st2
    \<and> as_secure_server br ifr a (Some secret) name2 agnt2 st2 = Ok (Some r, st3)
    \<and> chain_of st3 = m3 # ms
    \<and> poa_and_object_id br ifr r (chain_of st3) = (True, poa, oid, chain_of st3) \<and> (poa, oid) \<in> set (allowed st3)
    \<and> (\<exists>h. native_for_mapped br r (out_facing_poa m3) m3 (rmvs st3) = Ok (True, Some (original_ref br secret), h))"
proof -
  let ?i = "fst (next_index t)" let ?r = "server_ref br orig m ?i" and ?ty = "type_of br orig"
  obtain st1 st2 t2 fs where c: "as_server_i br ifr a False orig name agnt st = Ok (Some ?r, st1)"
    "allowed st1 = allowed st @ [(poa_id br (out_facing_poa m), oid_for br True ?i)]"
    "remove_server br ifr (Some ?r) st1 = Ok st2"
    "st2 = st\<lparr>chain_of := server_mapper ifr ?ty t2 m # ms, rmvs := rmvs st2, allowed := allowed st1\<rparr>"
    "free_stack t2 = ?i # fs" "store_ok {} own (t2, rmvs st2)" "contents (rmvs st2) = contents (rmvs st)"
    using server_cycle [OF assms(1,2) refl, of False name agnt] assms(3,4) by auto
  let ?m2 = "server_mapper ifr ?ty t2 m"
  note ready = assms(2) [unfolded server_ready_def]
  have some: "fst (evaluator_for ifr m ?ty) \<noteq> None" using ready by simp
  note sm = server_mapper_facts [OF some]
  have st2: "chain_of st2 = ?m2 # ms" "rm_security st2" "allowed st2 = allowed st1"
    by (subst c(4), simp add: assms(3))+
  have ready2: "server_ready br ifr own a secret ?m2 ms t2 st2" and next2: "?i = fst (next_index t2)"
    using ready_again [OF assms(2,5,6) st2(1) c(5,6,7)] by simp_all
  have same: "server_ref br secret ?m2 ?i = ?r" using assms(5) by (simp add: server_ref_def sm(2))
  obtain t3 h3 where s: "as_server_i br ifr a True secret name2 agnt2 st2
      = Ok (Some ?r, st2\<lparr>chain_of := server_mapper ifr ?ty t3 ?m2 # ms, rmvs := h3,
           ior_table := published br name2 ?r st2, allowed := allowed st2\<rparr>)"
    "lookup t3 ?i = Some a" "store_ok {} own (t3, h3)"
    "contents h3 a = Some (server_value br ?m2 secret ?i True (if publishes name2 st2 then name2 else []) agnt2)"
    using as_server_i_fresh [OF assms(1) ready2 next2, of True name2 agnt2] unfolding same assms(5) by auto
  let ?m3 = "server_mapper ifr ?ty t3 ?m2"
  let ?s3 = "st2\<lparr>chain_of := ?m3 # ms, rmvs := h3, ior_table := published br name2 ?r st2, allowed := allowed st2\<rparr>"
  have m3: "?m3 = server_mapper ifr ?ty t3 m" "out_facing_poa ?m3 = out_facing_poa m" by (simp_all add: sm)
  have r: "type_of br ?r = ?ty" "ref_id br (out_facing_poa m) ?r = Some (oid_for br True ?i)"
    using assms(1) by (simp_all add: server_ref_def broker_ok_def)
  obtain k where k: "evaluator_for ifr ?m3 ?ty = (Some k, ?m3)" using sm(1) unfolding m3(1) by blast
  have ids: "poa_and_object_id br ifr ?r (?m3 # ms)
      = (True, poa_id br (out_facing_poa m), oid_for br True ?i, ?m3 # ms)"
    using k r by (simp add: m3(2))
  let ?v = "server_value br ?m2 secret ?i True (if publishes name2 st2 then name2 else []) agnt2"
  have t3: "mapped_values ?m3 = Some t3" unfolding m3(1) by (rule sm(4))
  have "contents h3 a = Some (?v\<lparr>ref_count := 0\<rparr>)" using s(4) by (simp add: server_value_def)
  from native_for_mapped_bound [OF t3 s(3,2) this, of br True]
  obtain h where "native_for_mapped_i br (oid_for br True ?i) ?m3 h3 = Ok (Some (original_ref br secret), agnt2, h)"
    by (auto simp: server_value_def native_value_def)
  then have "native_for_mapped br ?r (out_facing_poa ?m3) ?m3 h3 = Ok (True, Some (original_ref br secret), h)"
    unfolding native_for_mapped_def m3(2) r(2) using t3 by simp
  then show ?thesis using c(1-3) s(1) st2 ids
    by (intro exI [of _ ?r] exI [of _ st1] exI [of _ st2] exI [of _ ?s3] exI [of _ ?m3]
        exI [of _ "poa_id br (out_facing_poa m)"] exI [of _ "oid_for br True ?i"])
       (simp add: as_server_def as_secure_server_def)
qed

theorem stale_insecure_access_witness:
  "\<exists>r st1 st2 st3 poa oid. as_server sample_broker (\<lambda>_. NilInterface) 5 (Some ''..|IDnative'') [] None sample_ref_mapper
      = Ok (Some r, st1)
    \<and> remove_server sample_broker (\<lambda>_. NilInterface) (Some r) st1 = Ok st2
    \<and> as_secure_server sample_broker (\<lambda>_. NilInterface) 5 (Some ''..|IDother'') [] None st2 = Ok (Some r, st3)
    \<and> poa_and_object_id sample_broker (\<lambda>_. NilInterface) r (chain_of st3) = (True, poa, oid, chain_of st3)
    \<and> (poa, oid) \<in> set (allowed st3)"
proof -
  have ty: "type_of sample_broker ''..|IDother'' = type_of sample_broker ''..|IDnative''"
    by (simp add: sample_broker_def ref_body_def dots_def)
  have sec: "rm_security sample_ref_mapper" "access_decision sample_ref_mapper" by (simp_all add: sample_ref_mapper_def)
  have nm: "fst (already_mapped sample_broker sample_mapper ''..|IDother'' True) = NOT_MAPPED"
    using sample_ready [of "''..|IDother''"] by (simp add: server_ready_def)
  from stale_insecure_access [OF sample_broker_ok sample_ready [OF insertI1] sec ty nm, of "[]" None "[]" None]
  show ?thesis by (elim exE conjE) (intro exI conjI)
qed

text \<open>
  A client inside that is handed the mapped reference of a server inside reaches the server
  directly: mapping the server's reference as a client's gives the original reference, and leaves the
  mappings, the values and the IOR table as they are.
\<close>

theorem client_reaches_server:
  assumes "broker_ok br" and "server_ready br ifr own a orig m ms t st" and "secure \<longrightarrow> rm_security st"
    and "rmvs st b = None" and "b \<noteq> a"
  shows "\<exists>r st1 st2 t1. serve br ifr a secure orig name agnt st = Ok (Some r, st1)
    \<and> as_client br ifr b (Some r) st1 = Ok (Some (original_ref br orig), st2)
    \<and> st2 = st1\<lparr>rmvs := rmvs st2\<rparr> \<and> contents (rmvs st2) = contents (rmvs st1)
    \<and> chain_of st1 = server_mapper ifr (type_of br orig) t1 m # ms \<and> store_ok {} own (t1, rmvs st2)"
proof -
  let ?i = "fst (next_index t)" let ?r = "server_ref br orig m ?i" and ?ty = "type_of br orig"
  let ?v = "server_value br m orig ?i secure (if publishes name st then name else []) agnt"
  obtain t1 h1 st1 where s: "as_server_i br ifr a secure orig name agnt st = Ok (Some ?r, st1)"
    "chain_of st1 = server_mapper ifr ?ty t1 m # ms" "rmvs st1 = h1" "lookup t1 = (lookup t)(?i \<mapsto> a)"
    "store_ok {} own (t1, h1)" "contents h1 = (contents (rmvs st))(a \<mapsto> ?v)"
    using as_server_i_fresh [OF assms(1,2) refl, of secure name agnt] by fastforce
  let ?m = "server_mapper ifr ?ty t1 m"
  have some: "fst (evaluator_for ifr m ?ty) \<noteq> None" using assms(2) by (simp add: server_ready_def)
  note sm = server_mapper_facts [OF some]
  obtain k where k: "evaluator_for ifr ?m ?ty = (Some k, ?m)" using sm(1) by blast
  have b: "h1 b = None" using fun_cong [OF s(6), of b] assms(4,5) by (simp add: contents_def)
  note fresh = fresh_address [OF s(5) b]
  have at: "lookup t1 ?i = Some a" "contents h1 a = Some (?v\<lparr>ref_count := 0\<rparr>)"
    using s(4,6) by (simp_all add: server_value_def)
  obtain h2 w where n: "add_native br ifr b ?r ?ty False False (?m # ms) h1 = Ok (Some b, ?m # ms, h2)"
    "h2 b = Some w" "mapped_ref w = Some (original_ref br orig)" "store_ok {} (own(b := own b + 1)) (t1, h2)"
    "contents h2 = (contents h1)(b \<mapsto> w\<lparr>ref_count := 0\<rparr>)"
    using add_native_reverse [OF assms(1) sm(4) s(5) at(1) k b at(2), of "out_facing_poa m" True False ms] fresh(1)
    by (auto simp: server_ref_def server_value_def native_value_def)
  obtain h3 where d: "var_dtor (Some b) h2 = Ok h3" "store_ok {} own (t1, h3)" "contents h3 = (contents h2)(b := None)"
    using drop_last [OF n(4) fresh(1)] fresh(2) by blast
  have "type_of br ?r = ?ty" using assms(1) by (simp add: server_ref_def broker_ok_def)
  then have "as_client br ifr b (Some ?r) st1 = Ok (Some (original_ref br orig), st1\<lparr>chain_of := ?m # ms, rmvs := h3\<rparr>)"
    using n(1-3) d(1) s(2,3) by (simp add: as_client_def map_client_def map_reference_def rmv_at_def leave_def)
  moreover have "st1\<lparr>chain_of := ?m # ms, rmvs := h3\<rparr> = st1\<lparr>rmvs := h3\<rparr>" using s(2) by (cases st1) simp
  moreover have "contents h3 = contents h1" using d(3) n(5) fresh(3) by (auto simp: fun_eq_iff)
  ultimately show ?thesis using s(1,2,3) d(2) serve_i [OF assms(3)]
    by (intro exI [of _ ?r] exI [of _ st1] exI [of _ "st1\<lparr>rmvs := h3\<rparr>"] exI [of _ t1]) simp
qed

theorem client_reaches_server_witness:
  "\<exists>r st1 st2. serve sample_broker (\<lambda>_. NilInterface) 5 False ''..|IDnative'' [] None sample_ref_mapper = Ok (Some r, st1)
    \<and> as_client sample_broker (\<lambda>_. NilInterface) 6 (Some r) st1 = Ok (Some ''..|IDnative'', st2)"
proof -
  have "original_ref sample_broker ''..|IDnative'' = ''..|IDnative''"
    by (simp add: original_ref_def supports_secure_def sample_broker_def)
  moreover have "rmvs sample_ref_mapper 6 = None" "(6 :: nat) \<noteq> 5" "False \<longrightarrow> rm_security sample_ref_mapper"
    by (simp_all add: sample_ref_mapper_def)
  ultimately show ?thesis
    using client_reaches_server [OF sample_broker_ok sample_ready [OF insertI1], of False 6 "[]" None] by auto
qed

end
