(* ===== verification/TypeCode.thy ===== *)
theory TypeCode
  imports Prelude
begin

text \<open>
  The search for object references in a type (\<open>has_objref\<close> of src/src/lorica/GenericEvaluator.cpp).

  Type codes are opaque; \<open>view\<close> gives the kind of a type code with its parts, as the operations
  \<open>kind\<close>, \<open>content_type\<close> and \<open>member_type\<close> of the broker answer. A recursive type is a type code that is
  reached from its own parts, so \<open>has_objref\<close> is a \<open>partial_function\<close> whose \<^term>\<open>None\<close> is a recursion that never
  ends. On type codes without infinite descent it decides whether a reference or an any can be reached;
  from a set of type codes that leads back into itself it never returns.
\<close>

datatype 't tc_view =
    Tk_null
  | Tk_void
  | Tk_objref
  | Tk_alias 't
  | Tk_struct "'t list"
  | Tk_except "'t list"
  | Tk_union "'t list"
  | Tk_array 't
  | Tk_sequence 't
  | Tk_any
  | Tk_other

subsection \<open>Does a type have object references?\<close>

text \<open>
  \<open>has_any\<close> is the loop over members with its early exit, \<open>has_objref\<close> of one type code is the loop over that
  one; an alias is replaced by its content.
\<close>

partial_function (option) has_any :: "('t \<Rightarrow> 't tc_view) \<Rightarrow> 't list \<Rightarrow> bool option" where
  "has_any view ts = (case ts of
       [] \<Rightarrow> Some False
     | t # ts' \<Rightarrow>
         Option.bind (case view t of
             Tk_null \<Rightarrow> Some False
           | Tk_void \<Rightarrow> Some False
           | Tk_objref \<Rightarrow> Some True
           | Tk_alias u \<Rightarrow> has_any view [u]
           | Tk_struct us \<Rightarrow> has_any view us
           | Tk_except us \<Rightarrow> has_any view us
           | Tk_union us \<Rightarrow> has_any view us
           | Tk_array u \<Rightarrow> has_any view [u]
           | Tk_sequence u \<Rightarrow> has_any view [u]
           | Tk_any \<Rightarrow> Some True
           | Tk_other \<Rightarrow> Some False) (\<lambda>result.
         if result then Some True else has_any view ts'))"

definition has_objref :: "('t \<Rightarrow> 't tc_view) \<Rightarrow> 't \<Rightarrow> bool option" where
  "has_objref view t = has_any view [t]"

partial_function (option) strip_alias :: "('t \<Rightarrow> 't tc_view) \<Rightarrow> 't \<Rightarrow> 't option" where
  "strip_alias view t = (case view t of Tk_alias u \<Rightarrow> strip_alias view u | _ \<Rightarrow> Some t)"

text \<open>The type codes that a type code refers to, and the specification: a reference or an any is reached.\<close>

definition parts :: "'t tc_view \<Rightarrow> 't list" where
  "parts v = (case v of Tk_alias u \<Rightarrow> [u] | Tk_struct us \<Rightarrow> us | Tk_except us \<Rightarrow> us | Tk_union us \<Rightarrow> us
     | Tk_array u \<Rightarrow> [u] | Tk_sequence u \<Rightarrow> [u] | _ \<Rightarrow> [])"

inductive reaches_ref :: "('t \<Rightarrow> 't tc_view) \<Rightarrow> 't \<Rightarrow> bool" for view where
  here: "view t = Tk_objref \<or> view t = Tk_any \<Longrightarrow> reaches_ref view t"
| inside: "u \<in> set (parts (view t)) \<Longrightarrow> reaches_ref view u \<Longrightarrow> reaches_ref view t"

text \<open>A type code without infinite descent.\<close>

inductive tc_finite :: "('t \<Rightarrow> 't tc_view) \<Rightarrow> 't \<Rightarrow> bool" for view where
  "(\<And>u. u \<in> set (parts (view t)) \<Longrightarrow> tc_finite view u) \<Longrightarrow> tc_finite view t"

lemmas reaches_ref_step = reaches_ref.simps [of view t for view t]

lemma has_any_Nil [simp]: "has_any view [] = Some False"
  by (simp add: has_any.simps)

lemma has_any_exit: "(\<lambda>b. if b then Some True else has_any view []) = Some"
  by (auto simp: fun_eq_iff)

lemma has_any_Cons:
  "has_any view (t # ts) = Option.bind (has_objref view t) (\<lambda>b. if b then Some True else has_any view ts)"
  unfolding has_objref_def by (subst (1 2) has_any.simps) (simp add: has_any_exit)

lemma has_objref_step:
  "has_objref view t =
     (if view t = Tk_objref \<or> view t = Tk_any then Some True else has_any view (parts (view t)))"
  unfolding has_objref_def by (subst has_any.simps) (simp add: has_any_exit parts_def split: tc_view.split)

lemma has_any_finite:
  assumes "\<And>u. u \<in> set ts \<Longrightarrow> has_objref view u = Some (reaches_ref view u)"
  shows "has_any view ts = Some (\<exists>u \<in> set ts. reaches_ref view u)"
  using assms by (induction ts) (auto simp: has_any_Cons)

lemma has_objref_finite: "tc_finite view t \<Longrightarrow> has_objref view t = Some (reaches_ref view t)"
proof (induction rule: tc_finite.induct)
  case (1 t)
  from has_any_finite [of "parts (view t)" view] 1
  show ?case by (auto simp: has_objref_step [of view t] reaches_ref_step [of view t])
qed

text \<open>The searches that return, as a relation.\<close>

inductive settles :: "('t \<Rightarrow> 't tc_view) \<Rightarrow> 't list \<Rightarrow> bool \<Rightarrow> bool" for view where
  none: "settles view [] False"
| ref: "view t = Tk_objref \<or> view t = Tk_any \<Longrightarrow> settles view (t # ts) True"
| found: "view t \<noteq> Tk_objref \<and> view t \<noteq> Tk_any \<Longrightarrow> settles view (parts (view t)) True \<Longrightarrow> settles view (t # ts) True"
| passed: "view t \<noteq> Tk_objref \<and> view t \<noteq> Tk_any \<Longrightarrow> settles view (parts (view t)) False \<Longrightarrow> settles view ts b \<Longrightarrow>
    settles view (t # ts) b"

lemma settles_head:
  assumes "\<And>ts b. f view ts = Some b \<Longrightarrow> settles view ts b"
    and "(case view t of Tk_null \<Rightarrow> Some False | Tk_void \<Rightarrow> Some False | Tk_objref \<Rightarrow> Some True | Tk_alias u \<Rightarrow> f view [u]
      | Tk_struct us \<Rightarrow> f view us | Tk_except us \<Rightarrow> f view us | Tk_union us \<Rightarrow> f view us | Tk_array u \<Rightarrow> f view [u]
      | Tk_sequence u \<Rightarrow> f view [u] | Tk_any \<Rightarrow> Some True | Tk_other \<Rightarrow> Some False) = Some r"
  shows "(view t = Tk_objref \<or> view t = Tk_any) \<and> r
    \<or> view t \<noteq> Tk_objref \<and> view t \<noteq> Tk_any \<and> settles view (parts (view t)) r"
  using assms by (cases "view t") (auto simp: parts_def intro: settles.none)

lemma has_any_settles:
  assumes "has_any view ts = Some b"
  shows "settles view ts b"
proof (rule has_any.raw_induct [where P = settles, OF _ assms], goal_cases)
  case (1 f view ts b)
  show ?case
  proof (cases ts)
    case Nil
    with 1(2) show ?thesis by (auto intro: settles.none)
  next
    case (Cons t ts')
    from 1(2) [unfolded Cons list.case] obtain r where
      "(case view t of Tk_null \<Rightarrow> Some False | Tk_void \<Rightarrow> Some False | Tk_objref \<Rightarrow> Some True | Tk_alias u \<Rightarrow> f view [u]
        | Tk_struct us \<Rightarrow> f view us | Tk_except us \<Rightarrow> f view us | Tk_union us \<Rightarrow> f view us | Tk_array u \<Rightarrow> f view [u]
        | Tk_sequence u \<Rightarrow> f view [u] | Tk_any \<Rightarrow> Some True | Tk_other \<Rightarrow> Some False) = Some r"
      "(if r then Some True else f view ts') = Some b"
      unfolding bind_eq_Some_conv by (elim exE conjE) (rule that)
    with settles_head [of f view t r, OF 1(1)] 1(1) [of view ts' b] Cons
    show ?thesis by (cases r) (auto intro: settles.intros)
  qed
qed

lemma settles_has_any: "settles view ts b \<Longrightarrow> has_any view ts = Some b"
  by (induction rule: settles.induct) (simp_all add: has_any_Cons has_objref_step)

text \<open>
  A set of type codes from which the search never returns: each has, after parts in which the search finds
  nothing, a part in the set.
\<close>

definition stuck :: "('t \<Rightarrow> 't tc_view) \<Rightarrow> 't set \<Rightarrow> 't list \<Rightarrow> bool" where
  "stuck view S ts \<longleftrightarrow> (\<exists>pre u post. ts = pre @ u # post \<and> u \<in> S \<and> (\<forall>x \<in> set pre. has_objref view x = Some False))"

definition endless :: "('t \<Rightarrow> 't tc_view) \<Rightarrow> 't set \<Rightarrow> bool" where
  "endless view S \<longleftrightarrow> (\<forall>t \<in> S. view t \<noteq> Tk_objref \<and> view t \<noteq> Tk_any \<and> stuck view S (parts (view t)))"

lemma stuck_Cons:
  "stuck view S (t # ts) \<longleftrightarrow> t \<in> S \<or> (has_objref view t = Some False \<and> stuck view S ts)"
proof
  assume "stuck view S (t # ts)"
  then obtain pre u post where "t # ts = pre @ u # post" "u \<in> S" "\<forall>x \<in> set pre. has_objref view x = Some False"
    unfolding stuck_def by blast
  then show "t \<in> S \<or> (has_objref view t = Some False \<and> stuck view S ts)"
    unfolding stuck_def by (cases pre) auto
next
  assume "t \<in> S \<or> (has_objref view t = Some False \<and> stuck view S ts)"
  then show "stuck view S (t # ts)"
    unfolding stuck_def by (auto intro: exI [of _ "[]"]) (metis append_Cons set_ConsD)
qed

lemma settles_not_stuck: "settles view ts b \<Longrightarrow> endless view S \<Longrightarrow> \<not> stuck view S ts"
proof (induction rule: settles.induct)
  case none
  then show ?case by (simp add: stuck_def)
next
  case (ref t ts)
  then show ?case by (auto simp: stuck_Cons endless_def has_objref_step)
next
  case (found t ts)
  then show ?case using settles_has_any [of view "parts (view t)" True]
    by (auto simp: stuck_Cons endless_def has_objref_step)
next
  case (passed t ts b)
  then show ?case by (auto simp: stuck_Cons endless_def)
qed

lemma has_objref_endless:
  assumes "endless view S" and "t \<in> S"
  shows "has_objref view t = None"
proof (cases "has_objref view t")
  case (Some b)
  then have "settles view [t] b" unfolding has_objref_def by (rule has_any_settles)
  with assms settles_not_stuck [of view "[t]" b S] show ?thesis by (simp add: stuck_Cons)
qed simp

end
