(* ===== verification/GenericEvaluator.thy ===== *)
theory GenericEvaluator
  imports OperationTable TypeCode
begin

text \<open>
  The generic evaluator (src/src/lorica/GenericEvaluator.h and GenericEvaluator.cpp): for an operation
  that the interface repository describes, it replaces every object reference in the arguments, in the result
  and in a raised exception by the mapped one.

  Values are trees of dynamic values with the type code of each node; the components that the
  dynamic value of a structure gives out are the components themselves, so that what the code assigns
  to a component is a change of the structure. The mapping of one reference is an argument, a function
  on some state that may fault; \<open>map_refs\<close> is the specification, all references of a value from left to right.
\<close>

subsection \<open>Replacing the references of a value\<close>

text \<open>
  Dynamic values by their class, each with its type code: a reference, a structure or exception, a
  sequence, an array, a union with its active member if any, an any, and the rest.
\<close>

datatype ('o, 't) dyn =
    DRef 't "'o option"
  | DStruct 't "('o, 't) dyn list"
  | DSeq 't "('o, 't) dyn list"
  | DArray 't "('o, 't) dyn list"
  | DUnion 't "('o, 't) dyn option"
  | DAny 't "('o, 't) dyn"
  | DPlain 't

fun dyn_tc :: "('o, 't) dyn \<Rightarrow> 't" where
  "dyn_tc (DRef t r) = t" | "dyn_tc (DStruct t ds) = t" | "dyn_tc (DSeq t ds) = t" | "dyn_tc (DArray t ds) = t"
| "dyn_tc (DUnion t x) = t" | "dyn_tc (DAny t x) = t" | "dyn_tc (DPlain t) = t"

text \<open>The kind after the aliases are stripped.\<close>

definition tc_base :: "('t \<Rightarrow> 't tc_view) \<Rightarrow> 't \<Rightarrow> 't tc_view option" where
  "tc_base view t = map_option view (strip_alias view t)"

definition check :: "('t \<Rightarrow> 't tc_view) \<Rightarrow> 't \<Rightarrow> bool result option" where
  "check view t = map_option Ok (has_objref view t)"

text \<open>The reference case: a reference that is not mapped, or mapped to nil, stays.\<close>

type_synonym ('o, 's) ref_map = "'o option \<Rightarrow> 's \<Rightarrow> (bool \<times> 'o option \<times> 's) result"

definition replace_ref :: "('o, 's) ref_map \<Rightarrow> 't \<Rightarrow> 'o option \<Rightarrow> 's \<Rightarrow> (bool \<times> ('o, 't) dyn \<times> 's) result" where
  "replace_ref mapf t r s = bindR (mapf r s) (\<lambda>(mapped, r', s).
     if \<not> mapped then Ok (False, DRef t r, s)
     else if r' \<noteq> None then Ok (True, DRef t r', s) else Ok (False, DRef t r, s))"

text \<open>
  A value whose class is not the one of its kind: a narrowing gives nil, which is dereferenced when the
  case gets that far, and the accessors of references and anys throw.
\<close>

definition narrow_failure ::
    "('t \<Rightarrow> 't tc_view) \<Rightarrow> 't tc_view \<Rightarrow> ('o, 't) dyn \<Rightarrow> 's \<Rightarrow> (bool \<times> ('o, 't) dyn \<times> 's) result option" where
  "narrow_failure view k d s =
     (let unless = (\<lambda>refs. map_option (\<lambda>b. if b then Fault NullDeref else Ok (False, d, s)) refs) in
      case k of
        Tk_objref \<Rightarrow> Some (Fault (Thrown ''TypeMismatch''))
      | Tk_struct ms \<Rightarrow> unless (has_any view ms)
      | Tk_except ms \<Rightarrow> unless (has_any view ms)
      | Tk_array u \<Rightarrow> unless (has_objref view u)
      | Tk_sequence u \<Rightarrow> unless (has_objref view u)
      | Tk_union ms \<Rightarrow> Some (Fault NullDeref)
      | Tk_any \<Rightarrow> Some (Fault (Thrown ''TypeMismatch''))
      | _ \<Rightarrow> Some (Ok (False, d, s)))"

definition with_kind :: "('t \<Rightarrow> 't tc_view) \<Rightarrow> 't \<Rightarrow> ('t tc_view \<Rightarrow> 'a result option) \<Rightarrow> 'a result option" where
  "with_kind view t f = Option.bind (tc_base view t) f"

fun proxify ::
      "('t \<Rightarrow> 't tc_view) \<Rightarrow> ('o, 's) ref_map \<Rightarrow> ('o, 't) dyn \<Rightarrow> 's \<Rightarrow> (bool \<times> ('o, 't) dyn \<times> 's) result option"
  and proxify_members ::
      "('t \<Rightarrow> 't tc_view) \<Rightarrow> ('o, 's) ref_map \<Rightarrow> 't list \<Rightarrow> ('o, 't) dyn list \<Rightarrow> 's \<Rightarrow>
       (bool \<times> ('o, 't) dyn list \<times> 's) result option"
  and proxify_elements ::
      "('t \<Rightarrow> 't tc_view) \<Rightarrow> ('o, 's) ref_map \<Rightarrow> ('o, 't) dyn list \<Rightarrow> 's \<Rightarrow>
       (bool \<times> ('o, 't) dyn list \<times> 's) result option" where
  "proxify view mapf (DRef t r) s = with_kind view t (\<lambda>k. case k of
       Tk_objref \<Rightarrow> Some (replace_ref mapf t r s)
     | _ \<Rightarrow> narrow_failure view k (DRef t r) s)"
| "proxify view mapf (DStruct t ds) s = with_kind view t (\<lambda>k. case k of
       Tk_struct ms \<Rightarrow> bindP (proxify_members view mapf ms ds s) (\<lambda>(b, ds, s). Some (Ok (b, DStruct t ds, s)))
     | Tk_except ms \<Rightarrow> bindP (proxify_members view mapf ms ds s) (\<lambda>(b, ds, s). Some (Ok (b, DStruct t ds, s)))
     | _ \<Rightarrow> narrow_failure view k (DStruct t ds) s)"
| "proxify view mapf (DSeq t ds) s = with_kind view t (\<lambda>k. case k of
       Tk_array u \<Rightarrow> bindP (check view u) (\<lambda>refs. if \<not> refs then Some (Ok (False, DSeq t ds, s)) else
         bindP (proxify_elements view mapf ds s) (\<lambda>(b, ds, s). Some (Ok (b, DSeq t ds, s))))
     | Tk_sequence u \<Rightarrow> bindP (check view u) (\<lambda>refs. if \<not> refs then Some (Ok (False, DSeq t ds, s)) else
         bindP (proxify_elements view mapf ds s) (\<lambda>(b, ds, s). Some (Ok (b, DSeq t ds, s))))
     | _ \<Rightarrow> narrow_failure view k (DSeq t ds) s)"
| "proxify view mapf (DArray t ds) s = with_kind view t (\<lambda>k. narrow_failure view k (DArray t ds) s)"
| "proxify view mapf (DUnion t None) s = with_kind view t (\<lambda>k. case k of
       Tk_union ms \<Rightarrow> Some (Ok (False, DUnion t None, s))
     | _ \<Rightarrow> narrow_failure view k (DUnion t None) s)"
| "proxify view mapf (DUnion t (Some x)) s = with_kind view t (\<lambda>k. case k of
       Tk_union ms \<Rightarrow> bindP (check view (dyn_tc x)) (\<lambda>refs. if \<not> refs then Some (Ok (False, DUnion t (Some x), s)) else
         bindP (proxify view mapf x s) (\<lambda>(b, x, s). Some (Ok (b, DUnion t (Some x), s))))
     | _ \<Rightarrow> narrow_failure view k (DUnion t (Some x)) s)"
| "proxify view mapf (DAny t x) s = with_kind view t (\<lambda>k. case k of
       Tk_any \<Rightarrow> bindP (check view (dyn_tc x)) (\<lambda>refs. if \<not> refs then Some (Ok (False, DAny t x, s)) else
         bindP (proxify view mapf x s) (\<lambda>(b, x, s). Some (Ok (b, DAny t x, s))))
     | _ \<Rightarrow> narrow_failure view k (DAny t x) s)"
| "proxify view mapf (DPlain t) s = with_kind view t (\<lambda>k. narrow_failure view k (DPlain t) s)"
| "proxify_members view mapf [] ds s = Some (Ok (False, ds, s))"
| "proxify_members view mapf (m # ms) [] s = bindP (check view m) (\<lambda>refs.
     if refs then Some (Fault NullDeref) else proxify_members view mapf ms [] s)"
| "proxify_members view mapf (m # ms) (d # ds) s = bindP (check view m) (\<lambda>refs.
     bindP (if refs then proxify view mapf d s else Some (Ok (False, d, s))) (\<lambda>(b, d, s).
     bindP (proxify_members view mapf ms ds s) (\<lambda>(c, ds, s). Some (Ok (b \<or> c, d # ds, s)))))"
| "proxify_elements view mapf [] s = Some (Ok (False, [], s))"
| "proxify_elements view mapf (d # ds) s = bindP (proxify view mapf d s) (\<lambda>(b, d, s).
     bindP (proxify_elements view mapf ds s) (\<lambda>(c, ds, s). Some (Ok (b \<or> c, d # ds, s))))"

text \<open>\<open>proxify_any\<close> keeps the value as it was unless something was replaced.\<close>

definition proxify_any ::
    "('t \<Rightarrow> 't tc_view) \<Rightarrow> ('o, 's) ref_map \<Rightarrow> ('o, 't) dyn \<Rightarrow> 's \<Rightarrow> (('o, 't) dyn \<times> 's) result option" where
  "proxify_any view mapf d s = bindP (proxify view mapf d s) (\<lambda>(replaced, d', s).
     Some (Ok (if replaced then d' else d, s)))"

subsection \<open>What replacing means\<close>

text \<open>The specification: every reference of the value, from left to right.\<close>

fun map_refs :: "('o, 's) ref_map \<Rightarrow> ('o, 't) dyn \<Rightarrow> 's \<Rightarrow> (bool \<times> ('o, 't) dyn \<times> 's) result"
  and map_refs_list :: "('o, 's) ref_map \<Rightarrow> ('o, 't) dyn list \<Rightarrow> 's \<Rightarrow> (bool \<times> ('o, 't) dyn list \<times> 's) result" where
  "map_refs mapf (DRef t r) s = replace_ref mapf t r s"
| "map_refs mapf (DStruct t ds) s = bindR (map_refs_list mapf ds s) (\<lambda>(b, ds, s). Ok (b, DStruct t ds, s))"
| "map_refs mapf (DSeq t ds) s = bindR (map_refs_list mapf ds s) (\<lambda>(b, ds, s). Ok (b, DSeq t ds, s))"
| "map_refs mapf (DArray t ds) s = bindR (map_refs_list mapf ds s) (\<lambda>(b, ds, s). Ok (b, DArray t ds, s))"
| "map_refs mapf (DUnion t None) s = Ok (False, DUnion t None, s)"
| "map_refs mapf (DUnion t (Some x)) s = bindR (map_refs mapf x s) (\<lambda>(b, x, s). Ok (b, DUnion t (Some x), s))"
| "map_refs mapf (DAny t x) s = bindR (map_refs mapf x s) (\<lambda>(b, x, s). Ok (b, DAny t x, s))"
| "map_refs mapf (DPlain t) s = Ok (False, DPlain t, s)"
| "map_refs_list mapf [] s = Ok (False, [], s)"
| "map_refs_list mapf (d # ds) s = bindR (map_refs mapf d s) (\<lambda>(b, d, s).
     bindR (map_refs_list mapf ds s) (\<lambda>(c, ds, s). Ok (b \<or> c, d # ds, s)))"

text \<open>A value that its type codes describe; the type codes are not recursive.\<close>

fun typed :: "('t \<Rightarrow> 't tc_view) \<Rightarrow> ('o, 't) dyn \<Rightarrow> bool" where
  "typed view (DRef t r) = (tc_finite view t \<and> tc_base view t = Some Tk_objref)"
| "typed view (DStruct t ds) = (tc_finite view t \<and> tc_base view t \<in> {Some (Tk_struct (map dyn_tc ds)), Some (Tk_except (map dyn_tc ds))}
     \<and> (\<forall>d \<in> set ds. typed view d))"
| "typed view (DSeq t ds) = (tc_finite view t \<and> (case tc_base view t of
       Some (Tk_sequence u) \<Rightarrow> (\<forall>d \<in> set ds. dyn_tc d = u \<and> typed view d) | _ \<Rightarrow> False))"
| "typed view (DArray t ds) = (tc_finite view t \<and> (case tc_base view t of
       Some (Tk_array u) \<Rightarrow> (\<forall>d \<in> set ds. dyn_tc d = u \<and> typed view d) | _ \<Rightarrow> False))"
| "typed view (DUnion t x) = (tc_finite view t \<and> (case tc_base view t of
       Some (Tk_union ms) \<Rightarrow> (case x of None \<Rightarrow> True | Some d \<Rightarrow> dyn_tc d \<in> set ms \<and> typed view d) | _ \<Rightarrow> False))"
| "typed view (DAny t x) = (tc_finite view t \<and> tc_base view t = Some Tk_any \<and> typed view x)"
| "typed view (DPlain t) = (tc_finite view t \<and> tc_base view t \<in> {Some Tk_null, Some Tk_void, Some Tk_other})"

text \<open>No array whose elements can hold a reference.\<close>

fun no_ref_array :: "('t \<Rightarrow> 't tc_view) \<Rightarrow> ('o, 't) dyn \<Rightarrow> bool" where
  "no_ref_array view (DStruct t ds) = (\<forall>d \<in> set ds. no_ref_array view d)"
| "no_ref_array view (DSeq t ds) = (\<forall>d \<in> set ds. no_ref_array view d)"
| "no_ref_array view (DArray t ds) = (has_objref view t = Some False)"
| "no_ref_array view (DUnion t (Some x)) = no_ref_array view x"
| "no_ref_array view (DAny t x) = no_ref_array view x"
| "no_ref_array view d = True"

lemma tc_finite_part: "tc_finite view t \<Longrightarrow> u \<in> set (parts (view t)) \<Longrightarrow> tc_finite view u"
  by (erule tc_finite.cases) blast

lemma has_objref_alias: "view t = Tk_alias u \<Longrightarrow> has_objref view t = has_objref view u"
  by (simp add: has_objref_step [of view t] parts_def has_any_Cons has_any_exit)

text \<open>Stripping the aliases of a finite type code ends, and keeps what the search finds.\<close>

lemma strip_alias_finite:
  "tc_finite view t \<Longrightarrow> \<exists>u. strip_alias view t = Some u \<and> tc_finite view u \<and> has_objref view u = has_objref view t
     \<and> (\<forall>x. view u \<noteq> Tk_alias x)"
proof (induction rule: tc_finite.induct)
  case (1 t)
  show ?case
  proof (cases "\<exists>x. view t = Tk_alias x")
    case True
    then obtain x where x: "view t = Tk_alias x" by blast
    then have "strip_alias view t = strip_alias view x" by (simp add: strip_alias.simps)
    with 1(2) [of x] x show ?thesis by (auto simp: parts_def has_objref_alias)
  next
    case False
    then have "strip_alias view t = Some t" by (subst strip_alias.simps) (auto split: tc_view.split)
    moreover have "tc_finite view t" using 1(1) by (rule tc_finite.intros)
    ultimately show ?thesis using False by auto
  qed
qed

lemma tc_base_finite:
  assumes "tc_finite view t" and "tc_base view t = Some k"
  shows "has_objref view t = (if k = Tk_objref \<or> k = Tk_any then Some True else has_any view (parts k))"
    and "u \<in> set (parts k) \<Longrightarrow> tc_finite view u"
proof -
  obtain v where "strip_alias view t = Some v" "tc_finite view v" "has_objref view v = has_objref view t"
    using strip_alias_finite [OF assms(1)] by blast
  then show "has_objref view t = (if k = Tk_objref \<or> k = Tk_any then Some True else has_any view (parts k))"
    "u \<in> set (parts k) \<Longrightarrow> tc_finite view u"
    using assms(2) has_objref_step [of view v] tc_finite_part [of view v u] by (auto simp: tc_base_def)
qed

lemma typed_finite: "typed view d \<Longrightarrow> tc_finite view (dyn_tc d)"
  by (cases d) auto

lemma has_any_False:
  "has_any view ts = Some False \<longleftrightarrow> (\<forall>u \<in> set ts. has_objref view u = Some False)"
  by (induction ts) (auto simp: has_any_Cons bind_eq_Some_conv split: if_splits)

text \<open>What a typed value's kind is.\<close>

lemma typed_DStructE:
  assumes "typed view (DStruct t ds)"
  obtains k where "tc_finite view t" "tc_base view t = Some k" "k = Tk_struct (map dyn_tc ds) \<or> k = Tk_except (map dyn_tc ds)"
    "\<forall>d \<in> set ds. typed view d"
  using assms by auto

lemma typed_DSeqE:
  assumes "typed view (DSeq t ds)"
  obtains u where "tc_finite view t" "tc_base view t = Some (Tk_sequence u)" "\<forall>d \<in> set ds. dyn_tc d = u \<and> typed view d"
  using assms by (cases "tc_base view t") (auto split: tc_view.splits)

lemma typed_DArrayE:
  assumes "typed view (DArray t ds)"
  obtains u where "tc_finite view t" "tc_base view t = Some (Tk_array u)" "\<forall>d \<in> set ds. dyn_tc d = u \<and> typed view d"
  using assms by (cases "tc_base view t") (auto split: tc_view.splits)

lemma typed_DUnionE:
  assumes "typed view (DUnion t x)"
  obtains ms where "tc_finite view t" "tc_base view t = Some (Tk_union ms)"
    "\<forall>d. x = Some d \<longrightarrow> dyn_tc d \<in> set ms \<and> typed view d"
  using assms by (cases "tc_base view t") (auto split: tc_view.splits option.splits)

text \<open>The components of a value without references in its type have none in theirs.\<close>

lemma struct_components:
  assumes "typed view (DStruct t ds)" and "has_objref view t = Some False"
  shows "\<forall>d \<in> set ds. typed view d \<and> has_objref view (dyn_tc d) = Some False"
  by (rule typed_DStructE [OF assms(1)])
     (use assms(2) in \<open>auto simp: tc_base_finite(1) parts_def has_any_False\<close>)

lemma seq_components:
  assumes "typed view (DSeq t ds) \<or> typed view (DArray t ds)" and "has_objref view t = Some False"
  shows "\<forall>d \<in> set ds. typed view d \<and> has_objref view (dyn_tc d) = Some False"
  using assms(1)
proof
  assume "typed view (DSeq t ds)"
  then show ?thesis
    by (rule typed_DSeqE) (use assms(2) in \<open>auto simp: tc_base_finite(1) parts_def has_any_False\<close>)
next
  assume "typed view (DArray t ds)"
  then show ?thesis
    by (rule typed_DArrayE) (use assms(2) in \<open>auto simp: tc_base_finite(1) parts_def has_any_False\<close>)
qed

lemma union_component:
  assumes "typed view (DUnion t (Some x))" and "has_objref view t = Some False"
  shows "typed view x \<and> has_objref view (dyn_tc x) = Some False"
  by (rule typed_DUnionE [OF assms(1)])
     (use assms(2) in \<open>auto simp: tc_base_finite(1) parts_def has_any_False\<close>)

lemma map_refs_none:
  shows "typed view d \<Longrightarrow> has_objref view (dyn_tc d) = Some False \<Longrightarrow> map_refs mapf d s = Ok (False, d, s)"
    and "(\<forall>d \<in> set ds. typed view d \<and> has_objref view (dyn_tc d) = Some False) \<Longrightarrow>
      map_refs_list mapf ds s = Ok (False, ds, s)"
proof (induction mapf d s and mapf ds s rule: map_refs_map_refs_list.induct)
  case (1 mapf t r s)
  then show ?case by (simp add: tc_base_finite(1))
next
  case (2 mapf t ds s)
  show ?case using 2(1) [OF struct_components [OF 2(2)]] 2(3) by simp
next
  case (3 mapf t ds s)
  show ?case using 3(1) [OF seq_components [OF disjI1 [OF 3(2)]]] 3(3) by simp
next
  case (4 mapf t ds s)
  show ?case using 4(1) [OF seq_components [OF disjI2 [OF 4(2)]]] 4(3) by simp
next
  case (6 mapf t x s)
  show ?case using 6(1) union_component [OF 6(2)] 6(3) by simp
next
  case (7 mapf t x s)
  then show ?case by (simp add: tc_base_finite(1))
next
  case (10 mapf d ds s)
  have d: "map_refs mapf d s = Ok (False, d, s)" using 10(1,3) by simp
  have "map_refs_list mapf ds s = Ok (False, ds, s)" using 10(2) [OF d refl refl] 10(3) by simp
  with d show ?case by simp
qed simp_all

lemma check_finite: "tc_finite view t \<Longrightarrow> check view t = Some (Ok (reaches_ref view t))"
  by (simp add: check_def has_objref_finite)

text \<open>The test before a component: it skips only components without references.\<close>

lemma checked_component:
  assumes "typed view d" and "dyn_tc d = u"
    and "check view u = Some (Ok True) \<Longrightarrow> proxify view mapf d s = Some (map_refs mapf d s)"
  shows "bindP (check view u) (\<lambda>refs. if \<not> refs then g (False, d, s) else bindP (proxify view mapf d s) g)
    = bindP (Some (map_refs mapf d s)) g"
proof -
  have fin: "tc_finite view u" using typed_finite [OF assms(1)] assms(2) by simp
  show ?thesis
  proof (cases "reaches_ref view u")
    case False
    then have "map_refs mapf d s = Ok (False, d, s)"
      using map_refs_none(1) [OF assms(1)] has_objref_finite [OF fin] assms(2) by simp
    with False show ?thesis by (simp add: check_finite [OF fin])
  qed (simp add: check_finite [OF fin] assms(3))
qed

lemma with_kind_Some [simp]: "tc_base view t = Some k \<Longrightarrow> with_kind view t f = f k"
  by (simp add: with_kind_def)

text \<open>On values that their type codes describe, the code does what the specification says.\<close>

lemma members_map_refs:
  assumes "\<forall>d \<in> set ds. typed view d \<and> (\<forall>s. proxify view mapf d s = Some (map_refs mapf d s))"
  shows "proxify_members view mapf (map dyn_tc ds) ds s = Some (map_refs_list mapf ds s)"
  using assms
proof (induction ds arbitrary: s)
  case (Cons d ds)
  let ?rest = "\<lambda>(b, d, s). bindP (proxify_members view mapf (map dyn_tc ds) ds s) (\<lambda>(c, ds, s). Some (Ok (b \<or> c, d # ds, s)))"
  have "proxify_members view mapf (map dyn_tc (d # ds)) (d # ds) s = bindP (check view (dyn_tc d)) (\<lambda>refs.
      if \<not> refs then ?rest (False, d, s) else bindP (proxify view mapf d s) ?rest)"
    by (auto intro!: bindP_cong)
  also have "\<dots> = bindP (Some (map_refs mapf d s)) ?rest"
    using Cons.prems by (intro checked_component) simp_all
  also have "\<dots> = Some (map_refs_list mapf (d # ds) s)"
    using Cons by (cases "map_refs mapf d s") (auto simp: bindP_Some split_def)
  finally show ?case .
qed simp

lemma elements_map_refs:
  assumes "\<forall>d \<in> set ds. \<forall>s. proxify view mapf d s = Some (map_refs mapf d s)"
  shows "proxify_elements view mapf ds s = Some (map_refs_list mapf ds s)"
  using assms by (induction ds arbitrary: s) (auto simp: bindP_Some split_def)

lemma proxify_map_refs:
  "typed view d \<Longrightarrow> no_ref_array view d \<Longrightarrow> proxify view mapf d s = Some (map_refs mapf d s)"
proof (induction d arbitrary: s)
  case (DRef t r)
  then show ?case by simp
next
  case (DStruct t ds)
  from DStruct.prems(1) obtain k where k: "tc_base view t = Some k"
    "k = Tk_struct (map dyn_tc ds) \<or> k = Tk_except (map dyn_tc ds)" "\<forall>d \<in> set ds. typed view d"
    by (rule typed_DStructE)
  then have "proxify_members view mapf (map dyn_tc ds) ds s = Some (map_refs_list mapf ds s)"
    using DStruct by (intro members_map_refs) simp
  with k show ?case by (auto simp: bindP_Some split_def)
next
  case (DSeq t ds)
  from DSeq.prems(1) obtain u where u: "tc_finite view t" "tc_base view t = Some (Tk_sequence u)"
    "\<forall>d \<in> set ds. dyn_tc d = u \<and> typed view d" by (rule typed_DSeqE)
  have e: "proxify_elements view mapf ds s = Some (map_refs_list mapf ds s)"
    using DSeq u(3) by (intro elements_map_refs) simp
  have fin: "tc_finite view u" using tc_base_finite(2) [OF u(1,2)] by (simp add: parts_def)
  have "\<not> reaches_ref view u \<Longrightarrow> map_refs_list mapf ds s = Ok (False, ds, s)"
    using u(3) has_objref_finite [OF fin] by (intro map_refs_none(2) [of ds view]) simp
  with u(2) e show ?case by (auto simp: check_finite [OF fin] bindP_Some split_def)
next
  case (DArray t ds)
  from DArray.prems(1) obtain u where u: "tc_finite view t" "tc_base view t = Some (Tk_array u)"
    by (rule typed_DArrayE)
  have "map_refs mapf (DArray t ds) s = Ok (False, DArray t ds, s)"
    using DArray.prems by (intro map_refs_none(1) [of view]) simp_all
  moreover have "has_objref view u = Some False"
    using DArray.prems(2) tc_base_finite(1) [OF u] by (simp add: parts_def has_any_False)
  ultimately show ?case using u(2) by (simp add: narrow_failure_def)
next
  case (DUnion t x)
  from DUnion.prems(1) obtain ms where ms: "tc_base view t = Some (Tk_union ms)"
    "\<forall>d. x = Some d \<longrightarrow> dyn_tc d \<in> set ms \<and> typed view d" by (rule typed_DUnionE)
  show ?case
  proof (cases x)
    case (Some d)
    have "proxify view mapf (DUnion t x) s = bindP (Some (map_refs mapf d s)) (\<lambda>(b, x, s). Some (Ok (b, DUnion t (Some x), s)))"
      using ms Some checked_component [of view d "dyn_tc d" mapf s "\<lambda>(b, x, s). Some (Ok (b, DUnion t (Some x), s))"] DUnion
      by (simp cong: if_cong)
    then show ?thesis using Some by (simp add: bindP_Some split_def)
  qed (use ms in simp)
next
  case (DAny t x)
  then have "proxify view mapf (DAny t x) s = bindP (Some (map_refs mapf x s)) (\<lambda>(b, x, s). Some (Ok (b, DAny t x, s)))"
    using checked_component [of view x "dyn_tc x" mapf s "\<lambda>(b, x, s). Some (Ok (b, DAny t x, s))"]
    by (simp cong: if_cong)
  then show ?case by (simp add: bindP_Some split_def)
next
  case (DPlain t)
  then show ?case by (auto simp: narrow_failure_def)
qed

subsection \<open>Arguments, result and exception\<close>

text \<open>
  The flag of an argument: 0 for no references, -1 for not known yet; the answer of the search is kept in it.
\<close>

definition cached_check :: "('t \<Rightarrow> 't tc_view) \<Rightarrow> 't arg \<Rightarrow> (bool \<times> 't arg) result option" where
  "cached_check view a =
     (if arg_must_proxy a = 0 then Some (Ok (False, a))
      else if arg_must_proxy a = -1 then
        bindP (Some (deref (tc a))) (\<lambda>t.
        bindP (check view t) (\<lambda>refs. Some (Ok (refs, a\<lparr>arg_must_proxy := if refs then 1 else 0\<rparr>))))
      else Some (Ok (True, a)))"

text \<open>The next item of the list of named values whose flag is not the excluded one.\<close>

fun next_item :: "arg_mode \<Rightarrow> (arg_mode \<times> 'd) list \<Rightarrow> ((arg_mode \<times> 'd) list \<times> (arg_mode \<times> 'd) \<times> (arg_mode \<times> 'd) list) option" where
  "next_item exclude [] = None"
| "next_item exclude (nv # nvs) =
     (if fst nv = exclude
      then (case next_item exclude nvs of None \<Rightarrow> None | Some (pre, x, post) \<Rightarrow> Some (nv # pre, x, post))
      else Some ([], nv, nvs))"

fun params_loop ::
    "('t \<Rightarrow> 't tc_view) \<Rightarrow> ('o, 's) ref_map \<Rightarrow> arg_mode \<Rightarrow> 't arg list \<Rightarrow> (arg_mode \<times> ('o, 't) dyn) list \<Rightarrow> 's \<Rightarrow>
     ('t arg list \<times> (arg_mode \<times> ('o, 't) dyn) list \<times> 's) result option" where
  "params_loop view mapf exclude [] nvs s = Some (Ok ([], nvs, s))"
| "params_loop view mapf exclude (a # as) nvs s =
     (if arg_mode a = exclude
      then bindP (params_loop view mapf exclude as nvs s) (\<lambda>(as, nvs, s). Some (Ok (a # as, nvs, s)))
      else case next_item exclude nvs of
        None \<Rightarrow> Some (Fault (Thrown ''Bounds''))
      | Some (pre, (m, d), post) \<Rightarrow>
          bindP (cached_check view a) (\<lambda>(refs, a).
          bindP (if refs then proxify_any view mapf d s else Some (Ok (d, s))) (\<lambda>(d, s).
          bindP (params_loop view mapf exclude as post s) (\<lambda>(as, post, s).
            Some (Ok (a # as, pre @ (m, d) # post, s))))))"

definition proxify_params ::
    "('t \<Rightarrow> 't tc_view) \<Rightarrow> ('o, 's) ref_map \<Rightarrow> arg_mode \<Rightarrow> 't arg_list \<Rightarrow> (arg_mode \<times> ('o, 't) dyn) list \<Rightarrow> 's \<Rightarrow>
     ('t arg_list \<times> (arg_mode \<times> ('o, 't) dyn) list \<times> 's) result option" where
  "proxify_params view mapf direction al nvs s =
     (if get_must_proxy direction al = 0 then Some (Ok (al, nvs, s))
      else let exclude = (if direction = ARG_IN then ARG_OUT else ARG_IN) in
        bindP (params_loop view mapf exclude (al_args al) nvs s) (\<lambda>(as, nvs, s). Some (Ok (al\<lparr>al_args := as\<rparr>, nvs, s))))"

definition proxify_exception ::
    "('t \<Rightarrow> 't tc_view) \<Rightarrow> ('o, 's) ref_map \<Rightarrow> nat \<Rightarrow> 't arg_list \<Rightarrow> ('o, 't) dyn \<Rightarrow> 's \<Rightarrow>
     ('t arg_list \<times> ('o, 't) dyn \<times> 's) result option" where
  "proxify_exception view mapf k al d s =
     bindP (cached_check view (al_exceptions al ! k)) (\<lambda>(refs, e).
     bindP (if refs then proxify_any view mapf d s else Some (Ok (d, s))) (\<lambda>(d, s).
       Some (Ok (al\<lparr>al_exceptions := (al_exceptions al)[k := e]\<rparr>, d, s))))"

text \<open>The named value of the result is null for an operation without one.\<close>

definition proxify_result ::
    "('t \<Rightarrow> 't tc_view) \<Rightarrow> ('o, 's) ref_map \<Rightarrow> 't arg_list \<Rightarrow> ('o, 't) dyn option \<Rightarrow> 's \<Rightarrow>
     ('t arg_list \<times> ('o, 't) dyn option \<times> 's) result option" where
  "proxify_result view mapf al nv s =
     bindP (cached_check view (al_result al)) (\<lambda>(refs, r).
     bindP (if refs then bindP (Some (deref nv)) (\<lambda>d. bindP (proxify_any view mapf d s) (\<lambda>(d, s). Some (Ok (Some d, s))))
            else Some (Ok (nv, s))) (\<lambda>(nv, s).
       Some (Ok (al\<lparr>al_result := r\<rparr>, nv, s))))"

subsection \<open>Evaluating requests, replies and exceptions\<close>

text \<open>
  The evaluator knows its type id, what the repository says of the interface, and the table. Reading the
  arguments off the request is an argument, \<open>arguments\<close>; so is decoding an exception.
\<close>

record 't evaluator =
  ev_type_id :: string
  ev_def :: "'t interface_def"
  ev_bases :: "'t interface_def list"
  ev_consts :: "'t tc_consts"

definition get_arg_list ::
    "(string \<Rightarrow> string \<Rightarrow> int) \<Rightarrow> 't evaluator \<Rightarrow> string \<Rightarrow> 't optab \<Rightarrow> (nat option \<times> 't optab) result" where
  "get_arg_list strcmp ev operation tab =
     bindR (find_args strcmp operation (ev_type_id ev) tab) (\<lambda>(arg_list, tab).
     if arg_list = None
     then bindR (add_interface strcmp (ev_consts ev) (ev_def ev) (ev_bases ev) (Some operation) tab)
            (\<lambda>(tab, arg_list). Ok (arg_list, tab))
     else Ok (arg_list, tab))"

text \<open>The named values to send back, and the type of the result when there is one to decode.\<close>

definition reply_values ::
    "('t \<Rightarrow> 't tc_view) \<Rightarrow> bool \<Rightarrow> 't option \<Rightarrow> (arg_mode \<times> 'd) list \<Rightarrow> ((arg_mode \<times> 'd) list \<times> 't option) result" where
  "reply_values view oneway result_tc nvs =
     (if oneway then Ok ([], None)
      else bindR (deref result_tc) (\<lambda>t.
        Ok (filter (\<lambda>nv. fst nv = ARG_INOUT \<or> fst nv = ARG_OUT) nvs,
            if view t \<noteq> Tk_null \<and> view t \<noteq> Tk_void then Some t else None)))"

definition evaluate_request ::
    "('t \<Rightarrow> 't tc_view) \<Rightarrow> ('o, 's) ref_map \<Rightarrow> (string \<Rightarrow> string \<Rightarrow> int) \<Rightarrow> 't evaluator \<Rightarrow> string \<Rightarrow>
     (('t option \<times> arg_mode) list \<Rightarrow> (arg_mode \<times> ('o, 't) dyn) list result) \<Rightarrow> 't optab \<Rightarrow> 's \<Rightarrow>
     ((arg_mode \<times> ('o, 't) dyn) list \<times> (arg_mode \<times> ('o, 't) dyn) list \<times> 't option \<times> 't optab \<times> 's) result option" where
  "evaluate_request view mapf strcmp ev operation arguments tab s =
     bindP (Some (get_arg_list strcmp ev operation tab)) (\<lambda>(arg_list, tab).
     bindP (Some (deref arg_list)) (\<lambda>a.
     bindP (Some (al_at tab a)) (\<lambda>al.
     case prepare_request al None [] of (oneway, result_tc, nvs) \<Rightarrow>
     bindP (Some (arguments nvs)) (\<lambda>nvs.
     bindP (proxify_params view mapf ARG_IN al nvs s) (\<lambda>(al, nvs, s).
     bindP (Some (reply_values view oneway result_tc nvs)) (\<lambda>(out_args, result).
       Some (Ok (nvs, out_args, result, al_put a al tab, s))))))))"

definition evaluate_reply ::
    "('t \<Rightarrow> 't tc_view) \<Rightarrow> ('o, 's) ref_map \<Rightarrow> (string \<Rightarrow> string \<Rightarrow> int) \<Rightarrow> 't evaluator \<Rightarrow> string \<Rightarrow>
     (arg_mode \<times> ('o, 't) dyn) list \<Rightarrow> ('o, 't) dyn option \<Rightarrow> 't optab \<Rightarrow> 's \<Rightarrow>
     ((arg_mode \<times> ('o, 't) dyn) list \<times> ('o, 't) dyn option \<times> 't optab \<times> 's) result option" where
  "evaluate_reply view mapf strcmp ev operation nvs nv tab s =
     bindP (Some (find_args strcmp operation (ev_type_id ev) tab)) (\<lambda>(arg_list, tab).
     bindP (Some (deref arg_list)) (\<lambda>a.
     bindP (Some (al_at tab a)) (\<lambda>al.
     bindP (proxify_result view mapf al nv s) (\<lambda>(al, nv, s).
     bindP (proxify_params view mapf ARG_OUT al nvs s) (\<lambda>(al, nvs, s).
       Some (Ok (nvs, nv, al_put a al tab, s)))))))"

text \<open>\<open>evaluate_exception\<close>: whether the exception is known, and its value with the references replaced.\<close>

definition evaluate_exception ::
    "('t \<Rightarrow> 't tc_view) \<Rightarrow> ('o, 's) ref_map \<Rightarrow> (string \<Rightarrow> string \<Rightarrow> int) \<Rightarrow> ('t \<Rightarrow> string) \<Rightarrow> 't evaluator \<Rightarrow> string \<Rightarrow>
     string \<Rightarrow> ('t \<Rightarrow> ('o, 't) dyn result) \<Rightarrow> 't optab \<Rightarrow> 's \<Rightarrow>
     (bool \<times> ('o, 't) dyn option \<times> 't optab \<times> 's) result option" where
  "evaluate_exception view mapf strcmp tc_id ev operation ex_type decode tab s =
     bindP (Some (find_args strcmp operation (ev_type_id ev) tab)) (\<lambda>(arg_list, tab).
     bindP (Some (deref arg_list)) (\<lambda>a.
     bindP (Some (al_at tab a)) (\<lambda>al.
     bindP (Some (find_exception tc_id al ex_type)) (\<lambda>found. case found of
         None \<Rightarrow> Some (Ok (False, None, tab, s))
       | Some k \<Rightarrow>
           bindP (Some (deref (tc (al_exceptions al ! k)))) (\<lambda>t.
           bindP (Some (decode t)) (\<lambda>d.
           bindP (proxify_exception view mapf k al d s) (\<lambda>(al, d, s).
             Some (Ok (True, Some d, al_put a al tab, s)))))))))"

subsection \<open>Arguments as one pass over the values\<close>

text \<open>Nothing replaced means nothing changed.\<close>

lemma map_refs_unchanged:
  fixes mapf :: "('o, 's) ref_map" and d d' :: "('o, 't) dyn" and ds ds' :: "('o, 't) dyn list"
  shows "map_refs mapf d s = Ok (False, d', s') \<Longrightarrow> d' = d"
    and "map_refs_list mapf ds s = Ok (False, ds', s') \<Longrightarrow> ds' = ds"
proof (induction mapf d s and mapf ds s arbitrary: d' s' and ds' s' rule: map_refs_map_refs_list.induct)
  case (1 mapf t r s)
  then show ?case by (auto simp: replace_ref_def bindR_eq_Ok split: if_splits)
next
  case (10 mapf d ds s)
  from 10(3) obtain x s1 y s2 where e: "map_refs mapf d s = Ok (False, x, s1)"
    "map_refs_list mapf ds s1 = Ok (False, y, s2)" "ds' = x # y"
    by (auto simp: bindR_eq_Ok)
  have "x = d" "y = ds" using 10(1) [OF e(1)] 10(2) [OF e(1) refl refl e(2)] by simp_all
  with e(3) show ?case by simp
qed (auto simp: bindR_eq_Ok)

lemma proxify_any_ok:
  assumes "typed view d" and "no_ref_array view d"
  shows "proxify_any view mapf d s = Some (bindR (map_refs mapf d s) (\<lambda>(b, d, s). Ok (d, s)))"
proof -
  have "bindR (map_refs mapf d s) (\<lambda>(b, d', s). Ok (if b then d' else d, s))
      = bindR (map_refs mapf d s) (\<lambda>(b, d, s). Ok (d, s))"
    using map_refs_unchanged(1) [of mapf d s] by (auto intro!: bindR_cong)
  then show ?thesis
    unfolding proxify_any_def proxify_map_refs [OF assms] by (simp add: bindP_Some split_def)
qed

definition settled :: "('t \<Rightarrow> 't tc_view) \<Rightarrow> 't arg \<Rightarrow> 't arg" where
  "settled view a = a\<lparr>arg_must_proxy := if reaches_ref view (the (tc a)) then 1 else 0\<rparr>"

text \<open>An argument and a value for it: the types agree, and the flag is not known yet or right.\<close>

definition matches :: "('t \<Rightarrow> 't tc_view) \<Rightarrow> 't arg \<Rightarrow> ('o, 't) dyn \<Rightarrow> bool" where
  "matches view a d \<longleftrightarrow> tc a = Some (dyn_tc d) \<and> typed view d \<and> no_ref_array view d
     \<and> arg_must_proxy a \<in> {-1, if reaches_ref view (dyn_tc d) then 1 else 0}"

lemma cached_check_ok:
  assumes "matches view a d"
  shows "cached_check view a = Some (Ok (reaches_ref view (dyn_tc d), settled view a))"
proof -
  have "a\<lparr>arg_must_proxy := arg_must_proxy a\<rparr> = a" by (cases a) simp
  then show ?thesis
    using assms check_finite [OF typed_finite, of view d]
    by (auto simp: cached_check_def matches_def settled_def split: if_splits)
qed

lemma checked_value:
  assumes "matches view a d"
  shows "(if reaches_ref view (dyn_tc d) then proxify_any view mapf d s else Some (Ok (d, s)))
    = Some (bindR (map_refs mapf d s) (\<lambda>(b, d, s). Ok (d, s)))"
proof (cases "reaches_ref view (dyn_tc d)")
  case True
  with assms show ?thesis by (simp add: matches_def proxify_any_ok)
next
  case False
  have d: "typed view d" using assms by (simp add: matches_def)
  with False have "map_refs mapf d s = Ok (False, d, s)"
    using map_refs_none(1) [OF d] has_objref_finite [OF typed_finite [OF d]] by simp
  with False show ?thesis by simp
qed

text \<open>The specification of the pass: every value that is not of the excluded mode, in order.\<close>

fun map_items :: "('o, 's) ref_map \<Rightarrow> arg_mode \<Rightarrow> (arg_mode \<times> ('o, 't) dyn) list \<Rightarrow> 's \<Rightarrow>
    ((arg_mode \<times> ('o, 't) dyn) list \<times> 's) result" where
  "map_items mapf exclude [] s = Ok ([], s)"
| "map_items mapf exclude (nv # nvs) s =
     (if fst nv = exclude then bindR (map_items mapf exclude nvs s) (\<lambda>(nvs, s). Ok (nv # nvs, s))
      else bindR (map_refs mapf (snd nv) s) (\<lambda>(b, d, s).
        bindR (map_items mapf exclude nvs s) (\<lambda>(nvs, s). Ok ((fst nv, d) # nvs, s))))"

definition aligned :: "('t \<Rightarrow> 't tc_view) \<Rightarrow> arg_mode \<Rightarrow> 't arg list \<Rightarrow> (arg_mode \<times> ('o, 't) dyn) list \<Rightarrow> bool" where
  "aligned view exclude as nvs \<longleftrightarrow>
     list_all2 (\<lambda>a nv. matches view a (snd nv)) (filter (\<lambda>a. arg_mode a \<noteq> exclude) as) (filter (\<lambda>nv. fst nv \<noteq> exclude) nvs)"

lemma next_item_split:
  assumes "filter (\<lambda>nv. fst nv \<noteq> exclude) nvs = nv # rest"
  shows "\<exists>pre post. next_item exclude nvs = Some (pre, nv, post) \<and> nvs = pre @ nv # post
    \<and> (\<forall>x \<in> set pre. fst x = exclude) \<and> fst nv \<noteq> exclude \<and> filter (\<lambda>nv. fst nv \<noteq> exclude) post = rest"
  using assms
proof (induction nvs)
  case (Cons x nvs)
  then show ?case by (cases "fst x = exclude") fastforce+
qed simp

lemma map_items_excluded:
  assumes "\<forall>x \<in> set pre. fst x = exclude"
  shows "map_items mapf exclude (pre @ nvs) s = bindR (map_items mapf exclude nvs s) (\<lambda>(nvs, s). Ok (pre @ nvs, s))"
  using assms
proof (induction pre)
  case Nil
  have "(\<lambda>(n, s). Ok (n, s)) = (Ok :: (arg_mode \<times> ('a, 'c) dyn) list \<times> 'b \<Rightarrow> _)" by (simp add: fun_eq_iff)
  then show ?case by simp
next
  case (Cons x pre)
  then show ?case by (simp add: bindR_assoc split_def)
qed

lemma params_loop_ok:
  "aligned view exclude as nvs \<Longrightarrow> params_loop view mapf exclude as nvs s
     = Some (bindR (map_items mapf exclude nvs s) (\<lambda>(nvs, s).
         Ok (map (\<lambda>a. if arg_mode a = exclude then a else settled view a) as, nvs, s)))"
proof (induction as arbitrary: nvs s)
  case Nil
  then have "\<forall>x \<in> set nvs. fst x = exclude" by (auto simp: aligned_def filter_empty_conv)
  from map_items_excluded [OF this, of mapf "[]" s] show ?case by simp
next
  case (Cons a as)
  show ?case
  proof (cases "arg_mode a = exclude")
    case True
    with Cons.prems have "aligned view exclude as nvs" by (simp add: aligned_def)
    from Cons.IH [OF this] True show ?thesis by (simp add: bindP_Some bindR_assoc split_def)
  next
    case False
    with Cons.prems obtain nv rest where f: "filter (\<lambda>nv. fst nv \<noteq> exclude) nvs = nv # rest" "matches view a (snd nv)"
      "list_all2 (\<lambda>a nv. matches view a (snd nv)) (filter (\<lambda>a. arg_mode a \<noteq> exclude) as) rest"
      by (auto simp: aligned_def list_all2_Cons1)
    obtain pre post where n: "next_item exclude nvs = Some (pre, nv, post)" "nvs = pre @ nv # post"
      "\<forall>x \<in> set pre. fst x = exclude" "fst nv \<noteq> exclude" "filter (\<lambda>nv. fst nv \<noteq> exclude) post = rest"
      using next_item_split [OF f(1)] by blast
    obtain m d where nv: "nv = (m, d)" by (cases nv)
    have al: "aligned view exclude as post" using f(3) n(5) by (simp add: aligned_def)
    note chk = cached_check_ok [OF f(2)] checked_value [OF f(2), of mapf s]
    show ?thesis using False n(1,3,4) nv chk Cons.IH [OF al] unfolding n(2)
      by (cases "map_refs mapf d s") (auto simp: map_items_excluded bindP_Some bindR_assoc split_def)
  qed
qed

subsection \<open>Properties\<close>

text \<open>
  C31: The search for object references in a type ends for every type code without infinite descent, and
  says whether a reference or an any can be reached through aliases, members and elements.
\<close>

theorem has_objref_decides:
  assumes "tc_finite view t"
  shows "has_objref view t = Some (reaches_ref view t)"
  using assms by (rule has_objref_finite)

text \<open>
  Type codes as numbers: 0 is an interface, 1 a structure of a number and a sequence of such interfaces,
  4 an array of interfaces, 5 the type of a linked list, 7 an any.
\<close>

definition sample_view :: "nat \<Rightarrow> nat tc_view" where
  "sample_view t = (if t = 0 then Tk_objref else if t = 1 then Tk_struct [2, 3] else if t = 3 then Tk_sequence 0
     else if t = 4 then Tk_array 0 else if t = 5 then Tk_struct [2, 6] else if t = 6 then Tk_sequence 5
     else if t = 7 then Tk_any else Tk_other)"

lemma sample_finite: "tc_finite sample_view 0" "tc_finite sample_view 1" "tc_finite sample_view 2" "tc_finite sample_view 3"
  "tc_finite sample_view 4"
proof -
  show 0: "tc_finite sample_view 0" and 2: "tc_finite sample_view 2"
    by (rule tc_finite.intros, simp add: sample_view_def parts_def)+
  show 3: "tc_finite sample_view 3" and "tc_finite sample_view 4"
    by (rule tc_finite.intros, use 0 in \<open>simp add: sample_view_def parts_def\<close>)+
  show "tc_finite sample_view 1"
    by (rule tc_finite.intros) (use 2 3 in \<open>auto simp: sample_view_def parts_def\<close>)
qed

lemma sample_reaches: "reaches_ref sample_view 0" "reaches_ref sample_view 3" "reaches_ref sample_view 1"
proof -
  show 0: "reaches_ref sample_view 0" by (rule reaches_ref.here) (simp add: sample_view_def)
  show 3: "reaches_ref sample_view 3" by (rule reaches_ref.inside [OF _ 0]) (simp add: sample_view_def parts_def)
  show "reaches_ref sample_view 1" by (rule reaches_ref.inside [OF _ 3]) (simp add: sample_view_def parts_def)
qed

theorem has_objref_decides_witness: "has_objref sample_view 1 = Some True"
  using has_objref_decides [OF sample_finite(2)] sample_reaches(3) by simp

text \<open>
  For the type code of a recursive type in which no reference comes before the recursion, the search never
  returns, and so neither does the treatment of an argument of that type that was not examined before.
\<close>

theorem has_objref_recursive:
  assumes "endless view S" and "t \<in> S" and "tc a = Some t" and "arg_must_proxy a = -1" and "arg_mode a \<noteq> exclude"
    and "filter (\<lambda>nv. fst nv \<noteq> exclude) nvs \<noteq> []"
  shows "has_objref view t = None \<and> params_loop view mapf exclude (a # as) nvs s = None"
proof -
  have none: "has_objref view t = None" by (rule has_objref_endless [OF assms(1,2)])
  obtain nv rest where "filter (\<lambda>nv. fst nv \<noteq> exclude) nvs = nv # rest" using assms(6) by (metis neq_Nil_conv)
  from next_item_split [OF this] obtain pre post where "next_item exclude nvs = Some (pre, nv, post)" by blast
  moreover have "cached_check view a = None" using none assms(3,4) by (simp add: cached_check_def check_def)
  ultimately show ?thesis using none assms(5) by (cases nv) simp
qed

theorem has_objref_recursive_witness:
  "has_objref sample_view 5 = None \<and>
   params_loop sample_view (\<lambda>r s. Ok (True, r, s)) ARG_OUT [arg_init (Some 5) ARG_IN new_arg] [(ARG_IN, DStruct 5 [DPlain 2, DSeq 6 []])] ()
     = (None :: (nat arg list \<times> (arg_mode \<times> (nat, nat) dyn) list \<times> unit) result option)"
proof (rule has_objref_recursive)
  have two: "has_objref sample_view 2 = Some False" by (simp add: has_objref_step sample_view_def parts_def)
  have v: "sample_view 5 = Tk_struct [2, 6]" "sample_view 6 = Tk_sequence 5" by (simp_all add: sample_view_def)
  show "endless sample_view {5, 6}" by (simp add: endless_def v parts_def stuck_Cons two)
qed (simp_all add: arg_init_def new_arg_def)

text \<open>
  C9: Replacing the references of a value with \<open>proxify_any\<close> maps every reference in it exactly once, from left to
  right, however the type codes nest, and leaves everything else; skipping the parts whose type has no
  references changes nothing. A fault of the mapping is passed on, and the call returns. (Recursive
  types and arrays of references are the exceptions.)
\<close>

theorem proxify_maps_all:
  assumes "typed view d" and "no_ref_array view d"
  shows "proxify_any view mapf d s = Some (bindR (map_refs mapf d s) (\<lambda>(replaced, d', s'). Ok (d', s')))"
  using proxify_any_ok [OF assms] .

definition sample_value :: "(string, nat) dyn" where
  "sample_value = DStruct 1 [DPlain 2, DSeq 3 [DRef 0 (Some ''a''), DRef 0 None]]"

lemma sample_base: "tc_base sample_view t = Some (sample_view t)"
  by (simp add: tc_base_def strip_alias.simps sample_view_def)

lemma sample_typed: "typed sample_view sample_value" "no_ref_array sample_view sample_value"
  by (simp_all add: sample_value_def sample_base sample_finite sample_finite(2) [simplified] sample_view_def)

theorem proxify_maps_all_witness:
  "proxify_any sample_view (\<lambda>r s. Ok (True, map_option (\<lambda>x. ''mapped '' @ x) r, s + (1 :: nat))) sample_value 0
     = Some (Ok (DStruct 1 [DPlain 2, DSeq 3 [DRef 0 (Some ''mapped a''), DRef 0 None]], 2))"
  unfolding proxify_maps_all [OF sample_typed] by (simp add: sample_value_def replace_ref_def)

text \<open>
  An array whose elements can hold a reference is narrowed to a dynamic sequence, which it is not: the
  nil that comes of it is dereferenced, whatever the array holds.
\<close>

theorem ref_array_null_deref:
  assumes "typed view (DArray t ds)" and "reaches_ref view t"
  shows "proxify view mapf (DArray t ds) s = Some (Fault NullDeref)"
proof -
  from assms(1) obtain u where u: "tc_finite view t" "tc_base view t = Some (Tk_array u)" by (rule typed_DArrayE)
  have fin: "tc_finite view u" using tc_base_finite(2) [OF u] by (simp add: parts_def)
  have "has_objref view t = Some True" using has_objref_finite [OF u(1)] assms(2) by simp
  then have "has_objref view u = Some True"
    using tc_base_finite(1) [OF u] has_objref_finite [OF fin] by (simp add: parts_def has_any_Cons split: if_splits)
  with u(2) show ?thesis by (simp add: narrow_failure_def)
qed

theorem ref_array_null_deref_witness:
  "proxify sample_view (\<lambda>r s. Ok (True, r, s)) (DArray 4 [DRef 0 (Some ''a'')]) () = Some (Fault NullDeref)"
proof (rule ref_array_null_deref)
  show "typed sample_view (DArray 4 [DRef 0 (Some ''a'')])"
    by (simp add: sample_base sample_finite sample_view_def)
  show "reaches_ref sample_view 4" by (rule reaches_ref.inside [OF _ sample_reaches(1)]) (simp add: sample_view_def parts_def)
qed

subsection \<open>Requests and replies as a whole\<close>

lemma find_args_eq:
  assumes "op_args i (entries strcmp tab n) = Some a" and "lists tab a = Some al"
  shows "find_args strcmp n i tab = Ok (Some a, al_put a (al\<lparr>al_refcount := al_refcount al + 1\<rparr>) tab)"
  using assms by (auto simp: find_args_simps entries_def add_ref_def al_at_def split: option.splits)

lemma al_put_put [simp]: "al_put a y (al_put a x tab) = al_put a y tab"
  by (simp add: al_put_def)

lemma al_at_put [simp]: "al_at (al_put a al tab) a = Ok al"
  by (simp add: al_at_def al_put_def)

lemma put_counted:
  assumes "optab_ok own tab" and "lists tab a = Some al" and "al_refcount al' = al_refcount al + 1"
  shows "optab_ok (own(a := own a + 1)) (al_put a al' tab)" and "entries strcmp (al_put a al' tab) = entries strcmp tab"
  using assms(1,3) optab_ok_Some [OF assms(1,2)] assms(2)
  by (auto simp: optab_ok_def al_put_def entries_def)

definition settle_args :: "('t \<Rightarrow> 't tc_view) \<Rightarrow> arg_mode \<Rightarrow> 't arg list \<Rightarrow> 't arg list" where
  "settle_args view exclude as = map (\<lambda>a. if arg_mode a = exclude then a else settled view a) as"

lemma proxify_params_ok:
  assumes "aligned view exclude (al_args al) nvs" and "get_must_proxy direction al \<noteq> 0"
    and "exclude = (if direction = ARG_IN then ARG_OUT else ARG_IN)"
  shows "proxify_params view mapf direction al nvs s
    = Some (bindR (map_items mapf exclude nvs s) (\<lambda>(nvs, s). Ok (al\<lparr>al_args := settle_args view exclude (al_args al)\<rparr>, nvs, s)))"
  using assms(2)
  by (simp add: proxify_params_def Let_def assms(3) [symmetric] params_loop_ok [OF assms(1)] bindP_Some bindR_assoc
      split_def settle_args_def)

text \<open>An operation's result and the value for it: none for a result without references.\<close>

definition result_matches :: "('t \<Rightarrow> 't tc_view) \<Rightarrow> 't arg \<Rightarrow> ('o, 't) dyn option \<Rightarrow> bool" where
  "result_matches view a nv = (case nv of Some d \<Rightarrow> matches view a d
     | None \<Rightarrow> (\<exists>t. tc a = Some t \<and> tc_finite view t \<and> \<not> reaches_ref view t) \<and> arg_must_proxy a \<in> {-1, 0})"

definition map_result :: "('o, 's) ref_map \<Rightarrow> ('o, 't) dyn option \<Rightarrow> 's \<Rightarrow> (('o, 't) dyn option \<times> 's) result" where
  "map_result mapf nv s = (case nv of None \<Rightarrow> Ok (None, s)
     | Some d \<Rightarrow> bindR (map_refs mapf d s) (\<lambda>(b, d, s). Ok (Some d, s)))"

lemma proxify_result_ok:
  assumes "result_matches view (al_result al) nv"
  shows "proxify_result view mapf al nv s
    = Some (bindR (map_result mapf nv s) (\<lambda>(nv, s). Ok (al\<lparr>al_result := settled view (al_result al)\<rparr>, nv, s)))"
proof (cases nv)
  case None
  have "a\<lparr>arg_must_proxy := 0\<rparr> = a" if "arg_must_proxy a = 0" for a :: "'a arg" using that by (cases a) simp
  then have "cached_check view (al_result al) = Some (Ok (False, settled view (al_result al)))"
    using assms None by (auto simp: result_matches_def cached_check_def check_finite settled_def)
  with None show ?thesis by (simp add: proxify_result_def map_result_def)
next
  case (Some d)
  then have m: "matches view (al_result al) d" using assms by (simp add: result_matches_def)
  have "(if reaches_ref view (dyn_tc d) then bindP (Some (deref nv)) (\<lambda>d. bindP (proxify_any view mapf d s) (\<lambda>(d, s). Some (Ok (Some d, s))))
      else Some (Ok (nv, s))) = bindP (if reaches_ref view (dyn_tc d) then proxify_any view mapf d s else Some (Ok (d, s)))
        (\<lambda>(d, s). Some (Ok (Some d, s)))"
    using Some by simp
  also have "\<dots> = Some (map_result mapf nv s)"
    unfolding checked_value [OF m] using Some by (simp add: map_result_def bindP_Some bindR_assoc split_def)
  finally show ?thesis using cached_check_ok [OF m] by (simp add: proxify_result_def bindP_Some split_def)
qed

lemma evaluate_request_ok:
  assumes "optab_ok own tab" and "op_args (ev_type_id ev) (entries strcmp tab operation) = Some a"
    and "lists tab a = Some al" and "arguments (map (\<lambda>x. (tc x, arg_mode x)) (al_args al)) = Ok nvs"
    and "must_proxy_in al \<noteq> 0" and "aligned view ARG_OUT (al_args al) nvs"
    and "\<not> al_oneway al" and "tc (al_result al) = Some rt"
  shows "\<exists>tab'. evaluate_request view mapf strcmp ev operation arguments tab s
      = Some (bindR (map_items mapf ARG_OUT nvs s) (\<lambda>(nvs', s'). Ok (nvs',
          filter (\<lambda>nv. fst nv = ARG_INOUT \<or> fst nv = ARG_OUT) nvs',
          if view rt = Tk_null \<or> view rt = Tk_void then None else Some rt, tab', s')))
    \<and> optab_ok (own(a := own a + 1)) tab' \<and> entries strcmp tab' = entries strcmp tab
    \<and> lists tab' a = Some (al\<lparr>al_args := settle_args view ARG_OUT (al_args al), al_refcount := al_refcount al + 1\<rparr>)"
proof -
  let ?al = "al\<lparr>al_refcount := al_refcount al + 1\<rparr>"
  let ?done = "?al\<lparr>al_args := settle_args view ARG_OUT (al_args al)\<rparr>"
  have g: "get_arg_list strcmp ev operation tab = Ok (Some a, al_put a ?al tab)"
    using find_args_eq [OF assms(2,3)] by (simp add: get_arg_list_def)
  have "aligned view ARG_OUT (al_args ?al) nvs" "get_must_proxy ARG_IN ?al \<noteq> 0"
    using assms(5,6) by (simp_all add: get_must_proxy_def)
  from proxify_params_ok [OF this] have p: "proxify_params view mapf ARG_IN ?al nvs s
      = Some (bindR (map_items mapf ARG_OUT nvs s) (\<lambda>(nvs, s). Ok (?done, nvs, s)))" by simp
  have "evaluate_request view mapf strcmp ev operation arguments tab s
      = Some (bindR (map_items mapf ARG_OUT nvs s) (\<lambda>(nvs', s'). Ok (nvs',
          filter (\<lambda>nv. fst nv = ARG_INOUT \<or> fst nv = ARG_OUT) nvs',
          if view rt = Tk_null \<or> view rt = Tk_void then None else Some rt, al_put a ?done tab, s')))"
    using assms(4,7,8)
    by (simp add: evaluate_request_def g prepare_request_def p reply_values_def bindP_Some bindR_assoc split_def)
  moreover have "lists (al_put a ?done tab) a = Some (al\<lparr>al_args := settle_args view ARG_OUT (al_args al),
      al_refcount := al_refcount al + 1\<rparr>)" by (simp add: al_put_def)
  ultimately show ?thesis using put_counted(1) [OF assms(1,3), where al' = ?done] put_counted(2) [OF assms(1,3), where al' = ?done] by auto
qed

text \<open>
  C10: For a known operation, evaluating a request maps every reference in the values of the in and inout
  arguments, in order, and no other; the values to send back are the inout and out arguments, and the
  type of the result is handed on unless it is void. The table keeps its entries; the argument list
  learns which arguments have references, and keeps the reference that the lookup took, which is
  never given back.
\<close>

theorem evaluate_request_maps:
  assumes "optab_ok own tab" and "op_args (ev_type_id ev) (entries strcmp tab operation) = Some a"
    and "lists tab a = Some al" and "arguments (map (\<lambda>x. (tc x, arg_mode x)) (al_args al)) = Ok nvs"
    and "must_proxy_in al \<noteq> 0" and "aligned view ARG_OUT (al_args al) nvs"
    and "\<not> al_oneway al" and "tc (al_result al) = Some rt"
  shows "\<exists>tab'. evaluate_request view mapf strcmp ev operation arguments tab s
      = Some (bindR (map_items mapf ARG_OUT nvs s) (\<lambda>(nvs', s'). Ok (nvs',
          filter (\<lambda>nv. fst nv = ARG_INOUT \<or> fst nv = ARG_OUT) nvs',
          if view rt = Tk_null \<or> view rt = Tk_void then None else Some rt, tab', s')))
    \<and> optab_ok (own(a := own a + 1)) tab' \<and> entries strcmp tab' = entries strcmp tab
    \<and> lists tab' a = Some (al\<lparr>al_args := settle_args view ARG_OUT (al_args al), al_refcount := al_refcount al + 1\<rparr>)"
  using assms by (rule evaluate_request_ok)

definition sample_al :: "nat arg_list" where
  "sample_al = empty_arg_list\<lparr>al_args := [arg_init (Some 3) ARG_IN new_arg, arg_init (Some 0) ARG_OUT new_arg],
     al_result := arg_init (Some 0) NO_MODE new_arg\<rparr>"

definition sample_optab :: "nat optab" where
  "sample_optab = \<lparr>head_op = Operation Nil_op ''op'' [(''ID'', 0)] Nil_op, lists = [0 \<mapsto> sample_al], next_addr = 1\<rparr>"

definition sample_evaluator :: "nat evaluator" where
  "sample_evaluator = \<lparr>ev_type_id = ''ID'', ev_def = sample_iface ''ID'' ''x'', ev_bases = [], ev_consts = sample_tcs\<rparr>"

definition tag_ref :: "(string, nat) ref_map" where
  "tag_ref r s = Ok (True, map_option (\<lambda>x. CHR ''m'' # x) r, s + 1)"

lemma sample_optab_ok:
  "optab_ok (\<lambda>_. 0) sample_optab" "op_args (ev_type_id sample_evaluator) (entries strcmp_sign sample_optab ''op'') = Some 0"
  "lists sample_optab 0 = Some sample_al"
proof -
  have "strcmp_sign ''op'' ''op'' = 0" by (simp add: sign.cmp_zero)
  then show "op_args (ev_type_id sample_evaluator) (entries strcmp_sign sample_optab ''op'') = Some 0"
    by (simp add: entries_def sample_optab_def sample_evaluator_def)
  show "optab_ok (\<lambda>_. 0) sample_optab"
    by (simp add: optab_ok_def sample_optab_def refs_to_def sample_al_def empty_arg_list_def)
qed (simp add: sample_optab_def)

theorem evaluate_request_maps_witness:
  "\<exists>tab'. evaluate_request sample_view tag_ref strcmp_sign sample_evaluator ''op''
       (\<lambda>nvs. Ok [(ARG_IN, DSeq 3 [DRef 0 (Some ''a'')]), (ARG_OUT, DPlain 2)]) sample_optab 0
     = Some (Ok ([(ARG_IN, DSeq 3 [DRef 0 (Some ''ma'')]), (ARG_OUT, DPlain 2)], [(ARG_OUT, DPlain 2)], Some 0, tab', 1))"
proof -
  let ?nvs = "[(ARG_IN, DSeq 3 [DRef 0 (Some ''a'')]), (ARG_OUT, DPlain 2)] :: (arg_mode \<times> (string, nat) dyn) list"
  have al: "aligned sample_view ARG_OUT (al_args sample_al) ?nvs"
    by (simp add: aligned_def sample_al_def arg_init_def new_arg_def matches_def sample_base sample_finite sample_view_def)
  have "must_proxy_in sample_al \<noteq> 0" "\<not> al_oneway sample_al" "tc (al_result sample_al) = Some 0"
    by (simp_all add: sample_al_def empty_arg_list_def arg_init_def)
  from evaluate_request_maps [where arguments = "\<lambda>nvs. Ok ?nvs", OF sample_optab_ok refl this(1) al this(2,3), of tag_ref 0]
  show ?thesis by (simp add: tag_ref_def replace_ref_def sample_view_def) blast
qed

lemma evaluate_reply_ok:
  assumes "optab_ok own tab" and "op_args (ev_type_id ev) (entries strcmp tab operation) = Some a"
    and "lists tab a = Some al" and "must_proxy_out al \<noteq> 0" and "aligned view ARG_IN (al_args al) nvs"
    and "result_matches view (al_result al) nv"
  shows "\<exists>tab'. evaluate_reply view mapf strcmp ev operation nvs nv tab s
      = Some (bindR (map_result mapf nv s) (\<lambda>(nv', s). bindR (map_items mapf ARG_IN nvs s) (\<lambda>(nvs', s'). Ok (nvs', nv', tab', s'))))
    \<and> optab_ok (own(a := own a + 1)) tab' \<and> entries strcmp tab' = entries strcmp tab"
proof -
  let ?al = "al\<lparr>al_refcount := al_refcount al + 1\<rparr>"
  let ?res = "?al\<lparr>al_result := settled view (al_result al)\<rparr>"
  let ?done = "?res\<lparr>al_args := settle_args view ARG_IN (al_args al)\<rparr>"
  note find_args = find_args_eq [OF assms(2,3)]
  have res: "proxify_result view mapf ?al nv s = Some (bindR (map_result mapf nv s) (\<lambda>(nv, s). Ok (?res, nv, s)))"
    using proxify_result_ok [of view ?al nv mapf s] assms(6) by simp
  have "aligned view ARG_IN (al_args ?res) nvs" "get_must_proxy ARG_OUT ?res \<noteq> 0"
    using assms(4,5) by (simp_all add: get_must_proxy_def)
  from proxify_params_ok [OF this] have par: "proxify_params view mapf ARG_OUT ?res nvs s'
      = Some (bindR (map_items mapf ARG_IN nvs s') (\<lambda>(nvs, s). Ok (?done, nvs, s)))" for s' by simp
  have "evaluate_reply view mapf strcmp ev operation nvs nv tab s
      = Some (bindR (map_result mapf nv s) (\<lambda>(nv', s). bindR (map_items mapf ARG_IN nvs s)
          (\<lambda>(nvs', s'). Ok (nvs', nv', al_put a ?done tab, s'))))"
    by (cases "map_result mapf nv s")
       (auto simp: evaluate_reply_def find_args res par bindP_Some bindR_assoc split_def)
  then show ?thesis using put_counted(1) [OF assms(1,3), where al' = ?done] put_counted(2) [OF assms(1,3), where al' = ?done]
    by auto
qed

text \<open>
  C26: Evaluating the reply of a known operation maps every reference in the result and in the values of the
  inout and out arguments, the result first, and no other.
\<close>

theorem evaluate_reply_maps:
  assumes "optab_ok own tab" and "op_args (ev_type_id ev) (entries strcmp tab operation) = Some a"
    and "lists tab a = Some al" and "must_proxy_out al \<noteq> 0" and "aligned view ARG_IN (al_args al) nvs"
    and "result_matches view (al_result al) nv"
  shows "\<exists>tab'. evaluate_reply view mapf strcmp ev operation nvs nv tab s
      = Some (bindR (map_result mapf nv s) (\<lambda>(nv', s). bindR (map_items mapf ARG_IN nvs s) (\<lambda>(nvs', s'). Ok (nvs', nv', tab', s'))))
    \<and> optab_ok (own(a := own a + 1)) tab' \<and> entries strcmp tab' = entries strcmp tab"
  using assms by (rule evaluate_reply_ok)

theorem evaluate_reply_maps_witness:
  "\<exists>tab'. evaluate_reply sample_view tag_ref strcmp_sign sample_evaluator ''op'' [(ARG_OUT, DRef 0 (Some ''b''))]
       (Some (DRef 0 (Some ''r''))) sample_optab 0
     = Some (Ok ([(ARG_OUT, DRef 0 (Some ''mb''))], Some (DRef 0 (Some ''mr'')), tab', 2))"
proof -
  have ref: "matches sample_view (arg_init (Some 0) m new_arg) (DRef 0 (Some x))" for m and x :: string
    by (simp add: matches_def arg_init_def sample_base sample_finite sample_view_def)
  have "must_proxy_out sample_al \<noteq> 0" "aligned sample_view ARG_IN (al_args sample_al) [(ARG_OUT, DRef 0 (Some ''b''))]"
    "result_matches sample_view (al_result sample_al) (Some (DRef 0 (Some ''r'')))"
    using ref by (simp_all add: sample_al_def empty_arg_list_def aligned_def result_matches_def) (simp add: arg_init_def)
  from evaluate_reply_maps [OF sample_optab_ok this, of tag_ref 0]
  show ?thesis by (simp add: map_result_def tag_ref_def replace_ref_def numeral_2_eq_2) blast
qed

lemma wanted_by_name:
  "g \<in> set (interface_regs tcs want desired def bases) \<Longrightarrow> rg_wanted g \<Longrightarrow> desired = Some (rg_name g)"
proof -
  have c: "g \<in> set (content_regs tcs want desired ids d) \<Longrightarrow> rg_wanted g \<Longrightarrow> desired = Some (rg_name g)" for ids d
    by (auto simp: content_regs_def attribute_regs_def operation_reg_def split: if_splits)
  have "g \<in> set (level_regs tcs want desired derived ds) \<Longrightarrow> rg_wanted g \<Longrightarrow> desired = Some (rg_name g)" for derived ds
    by (induction ds arbitrary: derived) (auto dest: c)
  then show "g \<in> set (interface_regs tcs want desired def bases) \<Longrightarrow> rg_wanted g \<Longrightarrow> desired = Some (rg_name g)"
    by (auto simp: interface_regs_def dest: c)
qed

lemma wanted_list_none: "\<forall>g \<in> set gs. \<not> rg_wanted g \<Longrightarrow> wanted_list gs a res = res"
  by (induction gs arbitrary: a) auto

text \<open>
  A request for an operation that neither the interface nor one of its direct bases declares, one of an indirect
  base for instance, is not refused: the null argument list that adding the interface gives is
  dereferenced.
\<close>

theorem unknown_operation_null_deref:
  assumes "\<forall>a b. strcmp a b = 0 \<longleftrightarrow> a = b" and "optab_ok own tab"
    and "op_args (ev_type_id ev) (entries strcmp tab operation) = None"
    and "wants_attribute (Some operation) = Ok want"
    and "operation \<notin> rg_name ` set (interface_regs (ev_consts ev) want (Some operation) (ev_def ev) (ev_bases ev))"
  shows "evaluate_request view mapf strcmp ev operation arguments tab s = Some (Fault NullDeref)"
proof -
  let ?gs = "interface_regs (ev_consts ev) want (Some operation) (ev_def ev) (ev_bases ev)"
  have so: "string_order strcmp" using assms(1) by unfold_locales blast
  have "\<forall>g \<in> set ?gs. \<not> rg_wanted g" using wanted_by_name assms(5) by fastforce
  then have "wanted_list ?gs (next_addr tab) None = None" by (rule wanted_list_none)
  then obtain tab' where "add_interface strcmp (ev_consts ev) (ev_def ev) (ev_bases ev) (Some operation) tab = Ok (tab', None)"
    using string_order.each_register_ok [OF so assms(2) interface_regs_ok, of "ev_consts ev" want "Some operation" "ev_def ev" "ev_bases ev" None]
    unfolding add_interface_regs [OF assms(4)] by auto
  with string_order.find_args_None [OF so assms(3)] show ?thesis by (simp add: evaluate_request_def get_arg_list_def)
qed

theorem unknown_operation_null_deref_witness:
  "evaluate_request sample_view tag_ref strcmp_sign sample_evaluator ''_interface'' (\<lambda>nvs. Ok []) sample_optab 0
     = Some (Fault NullDeref)"
proof (rule unknown_operation_null_deref [OF sign_law sample_optab_ok(1)])
  have "strcmp_sign ''_interface'' ''op'' \<noteq> 0" by (simp add: sign.cmp_zero)
  then show "op_args (ev_type_id sample_evaluator) (entries strcmp_sign sample_optab ''_interface'') = None"
    by (simp add: entries_def sample_optab_def Let_def)
  show "wants_attribute (Some ''_interface'') = Ok False" by (simp add: wants_attribute_def)
qed (simp add: interface_regs_def content_regs_def operation_reg_def sample_evaluator_def sample_iface_def)

end
