(* ===== verification/ProxyRequest.thy ===== *)
theory ProxyRequest
  imports ReferenceMapper GenericEvaluator
begin

text \<open>
  A request on its way through the proxy and its reply on the way back
  (src/src/OCI/ProxyServant.cpp, src/src/OCI/ProxyReplyHandler.cpp, src/src/lorica/ProxyServant.cpp,
  src/src/lorica/ProxyReplyHandler.cpp, and the evaluator of the null mapper in
  src/src/lorica/EvaluatorBase.cpp).

  What the code asks of the broker are effects, in order: requests to the target object, answers to the
  client, and messages to the server agent. An outcome is the effects with the state afterwards; the
  state is absent when an exception was caught on the way, and a fault that is not caught ends the
  outcome. \<^term>\<open>None\<close> is a call that never returns. What the broker reads off a message is an argument.
\<close>

subsection \<open>State and effects\<close>

datatype 't eval = NullEval | GenericEval "'t evaluator"

record ('o, 'p, 't) proxy_state =
  ps_chain :: "'p mapper list"
  ps_heap :: "'o rmv_heap"
  ps_next :: nat
  ps_optab :: "'t optab"

type_synonym ('o, 't) named_values = "(arg_mode \<times> ('o, 't) dyn) list"

record ('o, 'p, 't) reply_handler =
  rh_operation :: string
  rh_poa :: 'p
  rh_in_poa :: 'p
  rh_other_poa :: 'p
  rh_evaluator :: "'t eval"
  rh_out_args :: "('o, 't) named_values"
  rh_result :: "'t option"

text \<open>The body of a user exception that goes on to the client.\<close>

datatype ('o, 't) encap = NoBody | PassedOn string | Converted "('o, 't) dyn"

datatype ('o, 'p, 't) effect =
    SendOneway 'o string "('o, 't) named_values"
  | Sendc 'o string "('o, 't) named_values" "('o, 'p, 't) reply_handler"
  | AgentError 'o
  | SendForward
  | NoExceptionReply
  | ReplyException string
  | InvokeReply "(('o, 't) named_values \<times> ('o, 't) dyn option) option"
  | InvokeExcep string
  | GatewayException "('o, 't) encap"
  | LocationForward "'o option" bool

type_synonym ('o, 'p, 't) outcome =
  "(('o, 'p, 't) effect list \<times> ('o, 'p, 't) proxy_state option result) option"

text \<open>The mapping of a reference that the evaluators call, on the chain of mappers and the values.\<close>

definition map_at ::
    "('o, 'p) broker \<Rightarrow> (string \<Rightarrow> ifr_answer) \<Rightarrow> 'p \<Rightarrow> 'p \<Rightarrow> ('o, 'p mapper list \<times> 'o rmv_heap \<times> nat) ref_map" where
  "map_at br ifr in_poa poa r s = (case s of (ms, h, n) \<Rightarrow>
     bindR (mapped_for_native br ifr n r poa in_poa ms h) (\<lambda>(ok, r', ms, h). Ok (ok, r', (ms, h, n + 1))))"

definition ps_store :: "('o, 'p, 't) proxy_state \<Rightarrow> 'p mapper list \<times> 'o rmv_heap \<times> nat" where
  "ps_store st = (ps_chain st, ps_heap st, ps_next st)"

definition ps_put :: "'p mapper list \<times> 'o rmv_heap \<times> nat \<Rightarrow> 't optab \<Rightarrow> ('o, 'p, 't) proxy_state" where
  "ps_put s tab = (case s of (ms, h, n) \<Rightarrow> \<lparr>ps_chain = ms, ps_heap = h, ps_next = n, ps_optab = tab\<rparr>)"

subsection \<open>The evaluators\<close>

text \<open>
  The evaluator of the null mapper: the arguments stay unread, a reply is left alone and the body of an exception
  passed on.
\<close>

definition eval_request ::
    "('t \<Rightarrow> 't tc_view) \<Rightarrow> ('o, 's) ref_map \<Rightarrow> (string \<Rightarrow> string \<Rightarrow> int) \<Rightarrow> 't eval \<Rightarrow> string \<Rightarrow>
     (('t option \<times> arg_mode) list \<Rightarrow> ('o, 't) named_values result) \<Rightarrow> 't optab \<Rightarrow> 's \<Rightarrow>
     (('o, 't) named_values \<times> ('o, 't) named_values \<times> 't option \<times> 't optab \<times> 's) result option" where
  "eval_request view mapf strcmp e operation arguments tab s = (case e of
       NullEval \<Rightarrow> Some (Ok ([], [], None, tab, s))
     | GenericEval ev \<Rightarrow> evaluate_request view mapf strcmp ev operation arguments tab s)"

definition eval_reply ::
    "('t \<Rightarrow> 't tc_view) \<Rightarrow> ('o, 's) ref_map \<Rightarrow> (string \<Rightarrow> string \<Rightarrow> int) \<Rightarrow> 't eval \<Rightarrow> string \<Rightarrow>
     ('o, 't) named_values \<Rightarrow> ('o, 't) dyn option \<Rightarrow> 't optab \<Rightarrow> 's \<Rightarrow>
     (('o, 't) named_values \<times> ('o, 't) dyn option \<times> 't optab \<times> 's) result option" where
  "eval_reply view mapf strcmp e operation nvs nv tab s = (case e of
       NullEval \<Rightarrow> Some (Ok (nvs, nv, tab, s))
     | GenericEval ev \<Rightarrow> evaluate_reply view mapf strcmp ev operation nvs nv tab s)"

definition eval_exception ::
    "('t \<Rightarrow> 't tc_view) \<Rightarrow> ('o, 's) ref_map \<Rightarrow> (string \<Rightarrow> string \<Rightarrow> int) \<Rightarrow> ('t \<Rightarrow> string) \<Rightarrow> 't eval \<Rightarrow> string \<Rightarrow>
     string \<Rightarrow> ('t \<Rightarrow> ('o, 't) dyn result) \<Rightarrow> 't optab \<Rightarrow> 's \<Rightarrow>
     (('o, 't) encap \<times> 't optab \<times> 's) result option" where
  "eval_exception view mapf strcmp tc_id e operation ex_type decode tab s = (case e of
       NullEval \<Rightarrow> Some (Ok (PassedOn ex_type, tab, s))
     | GenericEval ev \<Rightarrow>
         bindP (evaluate_exception view mapf strcmp tc_id ev operation ex_type decode tab s) (\<lambda>(known, d, tab, s).
           Some (Ok (case d of None \<Rightarrow> NoBody | Some d \<Rightarrow> Converted d, tab, s))))"

text \<open>The evaluator at a position of a mapper; the generic mapper asks the repository for the interface.\<close>

definition eval_at :: "(string \<Rightarrow> 't evaluator) \<Rightarrow> 'p mapper \<Rightarrow> nat \<Rightarrow> 't eval" where
  "eval_at idef m k = (if mkind m = GenericMapper then GenericEval (idef (evaluators m ! k)) else NullEval)"

subsection \<open>The servant\<close>

record server_request =
  sr_operation :: string
  response_expected :: bool
  sync_with_server :: bool
  forwarded :: bool

text \<open>The user exceptions that the evaluation of a request can raise.\<close>

definition user_exception :: "fault \<Rightarrow> bool" where
  "user_exception e \<longleftrightarrow> e = Thrown ''Bounds'' \<or> e = Thrown ''TypeMismatch''"

definition agent_error :: "'o option \<Rightarrow> ('o, 'p, 't) effect list" where
  "agent_error agnt = (case agnt of None \<Rightarrow> [] | Some a \<Rightarrow> [AgentError a])"

text \<open>The end of \<open>invoke_i\<close>: what becomes of the evaluation of a request to \<open>target\<close>.\<close>

definition forward_request ::
    "'o \<Rightarrow> 'o option \<Rightarrow> 'p mapper \<Rightarrow> 'p \<Rightarrow> server_request \<Rightarrow> 't eval \<Rightarrow>
     (('o, 't) named_values \<times> ('o, 't) named_values \<times> 't option \<times> 't optab \<times> 'p mapper list \<times> 'o rmv_heap \<times> nat) result option \<Rightarrow>
     ('o, 'p, 't) outcome" where
  "forward_request target agnt m poa request evb evaluated = (case evaluated of
       None \<Rightarrow> None
     | Some (Inl e) \<Rightarrow>
         if user_exception e then Some (agent_error agnt, Fault (Thrown ''BAD_OPERATION'')) else Some ([], Inl e)
     | Some (Inr (args, out_args, result, tab, s)) \<Rightarrow>
         if \<not> response_expected request \<or> sync_with_server request
         then Some ([SendOneway target (sr_operation request) args], Ok (Some (ps_put s tab)))
         else Some ([Sendc target (sr_operation request) args
             \<lparr>rh_operation = sr_operation request, rh_poa = poa, rh_in_poa = in_facing_poa m, rh_other_poa = other_POA m poa,
              rh_evaluator = evb, rh_out_args = out_args, rh_result = result\<rparr>], Ok (Some (ps_put s tab))))"

text \<open>
  \<open>invoke_i\<close> of the mapper at position \<open>self\<close> of the chain, for a request to the object id \<open>oid\<close> at \<open>poa\<close>.
\<close>

definition invoke_i ::
    "('t \<Rightarrow> 't tc_view) \<Rightarrow> ('o, 'p) broker \<Rightarrow> (string \<Rightarrow> ifr_answer) \<Rightarrow> (string \<Rightarrow> 't evaluator) \<Rightarrow>
     (string \<Rightarrow> string \<Rightarrow> int) \<Rightarrow> nat \<Rightarrow> 'p \<Rightarrow> 8 word list \<Rightarrow> server_request \<Rightarrow>
     (('t option \<times> arg_mode) list \<Rightarrow> ('o, 't) named_values result) \<Rightarrow> ('o, 'p, 't) proxy_state \<Rightarrow> ('o, 'p, 't) outcome" where
  "invoke_i view br ifr idef strcmp self poa oid request arguments st =
     (let m = ps_chain st ! self in
      case current_native br (Some oid) m (ps_heap st) of
        Inl e \<Rightarrow> Some ([], Inl e)
      | Inr (None, agnt, h) \<Rightarrow> Some ([], Fault (Thrown ''NO_IMPLEMENT''))
      | Inr (Some target, agnt, h) \<Rightarrow>
          (case evaluator_for ifr m (type_of br target) of
             (None, m) \<Rightarrow> Some ([], Fault (Thrown ''NO_IMPLEMENT''))
           | (Some k, m) \<Rightarrow>
               forward_request target agnt m poa request (eval_at idef m k)
                 (eval_request view (map_at br ifr (in_facing_poa m) poa) strcmp (eval_at idef m k) (sr_operation request)
                    arguments (ps_optab st) ((ps_chain st)[self := m], h, ps_next st))))"

text \<open>\<open>invoke\<close>: two operations about the interface are accepted and nothing is done for them.\<close>

definition invoke ::
    "('t \<Rightarrow> 't tc_view) \<Rightarrow> ('o, 'p) broker \<Rightarrow> (string \<Rightarrow> ifr_answer) \<Rightarrow> (string \<Rightarrow> 't evaluator) \<Rightarrow>
     (string \<Rightarrow> string \<Rightarrow> int) \<Rightarrow> nat \<Rightarrow> 'p \<Rightarrow> 8 word list \<Rightarrow> server_request \<Rightarrow>
     (('t option \<times> arg_mode) list \<Rightarrow> ('o, 't) named_values result) \<Rightarrow> ('o, 'p, 't) proxy_state \<Rightarrow> ('o, 'p, 't) outcome" where
  "invoke view br ifr idef strcmp self poa oid request arguments st =
     (if strcmp ''_get_interface'' (sr_operation request) = 0 then Some ([], Ok (Some st))
      else if strcmp ''_primary_interface'' (sr_operation request) = 0 then Some ([], Ok (Some st))
      else invoke_i view br ifr idef strcmp self poa oid request arguments st)"

text \<open>\<open>_dispatch\<close>: every exception of the broker is caught, other faults are not.\<close>

definition catch_dispatch :: "server_request \<Rightarrow> ('o, 'p, 't) outcome \<Rightarrow> ('o, 'p, 't) outcome" where
  "catch_dispatch request r = (case r of
       Some (effs, Inl (Thrown ex)) \<Rightarrow>
         Some (if response_expected request \<and> \<not> sync_with_server request then effs @ [ReplyException ex] else effs, Ok None)
     | _ \<Rightarrow> r)"

definition dispatch ::
    "('t \<Rightarrow> 't tc_view) \<Rightarrow> ('o, 'p) broker \<Rightarrow> (string \<Rightarrow> ifr_answer) \<Rightarrow> (string \<Rightarrow> 't evaluator) \<Rightarrow>
     (string \<Rightarrow> string \<Rightarrow> int) \<Rightarrow> nat \<Rightarrow> 'p \<Rightarrow> 8 word list \<Rightarrow> server_request \<Rightarrow>
     (('t option \<times> arg_mode) list \<Rightarrow> ('o, 't) named_values result) \<Rightarrow> ('o, 'p, 't) proxy_state \<Rightarrow> ('o, 'p, 't) outcome" where
  "dispatch view br ifr idef strcmp self poa oid request arguments st =
     (if response_expected request \<and> forwarded request then Some ([SendForward], Ok (Some st))
      else map_option (\<lambda>(effs, r).
          (if response_expected request \<and> sync_with_server request then NoExceptionReply # effs else effs, r))
        (catch_dispatch request (invoke view br ifr idef strcmp self poa oid request arguments st)))"

subsection \<open>The reply handler\<close>

text \<open>
  \<open>handle_response_i\<close>: whatever goes wrong before, the reply is sent afterwards. A system exception keeps its
  name, any other becomes \<open>UNKNOWN\<close>.
\<close>

definition excep_name :: "string \<Rightarrow> string" where
  "excep_name ex = (if user_exception (Thrown ex) then ''UNKNOWN'' else ex)"

definition handle_response_i ::
    "('t \<Rightarrow> 't tc_view) \<Rightarrow> ('o, 'p) broker \<Rightarrow> (string \<Rightarrow> ifr_answer) \<Rightarrow> (string \<Rightarrow> string \<Rightarrow> int) \<Rightarrow>
     ('o, 'p, 't) reply_handler \<Rightarrow> (('o, 't) named_values \<Rightarrow> 't option \<Rightarrow> (('o, 't) named_values \<times> ('o, 't) dyn option) result) \<Rightarrow>
     ('o, 'p, 't) proxy_state \<Rightarrow> ('o, 'p, 't) outcome" where
  "handle_response_i view br ifr strcmp rh decode st =
     (case bindP (Some (decode (rh_out_args rh) (rh_result rh))) (\<lambda>(nvs, nv).
             eval_reply view (map_at br ifr (rh_in_poa rh) (rh_other_poa rh)) strcmp (rh_evaluator rh) (rh_operation rh) nvs nv
               (ps_optab st) (ps_store st)) of
        None \<Rightarrow> None
      | Some (Inl (Thrown ex)) \<Rightarrow> Some ([InvokeExcep (excep_name ex), InvokeReply None], Ok None)
      | Some (Inl e) \<Rightarrow> Some ([], Inl e)
      | Some (Inr (nvs, nv, tab, s)) \<Rightarrow> Some ([InvokeReply (Some (nvs, nv))], Ok (Some (ps_put s tab))))"

datatype reply_status = USER_EXCEPTION | SYSTEM_EXCEPTION | OTHER_STATUS

text \<open>
  \<open>handle_excep_i\<close>. What is read of the message: the repository id, and the minor code with the completion status, either
  of which can be missing. The class of a system exception is null for an id the broker does not know.
\<close>

definition handle_excep_i ::
    "('t \<Rightarrow> 't tc_view) \<Rightarrow> ('o, 'p) broker \<Rightarrow> (string \<Rightarrow> ifr_answer) \<Rightarrow> (string \<Rightarrow> string \<Rightarrow> int) \<Rightarrow> ('t \<Rightarrow> string) \<Rightarrow>
     (string \<Rightarrow> string option) \<Rightarrow> ('o, 'p, 't) reply_handler \<Rightarrow> string option \<Rightarrow> (nat \<times> nat) option \<Rightarrow>
     ('t \<Rightarrow> ('o, 't) dyn result) \<Rightarrow> reply_status \<Rightarrow> ('o, 'p, 't) proxy_state \<Rightarrow> ('o, 'p, 't) outcome" where
  "handle_excep_i view br ifr strcmp tc_id create_system_exception rh id_read codes decode status st =
     (case id_read of
        None \<Rightarrow> Some ([InvokeExcep ''MARSHAL''], Ok (Some st))
      | Some ex_id \<Rightarrow> (case status of
          USER_EXCEPTION \<Rightarrow>
            (case eval_exception view (map_at br ifr (rh_in_poa rh) (rh_poa rh)) strcmp tc_id (rh_evaluator rh) (rh_operation rh)
                    ex_id decode (ps_optab st) (ps_store st) of
               None \<Rightarrow> None
             | Some (Inl e) \<Rightarrow> Some ([], Inl e)
             | Some (Inr (enc, tab, s)) \<Rightarrow> Some ([GatewayException enc], Ok (Some (ps_put s tab))))
        | SYSTEM_EXCEPTION \<Rightarrow>
            (case codes of
               None \<Rightarrow> Some ([InvokeExcep ''MARSHAL''], Ok (Some st))
             | Some c \<Rightarrow> (case create_system_exception ex_id of
                 None \<Rightarrow> Some ([], Fault NullDeref)
               | Some ex \<Rightarrow> Some ([InvokeExcep ex], Ok (Some st))))
        | OTHER_STATUS \<Rightarrow> Some ([], Ok (Some st))))"

text \<open>\<open>handle_location_forward_i\<close>: the new location, when it can be read, is mapped like a reply's references.\<close>

definition handle_location_forward_i ::
    "('o, 'p) broker \<Rightarrow> (string \<Rightarrow> ifr_answer) \<Rightarrow> ('o, 'p, 't) reply_handler \<Rightarrow> 'o option option \<Rightarrow> bool \<Rightarrow>
     ('o, 'p, 't) proxy_state \<Rightarrow> ('o, 'p, 't) outcome" where
  "handle_location_forward_i br ifr rh fwd_read is_perm st =
     (case fwd_read of
        None \<Rightarrow> Some ([InvokeExcep ''MARSHAL''], Ok (Some st))
      | Some fwd \<Rightarrow> (case map_at br ifr (rh_in_poa rh) (rh_other_poa rh) fwd (ps_store st) of
          Inl e \<Rightarrow> Some ([], Inl e)
        | Inr (mapped, fwd, s) \<Rightarrow>
            Some ([if mapped then LocationForward fwd is_perm else InvokeExcep ''MARSHAL''], Ok (Some (ps_put s (ps_optab st))))))"

text \<open>The messages that come back for a request.\<close>

datatype ('o, 't) reply_event =
    Response "('o, 't) named_values \<Rightarrow> 't option \<Rightarrow> (('o, 't) named_values \<times> ('o, 't) dyn option) result"
  | Excep "string option" "(nat \<times> nat) option" "'t \<Rightarrow> ('o, 't) dyn result" reply_status
  | Forward "'o option option" bool

definition handle_event ::
    "('t \<Rightarrow> 't tc_view) \<Rightarrow> ('o, 'p) broker \<Rightarrow> (string \<Rightarrow> ifr_answer) \<Rightarrow> (string \<Rightarrow> string \<Rightarrow> int) \<Rightarrow> ('t \<Rightarrow> string) \<Rightarrow>
     (string \<Rightarrow> string option) \<Rightarrow> ('o, 'p, 't) reply_handler \<Rightarrow> ('o, 't) reply_event \<Rightarrow>
     ('o, 'p, 't) proxy_state \<Rightarrow> ('o, 'p, 't) outcome" where
  "handle_event view br ifr strcmp tc_id create_system_exception rh ev st = (case ev of
       Response decode \<Rightarrow> handle_response_i view br ifr strcmp rh decode st
     | Excep id_read codes decode status \<Rightarrow>
         handle_excep_i view br ifr strcmp tc_id create_system_exception rh id_read codes decode status st
     | Forward fwd_read is_perm \<Rightarrow> handle_location_forward_i br ifr rh fwd_read is_perm st)"

subsection \<open>Properties\<close>

fun is_answer :: "('o, 'p, 't) effect \<Rightarrow> bool" where
  "is_answer (SendOneway r n as) = False"
| "is_answer (Sendc r n as rh) = False"
| "is_answer (AgentError a) = False"
| "is_answer e = True"

fun sent_with :: "('o, 'p, 't) effect list \<Rightarrow> ('o, 'p, 't) reply_handler list" where
  "sent_with [] = []"
| "sent_with (Sendc r n as rh # es) = rh # sent_with es"
| "sent_with (e # es) = sent_with es"

definition answers :: "('o, 'p, 't) effect list \<Rightarrow> nat" where
  "answers es = length (filter is_answer es)"

lemma answers_simps [simp]:
  "answers [] = 0" "answers (e # es) = (if is_answer e then 1 else 0) + answers es" "answers (es @ fs) = answers es + answers fs"
  by (simp_all add: answers_def)

lemma agent_error_silent [simp]: "answers (agent_error agnt) = 0" "sent_with (agent_error agnt) = []"
  by (simp_all add: agent_error_def split: option.split)

lemma sent_with_append [simp]: "sent_with (es @ fs) = sent_with es @ sent_with fs"
  by (induction es rule: sent_with.induct) auto

text \<open>
  A request that is evaluated is not answered yet: it was sent on with one reply handler, when an answer is
  waited for, or it ended in an exception.
\<close>

definition open_request :: "server_request \<Rightarrow> ('o, 'p, 't) effect list \<Rightarrow> 'a result \<Rightarrow> bool" where
  "open_request request effs r \<longleftrightarrow> answers effs = 0 \<and> (case r of
       Inl e \<Rightarrow> sent_with effs = []
     | Inr x \<Rightarrow> length (sent_with effs) = (if response_expected request \<and> \<not> sync_with_server request then 1 else 0))"

lemma forward_request_open:
  "forward_request target agnt m poa request evb evaluated = Some (effs, r) \<Longrightarrow> open_request request effs r"
  by (auto simp: forward_request_def open_request_def split: option.splits sum.splits if_splits)

lemma invoke_i_open:
  "invoke_i view br ifr idef strcmp self poa oid request arguments st = Some (effs, r) \<Longrightarrow> open_request request effs r"
  by (auto simp: invoke_i_def Let_def split: sum.splits option.splits prod.splits dest: forward_request_open)
     (simp_all add: open_request_def)

definition interface_query :: "(string \<Rightarrow> string \<Rightarrow> int) \<Rightarrow> server_request \<Rightarrow> bool" where
  "interface_query strcmp request \<longleftrightarrow>
     strcmp ''_get_interface'' (sr_operation request) = 0 \<or> strcmp ''_primary_interface'' (sr_operation request) = 0"

text \<open>
  A request that the client waits for is either answered or sent on with one reply handler when the dispatch
  returns; for the two queries about the interface neither happens.
\<close>

lemma dispatch_twoway:
  assumes "dispatch view br ifr idef strcmp self poa oid request arguments st = Some (effs, Ok x)"
    and "response_expected request" and "\<not> sync_with_server request"
  shows "answers effs + length (sent_with effs) = (if \<not> forwarded request \<and> interface_query strcmp request then 0 else 1)"
proof (cases "forwarded request \<or> interface_query strcmp request")
  case True
  have "invoke view br ifr idef strcmp self poa oid request arguments st = Some ([], Ok (Some st))"
    if "interface_query strcmp request"
    using that by (auto simp: invoke_def interface_query_def)
  with True assms show ?thesis
    by (cases "forwarded request") (auto simp: dispatch_def catch_dispatch_def)
next
  case False
  then have "dispatch view br ifr idef strcmp self poa oid request arguments st
      = catch_dispatch request (invoke_i view br ifr idef strcmp self poa oid request arguments st)"
    using assms(3) by (cases "catch_dispatch request (invoke_i view br ifr idef strcmp self poa oid request arguments st)")
      (auto simp: dispatch_def invoke_def interface_query_def)
  with assms(1) obtain effs0 r where "invoke_i view br ifr idef strcmp self poa oid request arguments st = Some (effs0, r)"
    "catch_dispatch request (Some (effs0, r)) = Some (effs, Ok x)"
    by (cases "invoke_i view br ifr idef strcmp self poa oid request arguments st") (auto simp: catch_dispatch_def)
  with invoke_i_open [OF this(1)] False assms(2,3) show ?thesis
    by (auto simp: catch_dispatch_def open_request_def split: sum.splits fault.splits)
qed

text \<open>The reply handler answers; only a response that cannot be evaluated is answered twice.\<close>

definition ignored :: "('o, 't) reply_event \<Rightarrow> bool" where
  "ignored ev = (case ev of Excep id_read codes decode OTHER_STATUS \<Rightarrow> id_read \<noteq> None | _ \<Rightarrow> False)"

lemma handle_event_answers:
  assumes "handle_event view br ifr strcmp tc_id create_system_exception rh ev st = Some (effs, Ok x)"
  shows "answers effs = (if ignored ev then 0 else if InvokeReply None \<in> set effs then 2 else 1)"
proof (cases ev)
  case (Response decode)
  with assms show ?thesis
    by (auto simp: handle_event_def handle_response_i_def ignored_def split: option.splits sum.splits fault.splits prod.splits)
next
  case (Excep id_read codes decode status)
  with assms show ?thesis
    by (cases status) (auto simp: handle_event_def handle_excep_i_def ignored_def split: option.splits sum.splits)
next
  case (Forward fwd_read is_perm)
  with assms show ?thesis
    by (auto simp: handle_event_def handle_location_forward_i_def ignored_def split: option.splits sum.splits if_splits)
qed

lemma dispatch_faulty:
  assumes "dispatch view br ifr idef strcmp self poa oid request arguments st = Some (effs, Inl e)"
    and "response_expected request" and "\<not> sync_with_server request"
  shows "answers effs = 0 \<and> sent_with effs = [] \<and> \<not> (\<exists>ex. e = Thrown ex)"
proof -
  have f: "\<not> forwarded request" using assms(1,2) by (auto simp: dispatch_def)
  obtain effs0 r where i: "invoke view br ifr idef strcmp self poa oid request arguments st = Some (effs0, r)"
    and c: "catch_dispatch request (Some (effs0, r)) = Some (effs, Inl e)"
    using assms f by (cases "invoke view br ifr idef strcmp self poa oid request arguments st") (auto simp: dispatch_def catch_dispatch_def)
  from c have "effs = effs0" "r = Inl e" "\<not> (\<exists>ex. e = Thrown ex)" by (auto simp: catch_dispatch_def split: sum.splits fault.splits)
  moreover from this(2) i have "invoke_i view br ifr idef strcmp self poa oid request arguments st = Some (effs0, Inl e)"
    by (auto simp: invoke_def split: if_splits)
  ultimately show ?thesis using invoke_i_open [of view br ifr idef strcmp self poa oid request arguments st effs0 "Inl e"] by (simp add: open_request_def)
qed

text \<open>
  A fault that leaves the handler: \<open>handle_response_i\<close> catches every exception, \<open>handle_excep_i\<close> and \<open>handle_location_forward_i\<close> do not.
\<close>

fun is_response :: "('o, 't) reply_event \<Rightarrow> bool" where
  "is_response (Response decode) = True"
| "is_response ev = False"

lemma handle_event_faulty:
  assumes "handle_event view br ifr strcmp tc_id create_system_exception rh ev st = Some (effs, Inl e)"
  shows "answers effs = 0 \<and> (is_response ev \<longrightarrow> \<not> (\<exists>ex. e = Thrown ex))"
proof (cases ev)
  case (Response decode)
  with assms show ?thesis
    by (auto simp: handle_event_def handle_response_i_def split: option.splits sum.splits fault.splits prod.splits)
next
  case (Excep id_read codes decode status)
  with assms show ?thesis
    by (cases status) (auto simp: handle_event_def handle_excep_i_def split: option.splits sum.splits)
next
  case (Forward fwd_read is_perm)
  with assms show ?thesis
    by (auto simp: handle_event_def handle_location_forward_i_def split: option.splits sum.splits if_splits)
qed

text \<open>
  An exchange: the dispatch of a request, and what comes back for the handler it was sent with. Between the two the
  state can change, since other requests go on. Either step can end in a fault, an exception that nobody catches or an error of the program.
\<close>

fun escaped :: "'a result \<Rightarrow> fault option" where
  "escaped (Inl e) = Some e"
| "escaped (Inr x) = None"

inductive exchange ::
    "('t \<Rightarrow> 't tc_view) \<Rightarrow> ('o, 'p) broker \<Rightarrow> (string \<Rightarrow> ifr_answer) \<Rightarrow> (string \<Rightarrow> 't evaluator) \<Rightarrow>
     (string \<Rightarrow> string \<Rightarrow> int) \<Rightarrow> ('t \<Rightarrow> string) \<Rightarrow> (string \<Rightarrow> string option) \<Rightarrow> server_request \<Rightarrow>
     ('o, 't) reply_event list \<Rightarrow> ('o, 'p, 't) effect list \<Rightarrow> fault option \<Rightarrow> bool"
  for view br ifr idef strcmp tc_id create_system_exception request where
  answered_here:
    "dispatch view br ifr idef strcmp self poa oid request arguments st = Some (effs, r) \<Longrightarrow> sent_with effs = [] \<Longrightarrow>
     exchange view br ifr idef strcmp tc_id create_system_exception request [] effs (escaped r)"
| answered_later:
    "dispatch view br ifr idef strcmp self poa oid request arguments st = Some (effs, Ok x) \<Longrightarrow> sent_with effs = [rh] \<Longrightarrow>
     handle_event view br ifr strcmp tc_id create_system_exception rh ev st' = Some (effs', r) \<Longrightarrow>
     exchange view br ifr idef strcmp tc_id create_system_exception request [ev] (effs @ effs') (escaped r)"

lemma dispatch_no_reply:
  assumes "dispatch view br ifr idef strcmp self poa oid request arguments st = Some (effs, Ok x)"
  shows "InvokeReply None \<notin> set effs"
proof -
  have fwd: "forward_request target agnt m poa request evb evaluated = Some (es, r) \<Longrightarrow> InvokeReply None \<notin> set es"
    for target agnt m evb evaluated and es :: "('a, 'b, 'c) effect list" and r
    by (auto simp: forward_request_def agent_error_def split: option.splits sum.splits if_splits)
  have "invoke view br ifr idef strcmp self poa oid request arguments st = Some (es, r) \<Longrightarrow> InvokeReply None \<notin> set es" for es r
    by (auto simp: invoke_def invoke_i_def Let_def split: if_splits sum.splits option.splits prod.splits dest: fwd)
  with assms show ?thesis
    by (auto simp: dispatch_def catch_dispatch_def split: if_splits option.splits sum.splits fault.splits)
qed


text \<open>A request to a bound index goes to the native reference of the value there; the values stay.\<close>

lemma invoke_i_bound:
  assumes "ps_chain st ! self = m" and "mapped_values m = Some t" and "store_ok {} own (t, ps_heap st)"
    and "lookup t i = Some a" and "contents (ps_heap st) a = Some (v\<lparr>ref_count := 0\<rparr>)" and "orig_ref v = Some target"
    and "evaluator_for ifr m (type_of br target) = (Some k, m)"
  shows "\<exists>h. store_ok {} own (t, h) \<and> contents h = contents (ps_heap st)
    \<and> (\<forall>request arguments poa. invoke_i view br ifr idef strcmp self poa (oid_for br f i) request arguments st
      = forward_request target (agent v) m poa request (eval_at idef m k)
          (eval_request view (map_at br ifr (in_facing_poa m) poa) strcmp (eval_at idef m k) (sr_operation request)
             arguments (ps_optab st) (ps_chain st, h, ps_next st)))"
proof -
  obtain h where "native_for_mapped_i br (oid_for br f i) m (ps_heap st) = Ok (Some target, agent v, h)"
    "store_ok {} own (t, h)" "contents h = contents (ps_heap st)"
    using native_for_mapped_bound [OF assms(2-5), of br f] assms(6) by auto
  moreover have "(ps_chain st)[self := m] = ps_chain st" using assms(1) by auto
  ultimately show ?thesis
    using assms(1,2,7) by (intro exI [of _ h]) (simp add: invoke_i_def current_native_def Let_def)
qed

definition sample_state :: "(string, nat, nat) proxy_state" where
  "sample_state = \<lparr>ps_chain = [sample_mapper\<lparr>mapped_values := Some bound_table\<rparr>], ps_heap = bound_heap, ps_next = 6,
     ps_optab = sample_optab\<rparr>"

definition sample_request :: server_request where
  "sample_request = \<lparr>sr_operation = ''op'', response_expected = True, sync_with_server = False, forwarded = False\<rparr>"

lemma sample_invoke:
  "\<exists>rh st. invoke_i sample_view sample_broker (\<lambda>_. NilInterface) (\<lambda>_. sample_evaluator) strcmp_sign 0 2
      (oid_for sample_broker True 0) sample_request (\<lambda>nvs. Ok []) sample_state
    = Some ([Sendc ''..|IDnative'' ''op'' [] rh], Ok (Some st)) \<and> rh_evaluator rh = NullEval"
proof -
  let ?m = "sample_mapper\<lparr>mapped_values := Some bound_table\<rparr>"
  let ?v = "new_rmv\<lparr>orig_ref := Some ''..|IDnative'', ref_count := 2\<rparr>"
  have st: "ps_chain sample_state ! 0 = ?m" "store_ok {} ((\<lambda>_. 0)(5 := 1)) (bound_table, ps_heap sample_state)"
    "contents (ps_heap sample_state) 5 = Some (?v\<lparr>ref_count := 0\<rparr>)" "orig_ref ?v = Some ''..|IDnative''" "mapped_values ?m = Some bound_table"
    using bound_store_ok by (simp_all add: sample_state_def bound_heap_def contents_def)
  have ev: "evaluator_for (\<lambda>_. NilInterface) ?m (type_of sample_broker ''..|IDnative'') = (Some 0, ?m)"
    by (simp add: evaluator_for_def null_evaluator_for_def evaluator_head_def sample_mapper_def)
  have "eval_at (\<lambda>_. sample_evaluator) ?m 0 = NullEval" by (simp add: eval_at_def sample_mapper_def)
  then show ?thesis
    using invoke_i_bound [OF st(1,5,2) bound_store_ok(2) st(3,4) ev, of sample_view "\<lambda>_. sample_evaluator" strcmp_sign True]
    by (auto simp: forward_request_def eval_request_def sample_request_def)
qed

lemma sample_not_query: "\<not> interface_query strcmp_sign sample_request"
  by (simp add: interface_query_def sample_request_def sign.cmp_zero)


lemma served_request:
  assumes "broker_ok br" and "server_ready br ifr own a orig m ms t st"
    and "type_of br (original_ref br orig) = type_of br orig" and "mkind m \<noteq> GenericMapper"
    and "\<not> interface_query strcmp request" and "response_expected request \<longrightarrow> \<not> forwarded request \<and> \<not> sync_with_server request"
  shows "\<exists>r st1 oid. as_server_i br ifr a secure orig name agnt st = Ok (Some r, st1)
    \<and> ior_table st1 = published br name r st \<and> r = make_ref br (out_facing_poa m) oid (type_of br orig)
    \<and> ref_id br (out_facing_poa m) r = Some oid
    \<and> (\<forall>ps poa arguments. ps_chain ps = chain_of st1 \<and> ps_heap ps = rmvs st1 \<longrightarrow>
        (\<exists>ps' rh. dispatch view br ifr idef strcmp 0 poa oid request arguments ps
           = Some ([if response_expected request then Sendc (original_ref br orig) (sr_operation request) [] rh
                    else SendOneway (original_ref br orig) (sr_operation request) []], Ok (Some ps'))
         \<and> ps_chain ps' = ps_chain ps \<and> contents (ps_heap ps') = contents (ps_heap ps)))"
proof -
  let ?i = "fst (next_index t)" let ?r = "server_ref br orig m ?i" and ?ty = "type_of br orig"
  let ?v = "server_value br m orig ?i secure (if publishes name st then name else []) agnt"
  obtain t1 st1 where s: "as_server_i br ifr a secure orig name agnt st = Ok (Some ?r, st1)"
    "chain_of st1 = server_mapper ifr ?ty t1 m # ms" "lookup t1 ?i = Some a"
    "store_ok {} own (t1, rmvs st1)" "contents (rmvs st1) a = Some ?v" "ior_table st1 = published br name ?r st"
    using as_server_i_fresh [OF assms(1,2) refl, of secure name agnt] by fastforce
  let ?m = "server_mapper ifr ?ty t1 m"
  have some: "fst (evaluator_for ifr m ?ty) \<noteq> None" using assms(2) by (simp add: server_ready_def)
  note sm = server_mapper_facts [OF some]
  obtain k where k: "evaluator_for ifr ?m ?ty = (Some k, ?m)" using sm(1) by blast
  have v: "?v = ?v\<lparr>ref_count := 0\<rparr>" "orig_ref ?v = Some (original_ref br orig)"
    by (simp_all add: server_value_def native_value_def)
  have "mkind ?m = mkind m" using assms(4)
    by (simp add: server_mapper_def evaluator_for_def split: mapper_kind.split)
  then have null: "eval_at idef ?m k = NullEval" using assms(4) by (simp add: eval_at_def)
  have "\<exists>ps' rh. dispatch view br ifr idef strcmp 0 poa (oid_for br True ?i) request arguments ps
         = Some ([if response_expected request then Sendc (original_ref br orig) (sr_operation request) [] rh
                  else SendOneway (original_ref br orig) (sr_operation request) []], Ok (Some ps'))
       \<and> ps_chain ps' = ps_chain ps \<and> contents (ps_heap ps') = contents (ps_heap ps)"
    if ps: "ps_chain ps = chain_of st1" "ps_heap ps = rmvs st1" for ps :: "('a, 'b, 'c) proxy_state" and poa arguments
  proof -
    have at: "ps_chain ps ! 0 = ?m" "store_ok {} own (t1, ps_heap ps)" "contents (ps_heap ps) a = Some (?v\<lparr>ref_count := 0\<rparr>)"
      "evaluator_for ifr ?m (type_of br (original_ref br orig)) = (Some k, ?m)"
      using ps s v(1) k assms(3) by simp_all
    obtain h where h: "contents h = contents (ps_heap ps)"
      "invoke_i view br ifr idef strcmp 0 poa (oid_for br True ?i) request arguments ps
        = forward_request (original_ref br orig) (agent ?v) ?m poa request NullEval
            (Some (Ok ([], [], None, ps_optab ps, ps_chain ps, h, ps_next ps)))"
      using invoke_i_bound [OF at(1) sm(4) at(2) s(3) at(3) v(2) at(4), of view idef strcmp True] unfolding null
      by (auto simp: eval_request_def)
    then show ?thesis using assms(5,6)
      by (auto simp: dispatch_def invoke_def interface_query_def catch_dispatch_def forward_request_def ps_put_def)
  qed
  moreover have "ref_id br (out_facing_poa m) ?r = Some (oid_for br True ?i)"
    using assms(1) by (simp add: server_ref_def broker_ok_def)
  ultimately show ?thesis
    by (intro exI [of _ ?r] exI [of _ st1] exI [of _ "oid_for br True ?i"] conjI allI impI s(1,6) server_ref_def) blast+
qed



text \<open>A reference that is not mapped yet becomes one at the POA for its direction.\<close>

lemma mapped_for_native_fresh:
  assumes "mapped_values m = Some t" and "store_ok {} own (t, h)" and "room t" and "h a = None"
    and "fst (evaluator_for ifr m (type_of br native)) \<noteq> None" and "fst (already_mapped br m native (poa = in_poa)) = NOT_MAPPED"
  shows "\<exists>ms' h'. mapped_for_native br ifr a (Some native) poa in_poa (m # ms) h
    = Ok (True, Some (make_ref br (facing_poa (poa = in_poa) m) (oid_for br (poa = in_poa) (fst (next_index t))) (type_of br native)), ms', h')"
proof -
  let ?ty = "type_of br native" and ?f = "poa = in_poa" and ?i = "fst (next_index t)"
  obtain k m0 where ev: "evaluator_for ifr m ?ty = (Some k, m0)" using assms(5) by (cases "evaluator_for ifr m ?ty") auto
  note again = evaluator_for_again [OF ev]
  have m0: "mapped_values m0 = Some t" using again(2) assms(1) by simp
  obtain t' h1 where u: "add_native_unchecked br a native ?ty ?f False m0 h = Ok (a, m0\<lparr>mapped_values := Some t'\<rparr>, h1)"
    "lookup t' ?i = Some a" "store_ok {} (own(a := 1)) (t', h1)"
    "contents h1 a = Some ((native_value br m0 native (oid_for br ?f ?i) ?ty ?f False)\<lparr>ref_count := 0\<rparr>)"
    using add_native_unchecked_ok [OF m0 assms(2-4), of br native ?ty ?f False] by auto
  have "own a = 0" using fresh_address(1) [OF assms(2,4)] .
  then obtain h2 where d: "var_dtor (Some a) h1 = Ok h2" using drop_found [of "{}" own a t' h1] u(3) by auto
  obtain w where w: "h1 a = Some w" "mapped_ref w = Some (make_ref br (facing_poa ?f m0) (oid_for br ?f ?i) ?ty)"
    using contents_Some [OF u(4)] by (auto simp: native_value_refs)
  have nm: "fst (already_mapped br m0 native ?f) = NOT_MAPPED" using assms(6) by (simp add: already_mapped_cong [of m0 m] again(2))
  have "facing_poa ?f m0 = facing_poa ?f m" using again by (simp add: facing_poa_def)
  then show ?thesis using ev nm u(1) w d
    by (cases "already_mapped br m0 native ?f") (auto simp: mapped_for_native_def map_reference_def rmv_at_def)
qed

lemma evaluate_exception_ok:
  assumes "op_args (ev_type_id ev) (entries strcmp tab operation) = Some a" and "lists tab a = Some al"
    and "find_exception tc_id al ex_type = Ok (Some k)" and "decode (dyn_tc d) = Ok d" and "matches view (al_exceptions al ! k) d"
  shows "\<exists>tab'. evaluate_exception view mapf strcmp tc_id ev operation ex_type decode tab s
    = Some (bindR (map_refs mapf d s) (\<lambda>(b, d', s). Ok (True, Some d', tab', s)))"
proof -
  let ?al = "al\<lparr>al_refcount := al_refcount al + 1\<rparr>"
  let ?done = "?al\<lparr>al_exceptions := (al_exceptions al)[k := settled view (al_exceptions al ! k)]\<rparr>"
  have f: "find_exception tc_id ?al ex_type = Ok (Some k)" using assms(3) by (simp add: find_exception_def)
  have t: "tc (al_exceptions al ! k) = Some (dyn_tc d)" using assms(5) by (simp add: matches_def)
  have "proxify_exception view mapf k ?al d s = Some (bindR (map_refs mapf d s) (\<lambda>(b, d', s). Ok (?done, d', s)))"
    using cached_check_ok [OF assms(5)] checked_value [OF assms(5), of mapf s]
    by (simp add: proxify_exception_def bindP_Some bindR_assoc split_def)
  then show ?thesis using find_args_eq [OF assms(1,2)] f t assms(4)
    by (intro exI [of _ "al_put a ?done tab"]) (simp add: evaluate_exception_def bindP_Some bindR_assoc split_def)
qed

text \<open>
  A reference in a user exception comes out facing the wrong way. For the reply to a request from the outside, a
  location forward maps a new reference to one at the outward facing POA, which the client can reach; the same reference as a
  member of a user exception is mapped to one at the inward facing POA, since the handler passes the
  POA of the request where the other two pass the opposite one.
\<close>

theorem exception_refs_face_inward:
  assumes "ps_chain st = m # ms" and "mapped_values m = Some t" and "store_ok {} own (t, ps_heap st)" and "room t"
    and "ps_heap st (ps_next st) = None" and "fst (evaluator_for ifr m (type_of br native)) \<noteq> None"
    and "\<forall>f. fst (already_mapped br m native f) = NOT_MAPPED"
    and "rh_poa rh = out_facing_poa m" and "rh_in_poa rh = in_facing_poa m" and "rh_other_poa rh = other_POA m (rh_poa rh)"
    and "in_facing_poa m \<noteq> out_facing_poa m" and "rh_evaluator rh = GenericEval ev"
    and "op_args (ev_type_id ev) (entries strcmp (ps_optab st) (rh_operation rh)) = Some a" and "lists (ps_optab st) a = Some al"
    and "find_exception tc_id al ex_id = Ok (Some k)" and "decode tc_ex = Ok (DStruct tc_ex [DRef u (Some native)])"
    and "matches view (al_exceptions al ! k) (DStruct tc_ex [DRef u (Some native)])"
  shows "\<exists>st1 st2. let i = fst (next_index t) in
      handle_location_forward_i br ifr rh (Some (Some native)) is_perm st = Some ([LocationForward
        (Some (make_ref br (out_facing_poa m) (oid_for br True i) (type_of br native))) is_perm], Ok (Some st1))
    \<and> handle_excep_i view br ifr strcmp tc_id create_system_exception rh (Some ex_id) codes decode USER_EXCEPTION st
      = Some ([GatewayException (Converted (DStruct tc_ex
          [DRef u (Some (make_ref br (in_facing_poa m) (oid_for br False i) (type_of br native)))]))], Ok (Some st2))"
proof -
  let ?ty = "type_of br native" and ?i = "fst (next_index t)" and ?n = "ps_next st"
  let ?d = "DStruct tc_ex [DRef u (Some native)]"
  have mp: "\<exists>s. map_at br ifr (in_facing_poa m) poa (Some native) (ps_store st)
      = Ok (True, Some (make_ref br (facing_poa (poa = in_facing_poa m) m) (oid_for br (poa = in_facing_poa m) ?i) ?ty), s)" for poa
    using mapped_for_native_fresh [OF assms(2-6) assms(7) [rule_format], of poa "in_facing_poa m" ms] assms(1)
    by (auto simp: map_at_def ps_store_def)
  obtain s1 where s1: "map_at br ifr (rh_in_poa rh) (rh_other_poa rh) (Some native) (ps_store st)
      = Ok (True, Some (make_ref br (out_facing_poa m) (oid_for br True ?i) ?ty), s1)"
    using mp [of "in_facing_poa m"] assms(8-11) by (auto simp: facing_poa_def other_POA_def)
  obtain s2 where s2: "map_at br ifr (rh_in_poa rh) (rh_poa rh) (Some native) (ps_store st)
      = Ok (True, Some (make_ref br (in_facing_poa m) (oid_for br False ?i) ?ty), s2)"
    using mp [of "out_facing_poa m"] assms(8-11) by (auto simp: facing_poa_def)
  have dec: "decode (dyn_tc ?d) = Ok ?d" using assms(16) by simp
  obtain tab where "evaluate_exception view (map_at br ifr (rh_in_poa rh) (rh_poa rh)) strcmp tc_id ev (rh_operation rh) ex_id decode
      (ps_optab st) (ps_store st) = Some (Ok (True, Some (DStruct tc_ex
        [DRef u (Some (make_ref br (in_facing_poa m) (oid_for br False ?i) ?ty))]), tab, s2))"
    using evaluate_exception_ok [where decode = decode and d = ?d, OF assms(13-15) dec assms(17), of "map_at br ifr (rh_in_poa rh) (rh_poa rh)" "ps_store st"] s2
    by (auto simp: replace_ref_def)
  then show ?thesis using s1 assms(12)
    by (simp add: Let_def handle_location_forward_i_def handle_excep_i_def eval_exception_def)
qed

definition throwing_optab :: "nat optab" where
  "throwing_optab = \<lparr>head_op = Operation Nil_op ''op'' [(''ID'', 0)] Nil_op,
     lists = [0 \<mapsto> empty_arg_list\<lparr>al_exceptions := [arg_init (Some 8) NO_MODE new_arg]\<rparr>], next_addr = 1\<rparr>"

definition throwing_view :: "nat \<Rightarrow> nat tc_view" where
  "throwing_view t = (if t = 0 then Tk_objref else if t = 8 then Tk_except [0] else Tk_other)"

lemma throwing_finite: "tc_finite throwing_view 0" "tc_finite throwing_view 8"
proof -
  show 0: "tc_finite throwing_view 0" by (rule tc_finite.intros) (simp add: throwing_view_def parts_def)
  show "tc_finite throwing_view 8" by (rule tc_finite.intros) (simp add: throwing_view_def parts_def 0)
qed

theorem exception_refs_face_inward_witness:
  "\<exists>r oid st. handle_excep_i throwing_view sample_broker (\<lambda>_. NilInterface) strcmp_sign (\<lambda>_. ''EX'') (\<lambda>_. None)
      \<lparr>rh_operation = ''op'', rh_poa = 2, rh_in_poa = 1, rh_other_poa = 1, rh_evaluator = GenericEval sample_evaluator,
       rh_out_args = [], rh_result = None\<rparr> (Some ''EX'') None (\<lambda>t. Ok (DStruct t [DRef 0 (Some ''..|IDnative'')])) USER_EXCEPTION
      \<lparr>ps_chain = [sample_mapper], ps_heap = (\<lambda>_. None), ps_next = 5, ps_optab = throwing_optab\<rparr>
    = Some ([GatewayException (Converted (DStruct 8 [DRef 0 (Some r)]))], Ok (Some st))
    \<and> r = make_ref sample_broker 1 oid ''ID''"
proof -
  let ?st = "\<lparr>ps_chain = [sample_mapper], ps_heap = (\<lambda>_. None), ps_next = 5, ps_optab = throwing_optab\<rparr>"
  let ?rh = "\<lparr>rh_operation = ''op'', rh_poa = 2, rh_in_poa = 1, rh_other_poa = 1, rh_evaluator = GenericEval sample_evaluator,
       rh_out_args = [], rh_result = None\<rparr>"
  let ?al = "empty_arg_list\<lparr>al_exceptions := [arg_init (Some 8) NO_MODE new_arg]\<rparr>"
  have ev: "fst (evaluator_for (\<lambda>_. NilInterface) sample_mapper ty) \<noteq> None" for ty by (simp add: sample_mapper_ok(4))
  have nm: "\<forall>f. fst (already_mapped sample_broker sample_mapper ''..|IDnative'' f) = NOT_MAPPED"
    by (simp add: already_mapped_def sample_broker_def ref_body_def dots_def id_size_def)
  have poas: "rh_poa ?rh = out_facing_poa sample_mapper" "rh_in_poa ?rh = in_facing_poa sample_mapper"
    "rh_other_poa ?rh = other_POA sample_mapper (rh_poa ?rh)" "in_facing_poa sample_mapper \<noteq> out_facing_poa sample_mapper"
    "rh_evaluator ?rh = GenericEval sample_evaluator"
    by (simp_all add: sample_mapper_def other_POA_def)
  have "strcmp_sign ''op'' ''op'' = 0" by (simp add: sign.cmp_zero)
  then have args: "op_args (ev_type_id sample_evaluator) (entries strcmp_sign (ps_optab ?st) (rh_operation ?rh)) = Some 0"
    "lists (ps_optab ?st) 0 = Some ?al" "find_exception (\<lambda>_. ''EX'') ?al ''EX'' = Ok (Some 0)"
    by (simp_all add: entries_def throwing_optab_def sample_evaluator_def find_exception_def arg_init_def)
  have base: "tc_base throwing_view 0 = Some Tk_objref" "tc_base throwing_view 8 = Some (Tk_except [0])"
    by (simp_all add: tc_base_def strip_alias.simps throwing_view_def)
  then have mat: "matches throwing_view (al_exceptions ?al ! 0) (DStruct 8 [DRef 0 (Some ''..|IDnative'')])"
    by (simp add: matches_def arg_init_def new_arg_def throwing_finite)
  have ty: "type_of sample_broker ''..|IDnative'' = ''ID''" by (simp add: sample_broker_def ref_body_def dots_def)
  have st: "ps_chain ?st = sample_mapper # []" "store_ok {} (\<lambda>_. 0) (new_table 60 2, ps_heap ?st)" "ps_heap ?st (ps_next ?st) = None"
    using sample_mapper_ok(1) by simp_all
  have in_poa: "in_facing_poa sample_mapper = 1" by (simp add: sample_mapper_def)
  from exception_refs_face_inward [where decode = "\<lambda>t. Ok (DStruct t [DRef 0 (Some ''..|IDnative'')])",
      OF st(1) sample_mapper_ok(3) st(2) sample_mapper_ok(2) st(3) ev nm poas args refl mat, of False "\<lambda>_. None" None]
  show ?thesis unfolding Let_def ty in_poa by blast
qed

end
