(* ===== verification/PassThrough.thy ===== *)
theory PassThrough
  imports ProxyRequest
begin

text \<open>
  Values that pass the proxy. The evaluator replaces the references of a value (\<open>GenericEvaluator\<close>) by the mapping that the chain of mappers
  performs (\<open>ProxyMapper\<close>) on the table of values (\<open>RMVStore\<close>); here the three are put together. Shown, for a mapper that keeps a table
  (the option \<open>CacheProxyReferences\<close>, off by default): what leaves on one side has no reference of the other side in it, and what comes back is what was sent.
\<close>

subsection \<open>The references of a value\<close>

fun refs_of :: "('o, 't) dyn \<Rightarrow> 'o list" where
  "refs_of (DRef t r) = (case r of None \<Rightarrow> [] | Some x \<Rightarrow> [x])"
| "refs_of (DStruct t ds) = concat (map refs_of ds)"
| "refs_of (DSeq t ds) = concat (map refs_of ds)"
| "refs_of (DArray t ds) = concat (map refs_of ds)"
| "refs_of (DUnion t x) = (case x of None \<Rightarrow> [] | Some d \<Rightarrow> refs_of d)"
| "refs_of (DAny t x) = refs_of x"
| "refs_of (DPlain t) = []"

lemma refs_of_set: "set (refs_of d) = set1_dyn d"
proof (induction d)
  case (DRef t r) then show ?case by (cases r) auto
next
  case (DUnion t x) then show ?case by (cases x) auto
qed auto

text \<open>Replacing references leaves the types as they are.\<close>

definition same_type :: "('t \<Rightarrow> 't tc_view) \<Rightarrow> ('o, 't) dyn \<Rightarrow> ('o, 't) dyn \<Rightarrow> bool" where
  "same_type view d d' \<longleftrightarrow> dyn_tc d' = dyn_tc d \<and> (typed view d \<longrightarrow> typed view d') \<and> (no_ref_array view d \<longrightarrow> no_ref_array view d')"

lemma list_all2_preimage: "list_all2 R xs ys \<Longrightarrow> y \<in> set ys \<Longrightarrow> \<exists>x \<in> set xs. R x y"
  by (induction rule: list_all2_induct) auto

lemma same_type_list:
  assumes "list_all2 (same_type view) ds ds'"
  shows "map dyn_tc ds' = map dyn_tc ds"
    and "\<forall>d \<in> set ds. typed view d \<Longrightarrow> \<forall>d \<in> set ds'. typed view d"
    and "\<forall>d \<in> set ds. dyn_tc d = u \<and> typed view d \<Longrightarrow> \<forall>d \<in> set ds'. dyn_tc d = u \<and> typed view d"
    and "\<forall>d \<in> set ds. no_ref_array view d \<Longrightarrow> \<forall>d \<in> set ds'. no_ref_array view d"
proof -
  show "map dyn_tc ds' = map dyn_tc ds" using assms by (induction rule: list_all2_induct) (auto simp: same_type_def)
  have same: "\<exists>d \<in> set ds. same_type view d d'" if "d' \<in> set ds'" for d' using list_all2_preimage [OF assms that] .
  show "\<forall>d \<in> set ds. typed view d \<Longrightarrow> \<forall>d \<in> set ds'. typed view d"
    "\<forall>d \<in> set ds. dyn_tc d = u \<and> typed view d \<Longrightarrow> \<forall>d \<in> set ds'. dyn_tc d = u \<and> typed view d"
    "\<forall>d \<in> set ds. no_ref_array view d \<Longrightarrow> \<forall>d \<in> set ds'. no_ref_array view d"
    using same unfolding same_type_def by metis+
qed

lemma rel_same_type: "rel_dyn R (=) d d' \<Longrightarrow> same_type view d d'"
proof (induction rule: dyn.rel_induct)
  case (DStruct t ds t' ds')
  note l = same_type_list [OF DStruct(2)]
  show ?case using DStruct(1) l(1,2,4) by (simp add: same_type_def)
next
  case (DSeq t ds t' ds')
  note l = same_type_list [OF DSeq(2)]
  have "typed view (DSeq t ds')" if "typed view (DSeq t ds)"
  proof -
    from that obtain u where u: "tc_finite view t" "tc_base view t = Some (Tk_sequence u)" "\<forall>d \<in> set ds. dyn_tc d = u \<and> typed view d"
      by (rule typed_DSeqE)
    show ?thesis using u(1,2) l(3) [OF u(3)] by simp
  qed
  then show ?case using DSeq(1) l(4) by (simp add: same_type_def)
next
  case (DArray t ds t' ds')
  note l = same_type_list [OF DArray(2)]
  have "typed view (DArray t ds')" if "typed view (DArray t ds)"
  proof -
    from that obtain u where u: "tc_finite view t" "tc_base view t = Some (Tk_array u)" "\<forall>d \<in> set ds. dyn_tc d = u \<and> typed view d"
      by (rule typed_DArrayE)
    show ?thesis using u(1,2) l(3) [OF u(3)] by simp
  qed
  then show ?case using DArray(1) by (simp add: same_type_def)
next
  case (DUnion t x t' x')
  then show ?case by (cases x; cases x') (auto simp: same_type_def split: option.splits tc_view.splits)
qed (auto simp: same_type_def)

text \<open>The references of named values but for one mode, those of a result, and the change of one named value.\<close>

definition item_refs :: "arg_mode \<Rightarrow> ('o, 't) named_values \<Rightarrow> 'o list" where
  "item_refs exclude nvs = concat (map (\<lambda>nv. refs_of (snd nv)) (filter (\<lambda>nv. fst nv \<noteq> exclude) nvs))"

definition result_refs :: "('o, 't) dyn option \<Rightarrow> 'o list" where
  "result_refs nv = (case nv of None \<Rightarrow> [] | Some d \<Rightarrow> refs_of d)"

definition item_rel :: "arg_mode \<Rightarrow> ('o \<Rightarrow> 'o \<Rightarrow> bool) \<Rightarrow> arg_mode \<times> ('o, 't) dyn \<Rightarrow> arg_mode \<times> ('o, 't) dyn \<Rightarrow> bool" where
  "item_rel exclude R nv nv' \<longleftrightarrow> fst nv' = fst nv \<and> (if fst nv = exclude then snd nv' = snd nv else rel_dyn R (=) (snd nv) (snd nv'))"

subsection \<open>The passage of a value\<close>

text \<open>
  The interface between the evaluator and what maps a reference: in a state that has room for \<open>k + 1\<close> references (\<open>I\<close>) a reference that may
  pass (\<open>P\<close>) is mapped, to one that stands for it from then on (\<open>Q\<close>); nil passes unchanged.
\<close>

locale passage =
  fixes mapf :: "('o, 's) ref_map" and I :: "nat \<Rightarrow> 's \<Rightarrow> bool" and P :: "'o \<Rightarrow> bool" and Q :: "'s \<Rightarrow> 'o \<Rightarrow> 'o \<Rightarrow> bool"
  assumes pass: "I (Suc k) s \<Longrightarrow> P r \<Longrightarrow> \<exists>r' s'. mapf (Some r) s = Ok (True, Some r', s') \<and> I k s' \<and> Q s' r r' \<and> Q s \<le> Q s'"
    and nil: "I k s \<Longrightarrow> \<exists>s'. mapf None s = Ok (True, None, s') \<and> I k s' \<and> Q s \<le> Q s'"
begin

definition passes :: "('o, 't) dyn \<Rightarrow> bool" where
  "passes d \<longleftrightarrow> (\<forall>k s. I (k + length (refs_of d)) s \<and> (\<forall>r \<in> set (refs_of d). P r) \<longrightarrow>
     (\<exists>b d' s'. map_refs mapf d s = Ok (b, d', s') \<and> I k s' \<and> rel_dyn (Q s') (=) d d' \<and> Q s \<le> Q s'))"

lemma rel_dyn_later: "Q s \<le> Q s' \<Longrightarrow> rel_dyn (Q s) (=) d d' \<Longrightarrow> rel_dyn (Q s') (=) d d'"
  by (erule dyn.rel_mono_strong) (auto simp: le_fun_def)

lemma list_passes:
  assumes "\<forall>d \<in> set ds. passes d"
    and "I (k + length (concat (map refs_of ds))) s" and "\<forall>r \<in> set (concat (map refs_of ds)). P r"
  shows "\<exists>b ds' s'. map_refs_list mapf ds s = Ok (b, ds', s') \<and> I k s' \<and> list_all2 (rel_dyn (Q s') (=)) ds ds' \<and> Q s \<le> Q s'"
  using assms
proof (induction ds arbitrary: s)
  case (Cons d ds)
  let ?n = "k + length (concat (map refs_of ds))"
  have "I (?n + length (refs_of d)) s" using Cons.prems(2) by (simp add: ac_simps)
  moreover have "passes d" "\<forall>r \<in> set (refs_of d). P r" using Cons.prems(1,3) by simp_all
  ultimately obtain b d' s1 where d: "map_refs mapf d s = Ok (b, d', s1)" "I ?n s1" "rel_dyn (Q s1) (=) d d'" "Q s \<le> Q s1"
    unfolding passes_def by blast
  obtain c ds' s2 where ds: "map_refs_list mapf ds s1 = Ok (c, ds', s2)" "I k s2" "list_all2 (rel_dyn (Q s2) (=)) ds ds'" "Q s1 \<le> Q s2"
    using Cons.IH [OF _ d(2)] Cons.prems(1,3) by auto
  show ?case using d ds rel_dyn_later [OF ds(4) d(3)] order_trans [OF d(4) ds(4)] by simp
qed auto

lemma map_refs_passes: "passes d"
proof (induction d)
  case (DRef t r)
  show ?case
  proof (cases r)
    case None
    then show ?thesis unfolding passes_def using nil by (fastforce simp: replace_ref_def)
  next
    case (Some x)
    then show ?thesis unfolding passes_def using pass by (fastforce simp: replace_ref_def)
  qed
next
  case (DStruct t ds)
  show ?case unfolding passes_def using list_passes [of ds] DStruct by fastforce
next
  case (DSeq t ds)
  show ?case unfolding passes_def using list_passes [of ds] DSeq by fastforce
next
  case (DArray t ds)
  show ?case unfolding passes_def using list_passes [of ds] DArray by fastforce
next
  case (DUnion t x)
  then show ?case by (cases x) (fastforce simp: passes_def)+
next
  case (DAny t x)
  then show ?case by (fastforce simp: passes_def)
next
  case (DPlain t)
  show ?case by (auto simp: passes_def)
qed

text \<open>The same for a list of named values, those of one mode left out.\<close>

lemma items_pass:
  assumes "I (k + length (item_refs exclude nvs)) s" and "\<forall>r \<in> set (item_refs exclude nvs). P r"
  shows "\<exists>nvs' s'. map_items mapf exclude nvs s = Ok (nvs', s') \<and> I k s' \<and> list_all2 (item_rel exclude (Q s')) nvs nvs' \<and> Q s \<le> Q s'"
  using assms
proof (induction nvs arbitrary: s)
  case (Cons nv nvs)
  show ?case
  proof (cases "fst nv = exclude")
    case True
    then obtain nvs' s' where "map_items mapf exclude nvs s = Ok (nvs', s')" "I k s'" "list_all2 (item_rel exclude (Q s')) nvs nvs'" "Q s \<le> Q s'"
      using Cons by (fastforce simp: item_refs_def)
    moreover have "item_rel exclude (Q s') nv nv" using True by (simp add: item_rel_def)
    ultimately show ?thesis using True by auto
  next
    case False
    let ?n = "k + length (item_refs exclude nvs)"
    have "I (?n + length (refs_of (snd nv))) s" "\<forall>r \<in> set (refs_of (snd nv)). P r"
      using Cons.prems False by (simp_all add: item_refs_def ac_simps)
    then obtain b d' s1 where d: "map_refs mapf (snd nv) s = Ok (b, d', s1)" "I ?n s1" "rel_dyn (Q s1) (=) (snd nv) d'" "Q s \<le> Q s1"
      using map_refs_passes [of "snd nv"] unfolding passes_def by blast
    have "\<forall>r \<in> set (item_refs exclude nvs). P r" using Cons.prems(2) False by (simp add: item_refs_def)
    from Cons.IH [OF d(2) this] obtain nvs' s2 where l: "map_items mapf exclude nvs s1 = Ok (nvs', s2)" "I k s2"
      "list_all2 (item_rel exclude (Q s2)) nvs nvs'" "Q s1 \<le> Q s2" by blast
    have "item_rel exclude (Q s2) nv (fst nv, d')" using False rel_dyn_later [OF l(4) d(3)] by (simp add: item_rel_def)
    then show ?thesis using d(1) l False order_trans [OF d(4) l(4)] by auto
  qed
qed (simp add: item_refs_def)

lemma result_passes:
  assumes "I (k + length (result_refs nv)) s" and "\<forall>r \<in> set (result_refs nv). P r"
  shows "\<exists>nv' s'. map_result mapf nv s = Ok (nv', s') \<and> I k s' \<and> rel_option (rel_dyn (Q s') (=)) nv nv' \<and> Q s \<le> Q s'"
proof (cases nv)
  case None
  then show ?thesis using assms by (simp add: map_result_def result_refs_def)
next
  case (Some d)
  then have "I (k + length (refs_of d)) s" "\<forall>r \<in> set (refs_of d). P r" using assms by (simp_all add: result_refs_def)
  then obtain b d' s' where "map_refs mapf d s = Ok (b, d', s')" "I k s'" "rel_dyn (Q s') (=) d d'" "Q s \<le> Q s'"
    using map_refs_passes [of d] unfolding passes_def by blast
  then show ?thesis using Some by (auto simp: map_result_def)
qed

lemma value_passes:
  assumes "typed view d" and "no_ref_array view d" and "I (k + length (refs_of d)) s" and "\<forall>r \<in> set (refs_of d). P r"
  shows "\<exists>d' s'. proxify_any view mapf d s = Some (Ok (d', s')) \<and> I k s' \<and> rel_dyn (Q s') (=) d d' \<and> Q s \<le> Q s'"
  using map_refs_passes [of d] assms(3,4) unfolding passes_def proxify_any_ok [OF assms(1,2)] by fastforce

end

subsection \<open>The gate: a mapper with its table\<close>

text \<open>There is room for \<open>k\<close> more values: the indices that are waiting, and those up to the last page whose end has 32 bits.\<close>

definition rooms :: "nat \<Rightarrow> rmv_table \<Rightarrow> bool" where
  "rooms k t \<longleftrightarrow> unat (high_index t) + (k - length (free_stack t)) + unat (page_size t) \<le> 2 ^ 32"

lemma rooms_room: "table_ok pend t \<Longrightarrow> rooms (Suc k) t \<Longrightarrow> room t"
  by (cases "free_stack t") (auto simp: rooms_def room_def table_ok_def word_less_nat_alt word_le_nat_alt)

lemma grow_fields [simp]:
  "high_index (grow x t) = high_index t" "free_stack (grow x t) = free_stack t" "page_size (grow x t) = page_size t"
  by (simp_all add: grow_def)

lemma rooms_next:
  assumes "rooms (Suc k) t"
  shows "rooms k (snd (next_index t))"
proof -
  have "unat (high_index t + 1) \<le> unat (high_index t) + 1" by (simp add: unat_word_ariths)
  then show ?thesis using assms
    by (cases "free_stack t") (simp_all add: rooms_def next_index_def stack_head_def stack_pop_def)
qed

lemma write_slot_fields [simp]:
  "high_index (write_slot i v t) = high_index t" "free_stack (write_slot i v t) = free_stack t" "page_size (write_slot i v t) = page_size t"
  by (simp_all add: write_slot_def set_slot_def)

lemma rooms_bind: "bind i a (t, h) = Ok (b, t', h') \<Longrightarrow> rooms k t' = rooms k t"
  by (auto simp: bind_def rooms_def bindR_eq_Ok split: if_splits)

lemma rooms_add_native_unchecked:
  assumes "add_native_unchecked br a native ty f sec m h = Ok (p, m', h')" and "mapped_values m = Some t" and "mapped_values m' = Some t'"
    and "rooms (Suc k) t"
  shows "rooms k t'"
  using assms(1-3) rooms_next [OF assms(4)]
  by (auto simp: add_native_unchecked_def get_mapped_objectId_def bindR_eq_Ok rooms_bind split: prod.splits)

text \<open>Which types a mapper takes, and that selecting an evaluator does not take that back.\<close>

definition handles :: "(string \<Rightarrow> ifr_answer) \<Rightarrow> 'p mapper \<Rightarrow> string \<Rightarrow> bool" where
  "handles ifr m ty \<longleftrightarrow> fst (evaluator_for ifr m ty) \<noteq> None"

lemma find_evaluator_more: "find_evaluator ty is = Some k \<Longrightarrow> find_evaluator ty (is @ js) = Some k"
  by (induction "is" arbitrary: k) (auto split: if_splits)

lemma evaluators_same: "m\<lparr>evaluators := es\<rparr> = m \<longleftrightarrow> evaluators m = es"
  by (cases m) auto

lemma evaluator_for_other:
  assumes "evaluator_for ifr m ty = (x, m0)"
  shows "evaluator_for ifr m ty' = (Some k, m) \<Longrightarrow> evaluator_for ifr (m0\<lparr>mapped_values := y\<rparr>) ty' = (Some k, m0\<lparr>mapped_values := y\<rparr>)"
    and "handles ifr m ty' \<Longrightarrow> handles ifr (m0\<lparr>mapped_values := y\<rparr>) ty'"
  using assms
  by (auto simp: handles_def evaluator_for_def generic_evaluator_for_def null_evaluator_for_def evaluator_head_def add_evaluator_def
      find_evaluator_more evaluators_same split: mapper_kind.splits option.splits ifr_answer.splits if_splits)

text \<open>A reference that is not one of this process: its key does not end with an object id that the process made.\<close>

definition foreign :: "('o, 'p) broker \<Rightarrow> 'o \<Rightarrow> bool" where
  "foreign br r = (case key_of br r of None \<Rightarrow> True | Some key \<Rightarrow>
     length key < id_size \<or>
     (let buffer = drop (length key - id_size) key; temp = decode_id (big_endian br) buffer in
      take 4 buffer \<noteq> MAGIC \<or> pid temp \<noteq> br_pid br \<or> hostid temp \<noteq> br_hostid br))"

lemma foreign_not_mapped: "foreign br r \<Longrightarrow> fst (already_mapped br m r f) = NOT_MAPPED"
  by (auto simp: foreign_def already_mapped_def Let_def split: option.splits)

text \<open>The first mapper of the chain works for both sides, takes the types of \<open>R\<close>, and has room for \<open>k\<close> values.\<close>

definition gate :: "('o, 'p) broker \<Rightarrow> (string \<Rightarrow> ifr_answer) \<Rightarrow> (nat \<Rightarrow> nat) \<Rightarrow> 'p \<Rightarrow> 'p \<Rightarrow> 'o set \<Rightarrow> nat \<Rightarrow>
    'p mapper list \<times> 'o rmv_heap \<times> nat \<Rightarrow> bool" where
  "gate br ifr own ip op R k s \<longleftrightarrow> broker_ok br \<and> ip \<noteq> op \<and>
     (case s of (ms, h, n) \<Rightarrow> (\<forall>a \<ge> n. h a = None) \<and> (\<exists>m ms' t. ms = m # ms' \<and> in_facing_poa m = ip \<and> out_facing_poa m = op
        \<and> (\<forall>r \<in> R. handles ifr m (type_of br r)) \<and> mapped_values m = Some t \<and> store_ok {} own (t, h) \<and> rooms k t))"

text \<open>A mapped reference with the side \<open>f\<close> it was made for, and the reference it stands for.\<close>

definition stands_for :: "('o, 'p) broker \<Rightarrow> (string \<Rightarrow> ifr_answer) \<Rightarrow> bool \<Rightarrow> 'p mapper list \<times> 'o rmv_heap \<times> nat \<Rightarrow> 'o \<Rightarrow> 'o \<Rightarrow> bool" where
  "stands_for br ifr f s r r' \<longleftrightarrow> (case s of (ms, h, n) \<Rightarrow> \<exists>m ms' t i a v k. ms = m # ms' \<and> mapped_values m = Some t \<and> lookup t i = Some a
     \<and> contents h a = Some (v\<lparr>ref_count := 0\<rparr>) \<and> orig_ref v = Some (original_ref br r)
     \<and> evaluator_for ifr m (type_of br r) = (Some k, m) \<and> r' = make_ref br (facing_poa f m) (oid_for br f i) (type_of br r))"

lemma map_at_foreign:
  assumes "gate br ifr own ip op R (Suc k) s" and "r \<in> R" and "foreign br r"
  shows "\<exists>r' s'. map_at br ifr ip (if f then ip else op) (Some r) s = Ok (True, Some r', s') \<and> gate br ifr own ip op R k s'
    \<and> stands_for br ifr f s' r r' \<and> stands_for br ifr f s \<le> stands_for br ifr f s'"
proof -
  obtain m ms t h n where g: "s = (m # ms, h, n)" "in_facing_poa m = ip" "out_facing_poa m = op" "\<forall>r \<in> R. handles ifr m (type_of br r)"
    "mapped_values m = Some t" "store_ok {} own (t, h)" "rooms (Suc k) t" "\<forall>a \<ge> n. h a = None" "ip \<noteq> op" "broker_ok br"
    using assms(1) by (auto simp: gate_def)
  let ?ty = "type_of br r"
  obtain e m0 where ev: "evaluator_for ifr m ?ty = (Some e, m0)" using g(4) assms(2) by (cases "evaluator_for ifr m ?ty") (auto simp: handles_def)
  note again = evaluator_for_again [OF ev]
  have m0: "mapped_values m0 = Some t" using again(2) g(5) by simp
  have n: "h n = None" using g(8) by simp
  note fresh = fresh_address [OF g(6) n]
  obtain i t' h1 where u: "add_native_unchecked br n r ?ty f False m0 h = Ok (n, m0\<lparr>mapped_values := Some t'\<rparr>, h1)"
    "lookup t i = None" "lookup t' = (lookup t)(i \<mapsto> n)" "store_ok {} (own(n := 1)) (t', h1)"
    "contents h1 = (contents h)(n \<mapsto> (native_value br m0 r (oid_for br f i) ?ty f False)\<lparr>ref_count := 0\<rparr>)"
    using add_native_unchecked_ok [OF m0 g(6) rooms_room [OF store_okD(1) [OF g(6)] g(7)] n] by blast
  let ?m = "m0\<lparr>mapped_values := Some t'\<rparr>" and ?v = "native_value br m0 r (oid_for br f i) ?ty f False"
  have rooms: "rooms k t'" by (rule rooms_add_native_unchecked [OF u(1) m0 _ g(7)]) simp
  have "0 < own n + slot_owners t' n" using slot_owners_pos [of t' i n] u(3) by simp
  then obtain h2 where d: "var_dtor (Some n) h1 = Ok h2" "store_ok {} own (t', h2)" "contents h2 = contents h1"
    using drop_found [of "{}" own n t' h1] u(4) fresh(1) by auto
  have c: "contents h1 n = Some (?v\<lparr>ref_count := 0\<rparr>)" using u(5) by simp
  obtain w where w: "h1 n = Some w" "mapped_ref w = Some (make_ref br (facing_poa f m0) (oid_for br f i) ?ty)"
    using contents_Some [OF c] by (auto simp: native_value_refs)
  have "fst (already_mapped br m0 r f) = NOT_MAPPED" using foreign_not_mapped [OF assms(3)] .
  then have "add_native br ifr n r ?ty f False (m # ms) h = Ok (Some n, ?m # ms, h1)"
    using ev u(1) by (cases "already_mapped br m0 r f") simp
  moreover have side: "((if f then ip else op) = ip) = f" using g(9) by auto
  ultimately have run: "map_at br ifr ip (if f then ip else op) (Some r) s
      = Ok (True, Some (make_ref br (facing_poa f m0) (oid_for br f i) ?ty), (?m # ms, h2, n + 1))"
    using w d(1) g(1) by (simp add: map_at_def mapped_for_native_def map_reference_def rmv_at_def)
  have dom: "h2 a = None" if "n + 1 \<le> a" for a
  proof -
    have "contents h2 a = contents h a" using that d(3) u(5) by simp
    then show ?thesis using that g(8) by (simp add: contents_def)
  qed
  have "gate br ifr own ip op R k (?m # ms, h2, n + 1)"
    using g(2,3,4,9,10) again(3,4) d(2) rooms dom evaluator_for_other(2) [OF ev] by (auto simp: gate_def)
  moreover have "stands_for br ifr f (?m # ms, h2, n + 1) r (make_ref br (facing_poa f m0) (oid_for br f i) ?ty)"
    using u(3) d(3) c again(1) by (auto simp: stands_for_def facing_poa_def native_value_refs intro!: exI [of _ i] exI [of _ ?v])
  moreover have "stands_for br ifr f s \<le> stands_for br ifr f (?m # ms, h2, n + 1)"
  proof (intro le_funI le_boolI)
    fix q q' assume "stands_for br ifr f s q q'"
    then obtain j a v e' where q: "lookup t j = Some a" "contents h a = Some (v\<lparr>ref_count := 0\<rparr>)" "orig_ref v = Some (original_ref br q)"
      "evaluator_for ifr m (type_of br q) = (Some e', m)" "q' = make_ref br (facing_poa f m) (oid_for br f j) (type_of br q)"
      using g(1,5) by (auto simp: stands_for_def)
    have "lookup t' j = Some a" "a \<noteq> n" using q(1) u(2,3) fresh(2) by auto
    moreover have "contents h2 a = Some (v\<lparr>ref_count := 0\<rparr>)" using q(2) d(3) u(5) \<open>a \<noteq> n\<close> by simp
    moreover have "facing_poa f ?m = facing_poa f m" using again(3,4) by (simp add: facing_poa_def)
    ultimately show "stands_for br ifr f (?m # ms, h2, n + 1) q q'"
      using q(3,5) evaluator_for_other(1) [OF ev q(4), of "Some t'"]
      by (simp add: stands_for_def) (intro exI [of _ j] exI [of _ a] exI [of _ v] conjI exI [of _ e'], simp_all)
  qed
  ultimately show ?thesis using run by blast
qed

lemma map_at_nil:
  assumes "gate br ifr own ip op R k s"
  shows "\<exists>s'. map_at br ifr ip poa None s = Ok (True, None, s') \<and> gate br ifr own ip op R k s' \<and> stands_for br ifr f s \<le> stands_for br ifr f s'"
  using assms by (cases s) (auto simp: map_at_def mapped_for_native_def gate_def stands_for_def)

text \<open>The other way the reference that it stands for comes out, and neither the chain nor the table changes.\<close>

lemma map_at_mapped:
  assumes "gate br ifr own ip op R k (ms, h, n)" and "stands_for br ifr f (ms, h, n) r r'"
  shows "\<exists>h'. map_at br ifr ip (if f then op else ip) (Some r') (ms, h, n) = Ok (True, Some (original_ref br r), (ms, h', n + 1))
    \<and> gate br ifr own ip op R k (ms, h', n + 1) \<and> contents h' = contents h"
proof -
  obtain m ms' t where g: "ms = m # ms'" "in_facing_poa m = ip" "out_facing_poa m = op" "\<forall>r \<in> R. handles ifr m (type_of br r)"
    "mapped_values m = Some t" "store_ok {} own (t, h)" "rooms k t" "\<forall>a \<ge> n. h a = None" "ip \<noteq> op" "broker_ok br"
    using assms(1) by (auto simp: gate_def)
  let ?ty = "type_of br r"
  obtain i a v e where q: "lookup t i = Some a" "contents h a = Some (v\<lparr>ref_count := 0\<rparr>)" "orig_ref v = Some (original_ref br r)"
    "evaluator_for ifr m ?ty = (Some e, m)" "r' = make_ref br (facing_poa f m) (oid_for br f i) ?ty"
    using assms(2) g(1,5) by (auto simp: stands_for_def)
  have n: "h n = None" using g(8) by simp
  note fresh = fresh_address [OF g(6) n]
  obtain h1 w where u: "add_native br ifr n r' ?ty (\<not> f) False (m # ms') h = Ok (Some n, m # ms', h1)" "h1 n = Some w"
    "mapped_ref w = Some (original_ref br r)" "store_ok {} (own(n := 1)) (t, h1)" "contents h1 = (contents h)(n \<mapsto> w\<lparr>ref_count := 0\<rparr>)"
    using add_native_reverse [OF g(10,5,6) q(1,4) n q(2), of "facing_poa f m" f False ms'] q(3,5) by auto
  obtain h2 where d: "var_dtor (Some n) h1 = Ok h2" "store_ok {} own (t, h2)" "contents h2 = (contents h1)(n := None)"
    using drop_last [of "{}" own n t h1] u(4) fresh(1,2) by auto
  have c: "contents h2 = contents h" using d(3) u(5) fresh(3) by (simp add: fun_upd_idem)
  have "type_of br r' = ?ty" using g(10) q(5) by (simp add: broker_ok_def)
  moreover have "((if f then op else ip) = ip) = (\<not> f)" using g(9) by auto
  ultimately have run: "map_at br ifr ip (if f then op else ip) (Some r') (ms, h, n) = Ok (True, Some (original_ref br r), (ms, h2, n + 1))"
    using u(1-3) d(1) g(1) by (simp add: map_at_def mapped_for_native_def map_reference_def rmv_at_def)
  have "h2 b = None" if "n + 1 \<le> b" for b
    using fun_cong [OF c, of b] that g(8) by (simp add: contents_def)
  then show ?thesis using run g d(2) c by (auto simp: gate_def)
qed

lemma stands_for_contents: "contents h' = contents h \<Longrightarrow> stands_for br ifr f (ms, h', n') = stands_for br ifr f (ms, h, n)"
  by (simp add: stands_for_def fun_eq_iff)

text \<open>It stands for one reference only.\<close>

lemma oid_for_inj: "oid_for br f i = oid_for br f j \<Longrightarrow> i = j"
  by (metis oid_for_facts(4) sum.inject(2))

lemma stands_for_unique:
  assumes "broker_ok br" and "stands_for br ifr f s r r'" and "stands_for br ifr f s q r'"
  shows "original_ref br r = original_ref br q"
proof -
  obtain m ms h n where s: "s = (m # ms, h, n)" using assms(2) by (cases s) (auto simp: stands_for_def)
  obtain t i a v where r: "mapped_values m = Some t" "lookup t i = Some a" "contents h a = Some (v\<lparr>ref_count := 0\<rparr>)"
    "orig_ref v = Some (original_ref br r)" "r' = make_ref br (facing_poa f m) (oid_for br f i) (type_of br r)"
    using assms(2) s by (auto simp: stands_for_def)
  obtain j b w where q: "lookup t j = Some b" "contents h b = Some (w\<lparr>ref_count := 0\<rparr>)" "orig_ref w = Some (original_ref br q)"
    "r' = make_ref br (facing_poa f m) (oid_for br f j) (type_of br q)"
    using assms(3) s r(1) by (auto simp: stands_for_def)
  have ids: "ref_id br p (make_ref br p bs ty) = Some bs" for p bs ty using assms(1) by (simp add: broker_ok_def)
  have "ref_id br (facing_poa f m) r' = Some (oid_for br f i)" unfolding r(5) by (rule ids)
  moreover have "ref_id br (facing_poa f m) r' = Some (oid_for br f j)" unfolding q(4) by (rule ids)
  ultimately have "oid_for br f i = oid_for br f j" by (simp only: option.inject)
  then have "i = j" by (rule oid_for_inj)
  with r(2,3) q(1,2) have "v\<lparr>ref_count := 0\<rparr> = w\<lparr>ref_count := 0\<rparr>" by simp
  then have "orig_ref v = orig_ref w" by (auto dest: arg_cong [where f = orig_ref])
  with r(4) q(3) show ?thesis by simp
qed

text \<open>A reference that the POA \<open>p\<close> made in place of another one, and that a request to it leads back to.\<close>

definition hides :: "('o, 'p) broker \<Rightarrow> bool \<Rightarrow> 'p \<Rightarrow> 'p mapper \<Rightarrow> 'o rmv_heap \<Rightarrow> 'o \<Rightarrow> 'o \<Rightarrow> bool" where
  "hides br f p m h r r' \<longleftrightarrow> (\<exists>i. r' = make_ref br p (oid_for br f i) (type_of br r))
     \<and> (\<exists>h'. native_for_mapped br r' p m h = Ok (True, Some (original_ref br r), h'))"

lemma stands_for_hides:
  assumes "gate br ifr own ip op R k s" and "stands_for br ifr f s r r'"
  shows "hides br f (if f then op else ip) (hd (fst s)) (fst (snd s)) r r'"
proof -
  obtain m ms t h n where g: "s = (m # ms, h, n)" "facing_poa f m = (if f then op else ip)" "mapped_values m = Some t" "store_ok {} own (t, h)" "broker_ok br"
    using assms(1) by (auto simp: gate_def facing_poa_def)
  obtain i a v where q: "lookup t i = Some a" "contents h a = Some (v\<lparr>ref_count := 0\<rparr>)" "orig_ref v = Some (original_ref br r)"
    "r' = make_ref br (facing_poa f m) (oid_for br f i) (type_of br r)"
    using assms(2) g(1,3) by (auto simp: stands_for_def)
  have "ref_id br (facing_poa f m) r' = Some (oid_for br f i)" using g(5) q(4) by (simp add: broker_ok_def)
  moreover obtain h' where "native_for_mapped_i br (oid_for br f i) m h = Ok (orig_ref v, agent v, h')"
    using native_for_mapped_bound [OF g(3,4) q(1,2)] by blast
  ultimately have "native_for_mapped br r' (if f then op else ip) m h = Ok (True, Some (original_ref br r), h')"
    using g(2,3) q(3) by (simp add: native_for_mapped_def)
  then show ?thesis using g(1,2) q(4) by (auto simp: hides_def)
qed

interpretation leaving: passage "map_at br ifr ip (if f then ip else op)" "gate br ifr own ip op R" "\<lambda>r. r \<in> R \<and> foreign br r" "stands_for br ifr f"
  for br ifr ip op f own R
  by unfold_locales (simp_all only: map_at_foreign map_at_nil simp_thms)

text \<open>On the way back the chain and what the table's values say stay as they were in \<open>s0\<close>.\<close>

definition gate_at :: "('o, 'p) broker \<Rightarrow> (string \<Rightarrow> ifr_answer) \<Rightarrow> (nat \<Rightarrow> nat) \<Rightarrow> 'p \<Rightarrow> 'p \<Rightarrow> 'o set \<Rightarrow> nat \<Rightarrow>
    'p mapper list \<times> 'o rmv_heap \<times> nat \<Rightarrow> 'p mapper list \<times> 'o rmv_heap \<times> nat \<Rightarrow> bool" where
  "gate_at br ifr own ip op R j s0 s \<longleftrightarrow> gate br ifr own ip op R j s \<and> fst s = fst s0 \<and> contents (fst (snd s)) = contents (fst (snd s0))"

lemma gate_at_stands_for: "gate_at br ifr own ip op R j s0 s \<Longrightarrow> stands_for br ifr f s = stands_for br ifr f s0"
  by (cases s; cases s0) (auto simp: gate_at_def intro: stands_for_contents)

interpretation returning: passage "map_at br ifr ip (if f then op else ip)" "\<lambda>k. gate_at br ifr own ip op R j s0" "\<lambda>r'. \<exists>r. stands_for br ifr f s0 r r'"
    "\<lambda>s r' r''. \<exists>r. stands_for br ifr f s0 r r' \<and> r'' = original_ref br r"
  for br ifr ip op f own R j s0
proof unfold_locales
  fix k :: nat and s r' assume s: "gate_at br ifr own ip op R j s0 s" and "\<exists>r. stands_for br ifr f s0 r r'"
  then obtain r where r: "stands_for br ifr f s0 r r'" by blast
  obtain ms h n where e: "s = (ms, h, n)" by (cases s)
  have "stands_for br ifr f (ms, h, n) r r'" "gate br ifr own ip op R j (ms, h, n)"
    using r gate_at_stands_for [OF s] s e by (auto simp: gate_at_def)
  from map_at_mapped [OF this(2,1)] obtain h' where m: "map_at br ifr ip (if f then op else ip) (Some r') (ms, h, n) = Ok (True, Some (original_ref br r), (ms, h', n + 1))"
    "gate br ifr own ip op R j (ms, h', n + 1)" "contents h' = contents h" by blast
  have "gate_at br ifr own ip op R j s0 (ms, h', n + 1)" using m(2,3) s e by (simp add: gate_at_def)
  with m(1) r e show "\<exists>x s'. map_at br ifr ip (if f then op else ip) (Some r') s = Ok (True, Some x, s') \<and> gate_at br ifr own ip op R j s0 s'
      \<and> (\<exists>r. stands_for br ifr f s0 r r' \<and> x = original_ref br r) \<and> (\<lambda>r' r''. \<exists>r. stands_for br ifr f s0 r r' \<and> r'' = original_ref br r)
        \<le> (\<lambda>r' r''. \<exists>r. stands_for br ifr f s0 r r' \<and> r'' = original_ref br r)" by blast
next
  fix k :: nat and s assume s: "gate_at br ifr own ip op R j s0 s"
  then show "\<exists>s'. map_at br ifr ip (if f then op else ip) None s = Ok (True, None, s') \<and> gate_at br ifr own ip op R j s0 s'
      \<and> (\<lambda>r' r''. \<exists>r. stands_for br ifr f s0 r r' \<and> r'' = original_ref br r) \<le> (\<lambda>r' r''. \<exists>r. stands_for br ifr f s0 r r' \<and> r'' = original_ref br r)"
    by (cases s) (auto simp: map_at_def mapped_for_native_def gate_at_def gate_def)
qed

lemma rel_dyn_refs: "rel_dyn R (=) d d' \<Longrightarrow> \<forall>r' \<in> set (refs_of d'). \<exists>r \<in> set (refs_of d). R r r'"
  using dyn.set_transfer(1) [of R "(=)"] by (fastforce simp: rel_fun_def rel_set_def refs_of_set)

lemma rel_dyn_fun:
  assumes "rel_dyn (\<lambda>r r'. r' = g r) (=) d d'"
  shows "d' = map_dyn g id d"
proof -
  have "rel_dyn (=) (=) (map_dyn g id d) d'" unfolding dyn.rel_map
    using assms by (rule dyn.rel_mono_strong) simp_all
  then show ?thesis by (simp add: dyn.rel_eq)
qed

text \<open>
  C2: A mapper that keeps a table (\<open>CacheProxyReferences\<close> set, which it is not by default, and room for the references) hides and restores. When a value whose
  references are not the proxy's own passes from one side to the other, every reference in it is replaced by one of the same type that the POA of the other side
  made, whose object id holds an index of the table and nothing of the original, and nothing else changes. A request to the new reference finds the original, and
  the value that comes back is the one that was sent (with the policies of a secure connection set on the references). The mapper's invariant holds afterwards
  and the way back uses up no room in the table. Without a table the object id is the original's text and a reference that comes back is wrapped
  again: \<open>without_table\<close> of theory DefaultMode.
\<close>

theorem value_passes_and_returns:
  assumes "gate br ifr own ip op (set (refs_of d)) (k + length (refs_of d)) s"
    and "typed view d" and "no_ref_array view d" and "\<forall>r \<in> set (refs_of d). foreign br r"
  shows "\<exists>d' s' s''. proxify_any view (map_at br ifr ip (if f then ip else op)) d s = Some (Ok (d', s'))
    \<and> rel_dyn (hides br f (if f then op else ip) (hd (fst s')) (fst (snd s'))) (=) d d'
    \<and> proxify_any view (map_at br ifr ip (if f then op else ip)) d' s' = Some (Ok (map_dyn (original_ref br) id d, s''))
    \<and> gate br ifr own ip op (set (refs_of d)) k s' \<and> gate br ifr own ip op (set (refs_of d)) k s'' \<and> fst s'' = fst s'"
proof -
  let ?R = "set (refs_of d)" and ?there = "map_at br ifr ip (if f then ip else op)" and ?return = "map_at br ifr ip (if f then op else ip)"
  have br: "broker_ok br" using assms(1) by (simp add: gate_def)
  have "\<forall>r \<in> ?R. r \<in> ?R \<and> foreign br r" using assms(4) by blast
  from leaving.value_passes [OF assms(2,3,1) this]
  obtain d' s' where go: "proxify_any view ?there d s = Some (Ok (d', s'))" "gate br ifr own ip op ?R k s'" "rel_dyn (stands_for br ifr f s') (=) d d'"
    by blast
  have "same_type view d d'" by (rule rel_same_type [OF go(3)])
  then have ty: "typed view d'" "no_ref_array view d'" using assms(2,3) by (simp_all add: same_type_def)
  have r: "\<forall>r' \<in> set (refs_of d'). \<exists>r. stands_for br ifr f s' r r'" using rel_dyn_refs [OF go(3)] by blast
  have g: "gate_at br ifr own ip op ?R k s' s'" using go(2) by (simp add: gate_at_def)
  from returning.value_passes [OF ty g r] obtain d'' s'' where ret: "proxify_any view ?return d' s' = Some (Ok (d'', s''))" "gate_at br ifr own ip op ?R k s' s''"
    "rel_dyn (\<lambda>r' r''. \<exists>r. stands_for br ifr f s' r r' \<and> r'' = original_ref br r) (=) d' d''"
    by blast
  have "rel_dyn (stands_for br ifr f s' OO (\<lambda>r' r''. \<exists>r. stands_for br ifr f s' r r' \<and> r'' = original_ref br r)) ((=) OO (=)) d d''"
    unfolding dyn.rel_compp by (rule relcomppI) (rule go(3), rule ret(3))
  then have "rel_dyn (\<lambda>r r''. r'' = original_ref br r) (=) d d''"
    by (rule dyn.rel_mono_strong) (auto intro: stands_for_unique [OF br])
  then have "d'' = map_dyn (original_ref br) id d" by (rule rel_dyn_fun)
  moreover have "rel_dyn (hides br f (if f then op else ip) (hd (fst s')) (fst (snd s'))) (=) d d'"
    using go(3) by (rule dyn.rel_mono_strong) (simp_all add: stands_for_hides [OF go(2)])
  ultimately show ?thesis using go(1,2) ret(1,2) unfolding gate_at_def by blast
qed

text \<open>A structure with a sequence of two references, one of them nil.\<close>

definition sample_pair :: "(string, nat) dyn" where
  "sample_pair = DStruct 1 [DPlain 2, DSeq 3 [DRef 0 (Some ''..|IDnative''), DRef 0 None]]"

lemma sample_gate: "gate sample_broker (\<lambda>_. NilInterface) (\<lambda>_. 0) 1 2 R 3 ([sample_mapper], (\<lambda>_. None), 5)"
  using sample_broker_ok sample_mapper_ok(1,3) sample_mapper_ok(4) [of "\<lambda>_. NilInterface"]
  by (simp add: gate_def handles_def rooms_def) (simp add: sample_mapper_def new_table_def)

theorem value_passes_and_returns_witness:
  "\<exists>r s' s''. proxify_any sample_view (map_at sample_broker (\<lambda>_. NilInterface) 1 1) sample_pair ([sample_mapper], (\<lambda>_. None), 5)
      = Some (Ok (DStruct 1 [DPlain 2, DSeq 3 [DRef 0 (Some r), DRef 0 None]], s'))
    \<and> (\<exists>i. r = make_ref sample_broker 2 (oid_for sample_broker True i) ''ID'')
    \<and> proxify_any sample_view (map_at sample_broker (\<lambda>_. NilInterface) 1 2) (DStruct 1 [DPlain 2, DSeq 3 [DRef 0 (Some r), DRef 0 None]]) s'
      = Some (Ok (sample_pair, s''))"
proof -
  have r: "foreign sample_broker ''..|IDnative''" "type_of sample_broker ''..|IDnative'' = ''ID''"
    by (simp_all add: foreign_def sample_broker_def ref_body_def dots_def id_size_def)
  have o: "original_ref sample_broker = id" by (simp add: original_ref_def supports_secure_def sample_broker_def fun_eq_iff)
  have refs: "refs_of sample_pair = [''..|IDnative'']" by (simp add: sample_pair_def)
  have ty: "typed sample_view sample_pair" "no_ref_array sample_view sample_pair"
    by (simp_all add: sample_pair_def sample_base sample_finite sample_finite(2) [simplified] sample_view_def)
  have g: "gate sample_broker (\<lambda>_. NilInterface) (\<lambda>_. 0) 1 2 (set (refs_of sample_pair)) (2 + length (refs_of sample_pair)) ([sample_mapper], (\<lambda>_. None), 5)"
    unfolding refs using sample_gate by simp
  have fr: "\<forall>r \<in> set (refs_of sample_pair). foreign sample_broker r" using refs r(1) by simp
  from value_passes_and_returns [OF g ty fr, where f = True, unfolded if_True] obtain d' s' s'' where
    v: "proxify_any sample_view (map_at sample_broker (\<lambda>_. NilInterface) 1 1) sample_pair ([sample_mapper], (\<lambda>_. None), 5) = Some (Ok (d', s'))"
    "rel_dyn (hides sample_broker True 2 (hd (fst s')) (fst (snd s'))) (=) sample_pair d'"
    "proxify_any sample_view (map_at sample_broker (\<lambda>_. NilInterface) 1 2) d' s' = Some (Ok (map_dyn (original_ref sample_broker) id sample_pair, s''))"
    by blast
  obtain q i where "d' = DStruct 1 [DPlain 2, DSeq 3 [DRef 0 (Some q), DRef 0 None]]" "q = make_ref sample_broker 2 (oid_for sample_broker True i) ''ID''"
    using v(2) r(2) by (cases d') (auto simp: sample_pair_def hides_def list_all2_Cons1 option_rel_Some1 elim!: dyn.rel_cases)
  with v(1,3) show ?thesis unfolding o dyn.map_id by blast
qed

subsection \<open>A request with its reply\<close>

text \<open>The operation is in the table, and the values that the request carries are those that its argument list describes.\<close>

definition known_operation :: "('t \<Rightarrow> 't tc_view) \<Rightarrow> (string \<Rightarrow> string \<Rightarrow> int) \<Rightarrow> 't evaluator \<Rightarrow> string \<Rightarrow>
    (('t option \<times> arg_mode) list \<Rightarrow> ('o, 't) named_values result) \<Rightarrow> 't optab \<Rightarrow> (nat \<Rightarrow> nat) \<Rightarrow> nat \<Rightarrow> 't arg_list \<Rightarrow> ('o, 't) named_values \<Rightarrow> bool" where
  "known_operation view strcmp ev operation arguments tab held a al nvs \<longleftrightarrow> optab_ok held tab
     \<and> op_args (ev_type_id ev) (entries strcmp tab operation) = Some a \<and> lists tab a = Some al
     \<and> arguments (map (\<lambda>x. (tc x, arg_mode x)) (al_args al)) = Ok nvs \<and> must_proxy_in al \<noteq> 0 \<and> must_proxy_out al \<noteq> 0
     \<and> aligned view ARG_OUT (al_args al) nvs \<and> \<not> al_oneway al \<and> tc (al_result al) \<noteq> None"

lemma matches_settled [simp]: "matches view (settled view a) d \<longleftrightarrow> tc a = Some (dyn_tc d) \<and> typed view d \<and> no_ref_array view d"
  by (auto simp: matches_def settled_def)

lemma aligned_settle:
  assumes "aligned view ARG_IN as nvs"
  shows "aligned view ARG_IN (settle_args view ARG_OUT as) nvs"
proof -
  have "filter (\<lambda>a. arg_mode a \<noteq> ARG_IN) (settle_args view ARG_OUT as)
      = map (\<lambda>a. if arg_mode a = ARG_OUT then a else settled view a) (filter (\<lambda>a. arg_mode a \<noteq> ARG_IN) as)"
    by (induction as) (auto simp: settle_args_def settled_def)
  then show ?thesis using assms by (auto simp: aligned_def list_all2_map1 matches_def settled_def elim!: list_all2_mono)
qed

text \<open>A request to a mapped reference of the generic mapper is evaluated for the reference that it stands for, at a gate that is as it was.\<close>

lemma invoke_generic:
  assumes "ps_chain st = m # ms" and "mkind m = GenericMapper" and "evaluator_for ifr m (type_of br orig) = (Some e, m)"
    and "gate br ifr own ip op R k (ps_store st)" and "stands_for br ifr f (ps_store st) orig target"
    and "ref_id br (if f then op else ip) target = Some oid" and "type_of br (original_ref br orig) = type_of br orig"
  shows "\<exists>agnt h. gate br ifr own ip op R k (ps_chain st, h, ps_next st)
    \<and> (\<forall>request arguments poa. invoke_i view br ifr idef strcmp 0 poa oid request arguments st
      = forward_request (original_ref br orig) agnt m poa request (GenericEval (idef (evaluators m ! e)))
          (evaluate_request view (map_at br ifr ip poa) strcmp (idef (evaluators m ! e)) (sr_operation request) arguments
            (ps_optab st) (ps_chain st, h, ps_next st)))"
proof -
  obtain t where g: "in_facing_poa m = ip" "out_facing_poa m = op" "mapped_values m = Some t" "store_ok {} own (t, ps_heap st)" "broker_ok br"
    using assms(1,4) by (auto simp: gate_def ps_store_def)
  obtain i b v where q: "lookup t i = Some b" "contents (ps_heap st) b = Some (v\<lparr>ref_count := 0\<rparr>)" "orig_ref v = Some (original_ref br orig)"
    "target = make_ref br (facing_poa f m) (oid_for br f i) (type_of br orig)"
    using assms(1,5) g(3) by (auto simp: stands_for_def ps_store_def)
  have "facing_poa f m = (if f then op else ip)" using g(1,2) by (simp add: facing_poa_def)
  then have "ref_id br (if f then op else ip) target = Some (oid_for br f i)" using g(5) q(4) by (simp add: broker_ok_def)
  with assms(6) have oid: "oid = oid_for br f i" by simp
  have at: "ps_chain st ! 0 = m" "evaluator_for ifr m (type_of br (original_ref br orig)) = (Some e, m)" using assms(1,3,7) by simp_all
  have ev: "eval_at idef m e = GenericEval (idef (evaluators m ! e))" using assms(2) by (simp add: eval_at_def)
  obtain h where h: "store_ok {} own (t, h)" "contents h = contents (ps_heap st)"
    "\<forall>request arguments poa. invoke_i view br ifr idef strcmp 0 poa oid request arguments st
      = forward_request (original_ref br orig) (agent v) m poa request (GenericEval (idef (evaluators m ! e)))
          (evaluate_request view (map_at br ifr ip poa) strcmp (idef (evaluators m ! e)) (sr_operation request) arguments
            (ps_optab st) (ps_chain st, h, ps_next st))"
    using invoke_i_bound [OF at(1) g(3,4) q(1-3) at(2), of view idef strcmp f] unfolding ev oid g(1) eval_request_def by auto
  have "h x = None" if "ps_next st \<le> x" for x
    using fun_cong [OF h(2), of x] that assms(4) by (simp add: gate_def ps_store_def contents_def)
  then have "gate br ifr own ip op R k (ps_chain st, h, ps_next st)"
    using assms(1,4) g(3) h(1) by (auto simp: gate_def ps_store_def)
  with h(3) show ?thesis by blast
qed

text \<open>The request goes out with the arguments that came in, hidden.\<close>

lemma generic_request_hides:
  assumes "known_operation view strcmp (idef (evaluators m ! e)) (sr_operation request) arguments (ps_optab st) held a al nvs"
    and "ps_chain st = m # ms" and "mkind m = GenericMapper" and "evaluator_for ifr m (type_of br orig) = (Some e, m)"
    and "gate br ifr own ip op (set (item_refs ARG_OUT nvs)) (k + length (item_refs ARG_OUT nvs)) (ps_store st)"
    and "\<forall>r \<in> set (item_refs ARG_OUT nvs). foreign br r"
    and "stands_for br ifr f (ps_store st) orig target" and "ref_id br (if f then op else ip) target = Some oid"
    and "type_of br (original_ref br orig) = type_of br orig"
    and "response_expected request" and "\<not> sync_with_server request" and "\<not> forwarded request" and "\<not> interface_query strcmp request"
  shows "\<exists>args rh st'. dispatch view br ifr idef strcmp 0 (if f then op else ip) oid request arguments st
      = Some ([Sendc (original_ref br orig) (sr_operation request) args rh], Ok (Some st'))
    \<and> gate br ifr own ip op (set (item_refs ARG_OUT nvs)) k (ps_store st') \<and> list_all2 (item_rel ARG_OUT (stands_for br ifr (\<not> f) (ps_store st'))) nvs args
    \<and> rh_operation rh = sr_operation request \<and> rh_in_poa rh = ip \<and> rh_other_poa rh = (if \<not> f then op else ip)
    \<and> rh_evaluator rh = GenericEval (idef (evaluators m ! e))
    \<and> optab_ok (held(a := held a + 1)) (ps_optab st') \<and> entries strcmp (ps_optab st') = entries strcmp (ps_optab st)
    \<and> lists (ps_optab st') a = Some (al\<lparr>al_args := settle_args view ARG_OUT (al_args al), al_refcount := al_refcount al + 1\<rparr>)"
proof -
  let ?ev = "idef (evaluators m ! e)" and ?R = "set (item_refs ARG_OUT nvs)" and ?poa = "if f then op else ip"
  obtain agnt h where h: "gate br ifr own ip op ?R (k + length (item_refs ARG_OUT nvs)) (ps_chain st, h, ps_next st)"
    "\<forall>request arguments poa. invoke_i view br ifr idef strcmp 0 poa oid request arguments st
      = forward_request (original_ref br orig) agnt m poa request (GenericEval ?ev)
          (evaluate_request view (map_at br ifr ip poa) strcmp ?ev (sr_operation request) arguments (ps_optab st) (ps_chain st, h, ps_next st))"
    using invoke_generic [OF assms(2-5,7-9)] by blast
  have g: "in_facing_poa m = ip" "out_facing_poa m = op" "ip \<noteq> op" using assms(2,5) by (auto simp: gate_def ps_store_def)
  have "\<forall>r \<in> ?R. r \<in> ?R \<and> foreign br r" using assms(6) by blast
  from leaving.items_pass [OF h(1) this, where f = "\<not> f"] obtain args s' where
    p: "map_items (map_at br ifr ip ?poa) ARG_OUT nvs (ps_chain st, h, ps_next st) = Ok (args, s')"
    "gate br ifr own ip op ?R k s'" "list_all2 (item_rel ARG_OUT (stands_for br ifr (\<not> f) s')) nvs args"
    by (auto split: if_splits)
  obtain rt where rt: "tc (al_result al) = Some rt" using assms(1) by (auto simp: known_operation_def)
  obtain tab where t: "evaluate_request view (map_at br ifr ip ?poa) strcmp ?ev (sr_operation request) arguments (ps_optab st) (ps_chain st, h, ps_next st)
      = Some (Ok (args, filter (\<lambda>nv. fst nv = ARG_INOUT \<or> fst nv = ARG_OUT) args, if view rt = Tk_null \<or> view rt = Tk_void then None else Some rt, tab, s'))"
    "optab_ok (held(a := held a + 1)) tab" "entries strcmp tab = entries strcmp (ps_optab st)"
    "lists tab a = Some (al\<lparr>al_args := settle_args view ARG_OUT (al_args al), al_refcount := al_refcount al + 1\<rparr>)"
    using evaluate_request_ok [where mapf = "map_at br ifr ip ?poa" and arguments = arguments and nvs = nvs and s = "(ps_chain st, h, ps_next st)"
        and tab = "ps_optab st" and ev = ?ev and operation = "sr_operation request" and al = al and view = view and rt = rt and own = held] assms(1) rt p(1)
    by (auto simp: known_operation_def split: if_splits)
  have st': "ps_store (ps_put s' tab) = s'" "ps_optab (ps_put s' tab) = tab" by (cases s'; simp add: ps_store_def ps_put_def)+
  have "other_POA m ?poa = (if f then ip else op)" using g by (simp add: other_POA_def)
  then show ?thesis using t p(2,3) h(2) assms(10-13) st' g(1)
    by (simp add: dispatch_def invoke_def interface_query_def catch_dispatch_def forward_request_def)
qed

text \<open>The reply: references that the server got from the request come back as the client's own.\<close>

lemma generic_reply_restores:
  assumes "gate br ifr own ip op R k (ps_store st)" and "optab_ok held (ps_optab st)"
    and "op_args (ev_type_id ev) (entries strcmp (ps_optab st) (rh_operation rh)) = Some a" and "lists (ps_optab st) a = Some al"
    and "must_proxy_out al \<noteq> 0" and "aligned view ARG_IN (al_args al) nvs" and "result_matches view (al_result al) nv"
    and "rh_evaluator rh = GenericEval ev" and "rh_in_poa rh = ip" and "rh_other_poa rh = (if f then op else ip)"
    and "decode (rh_out_args rh) (rh_result rh) = Ok (nvs, nv)"
    and "\<forall>r' \<in> set (item_refs ARG_IN nvs) \<union> set (result_refs nv). \<exists>r. stands_for br ifr f (ps_store st) r r'"
  shows "\<exists>nvs' nv' st'. handle_response_i view br ifr strcmp rh decode st = Some ([InvokeReply (Some (nvs', nv'))], Ok (Some st'))
    \<and> list_all2 (item_rel ARG_IN (\<lambda>r' r''. \<exists>r. stands_for br ifr f (ps_store st) r r' \<and> r'' = original_ref br r)) nvs nvs'
    \<and> rel_option (rel_dyn (\<lambda>r' r''. \<exists>r. stands_for br ifr f (ps_store st) r r' \<and> r'' = original_ref br r) (=)) nv nv'
    \<and> gate br ifr own ip op R k (ps_store st')"
proof -
  let ?s = "ps_store st" and ?map = "map_at br ifr ip (if f then op else ip)"
  have g: "gate_at br ifr own ip op R k ?s ?s" using assms(1) by (simp add: gate_at_def)
  have "\<forall>r' \<in> set (result_refs nv). \<exists>r. stands_for br ifr f ?s r r'" using assms(12) by blast
  from returning.result_passes [OF g this] obtain nv' s1 where r: "map_result ?map nv ?s = Ok (nv', s1)" "gate_at br ifr own ip op R k ?s s1"
    "rel_option (rel_dyn (\<lambda>r' r''. \<exists>r. stands_for br ifr f ?s r r' \<and> r'' = original_ref br r) (=)) nv nv'" by blast
  have "\<forall>r' \<in> set (item_refs ARG_IN nvs). \<exists>r. stands_for br ifr f ?s r r'" using assms(12) by blast
  from returning.items_pass [OF r(2) this] obtain nvs' s2 where i: "map_items ?map ARG_IN nvs s1 = Ok (nvs', s2)" "gate_at br ifr own ip op R k ?s s2"
    "list_all2 (item_rel ARG_IN (\<lambda>r' r''. \<exists>r. stands_for br ifr f ?s r r' \<and> r'' = original_ref br r)) nvs nvs'" by blast
  obtain tab where t: "evaluate_reply view ?map strcmp ev (rh_operation rh) nvs nv (ps_optab st) ?s = Some (Ok (nvs', nv', tab, s2))"
    using evaluate_reply_ok [OF assms(2-7), of ?map ?s] r(1) i(1) by auto
  have "ps_store (ps_put s2 tab) = s2" by (cases s2) (simp add: ps_store_def ps_put_def)
  then show ?thesis using t i(2,3) r(3) assms(8-11) by (simp add: handle_response_i_def eval_reply_def gate_at_def)
qed

lemma item_rel_refs: "list_all2 (item_rel exclude R) nvs nvs' \<Longrightarrow> \<forall>r' \<in> set (item_refs exclude nvs'). \<exists>r \<in> set (item_refs exclude nvs). R r r'"
proof (induction rule: list_all2_induct)
  case (Cons nv nvs nv' nvs')
  then show ?case using rel_dyn_refs [of R "snd nv" "snd nv'"] by (auto simp: item_refs_def item_rel_def split: if_splits)
qed (simp add: item_refs_def)

lemma item_rel_mono:
  assumes "list_all2 (item_rel exclude R) nvs nvs'" and "\<And>r r'. r \<in> set (item_refs exclude nvs) \<Longrightarrow> R r r' \<Longrightarrow> S r r'"
  shows "list_all2 (item_rel exclude S) nvs nvs'"
  using assms(1)
proof (rule list.rel_mono_strong)
  fix nv nv' assume nv: "nv \<in> set nvs" "item_rel exclude R nv nv'"
  show "item_rel exclude S nv nv'"
  proof (cases "fst nv = exclude")
    case False
    have mem: "set (refs_of (snd nv)) \<subseteq> set (item_refs exclude nvs)" using nv(1) False by (force simp: item_refs_def)
    from False nv have "rel_dyn R (=) (snd nv) (snd nv')" by (simp add: item_rel_def)
    then have "rel_dyn S (=) (snd nv) (snd nv')"
      by (rule dyn.rel_mono_strong) (use assms(2) mem in \<open>auto simp: refs_of_set\<close>)
    with nv(2) False show ?thesis by (simp add: item_rel_def)
  qed (use nv(2) in \<open>simp add: item_rel_def\<close>)
qed

lemma result_rel_mono:
  assumes "rel_option (rel_dyn R (=)) nv nv'" and "\<And>r r'. r \<in> set (result_refs nv) \<Longrightarrow> R r r' \<Longrightarrow> S r r'"
  shows "rel_option (rel_dyn S (=)) nv nv'"
  using assms(1) by (rule option.rel_mono_strong, elim dyn.rel_mono_strong) (use assms(2) in \<open>auto simp: result_refs_def refs_of_set\<close>)


text \<open>A server at index 0 of a generic mapper is called with a sequence of one reference, and returns that reference.\<close>

definition generic_sample :: "nat mapper" where
  "generic_sample = sample_mapper\<lparr>mkind := GenericMapper, evaluators := [''ID''], mapped_values := Some bound_table\<rparr>"

definition generic_state :: "(string, nat, nat) proxy_state" where
  "generic_state = \<lparr>ps_chain = [generic_sample], ps_heap = bound_heap, ps_next = 6, ps_optab = sample_optab\<rparr>"

definition client_args :: "(string, nat) named_values" where
  "client_args = [(ARG_IN, DSeq 3 [DRef 0 (Some ''..|IDclient'')]), (ARG_OUT, DPlain 2)]"

lemma generic_sample_facts:
  "evaluator_for (\<lambda>_. NilInterface) generic_sample ''ID'' = (Some 0, generic_sample)"
  "gate sample_broker (\<lambda>_. NilInterface) ((\<lambda>_. 0)(5 := 1)) 1 2 {''..|IDclient''} 1 (ps_store generic_state)"
  "stands_for sample_broker (\<lambda>_. NilInterface) True (ps_store generic_state) ''..|IDnative'' (make_ref sample_broker 2 (oid_for sample_broker True 0) ''ID'')"
proof -
  show ev: "evaluator_for (\<lambda>_. NilInterface) generic_sample ''ID'' = (Some 0, generic_sample)"
    by (simp add: generic_sample_def evaluator_for_def generic_evaluator_for_def)
  have ty: "type_of sample_broker ''..|IDclient'' = ''ID''" "type_of sample_broker ''..|IDnative'' = ''ID''"
    by (simp_all add: sample_broker_def ref_body_def dots_def)
  have m: "mapped_values generic_sample = Some bound_table" "in_facing_poa generic_sample = 1" "out_facing_poa generic_sample = 2"
    by (simp_all add: generic_sample_def sample_mapper_def)
  show "gate sample_broker (\<lambda>_. NilInterface) ((\<lambda>_. 0)(5 := 1)) 1 2 {''..|IDclient''} 1 (ps_store generic_state)"
    using sample_broker_ok bound_store_ok(1) m ev by (simp add: gate_def ps_store_def generic_state_def handles_def ty) (simp add: rooms_def bound_table_def bound_heap_def)
  have "contents bound_heap 5 = Some ((new_rmv\<lparr>orig_ref := Some ''..|IDnative''\<rparr>)\<lparr>ref_count := 0\<rparr>)" by (simp add: contents_def bound_heap_def)
  moreover have "original_ref sample_broker ''..|IDnative'' = ''..|IDnative''" by (simp add: original_ref_def supports_secure_def sample_broker_def)
  ultimately show "stands_for sample_broker (\<lambda>_. NilInterface) True (ps_store generic_state) ''..|IDnative'' (make_ref sample_broker 2 (oid_for sample_broker True 0) ''ID'')"
    using bound_store_ok(2) m ev by (auto simp: stands_for_def ps_store_def generic_state_def ty facing_poa_def
        intro!: exI [of _ "0 :: 32 word"] exI [of _ "new_rmv\<lparr>orig_ref := Some ''..|IDnative''\<rparr>"])
qed


end
