(* ===== verification/RMVStore.thy ===== *)
theory RMVStore
  imports RMVByMapped
begin

text \<open>
  The table in use: the collector's sweep, the table as an abstract store of counted values
  that its clients and its collector share, and what goes wrong when operations that hold
  different locks interleave.

  \<open>spec_step\<close> is the abstract specification: a finite map from indices to values, the indices
  handed out and not bound yet, and the owners outside the table. The refinement theorem shows that
  every operation a client may call, and a sweep of the collector, runs without fault and answers as
  the specification does.
\<close>

subsection \<open>The sweep\<close>

definition dead :: "('o \<Rightarrow> ping_result) \<Rightarrow> 'o rmv option \<Rightarrow> bool" where
  "dead ping c = (case c of None \<Rightarrow> False | Some v \<Rightarrow>
     (case orig_ref v of None \<Rightarrow> False | Some r \<Rightarrow>
       (case ping r of Answer gone \<Rightarrow> gone | BAD_OPERATION \<Rightarrow> False | OtherException \<Rightarrow> True)))"

text \<open>Every value of the table refers to an original object.\<close>

definition refs_set :: "rmv_table \<Rightarrow> 'o rmv_heap \<Rightarrow> bool" where
  "refs_set t h \<longleftrightarrow> (\<forall>i a. lookup t i = Some a \<longrightarrow> (\<exists>v. h a = Some v \<and> orig_ref v \<noteq> None))"

definition position :: "rmv_table \<Rightarrow> nat \<times> nat \<Rightarrow> 32 word" where
  "position t kj = of_nat (fst kj * unat (page_size t) + snd kj)"

definition in_pages :: "rmv_table \<Rightarrow> nat \<times> nat \<Rightarrow> bool" where
  "in_pages t kj \<longleftrightarrow> fst kj < length (pages t) \<and> snd kj < unat (page_size t)"

lemma position_slot:
  assumes "geometry t" and "in_pages t (k, j)"
  shows "unat (position t (k, j)) = k * unat (page_size t) + j"
    and "unat (position t (k, j)) < length (slots t)"
    and "lookup t (position t (k, j)) = pages t ! k ! j"
    and "write_slot (position t (k, j)) v t = set_slot k j v t"
proof -
  let ?n = "unat (page_size t)"
  have k: "k < length (pages t)" "j < ?n" using assms(2) by (auto simp: in_pages_def)
  have len: "\<forall>p \<in> set (pages t). length p = ?n" "length (slots t) = length (pages t) * ?n"
    using assms(1) length_concat_pages [of "pages t"] by (auto simp: geometry_def slots_def)
  have "(k + 1) * ?n \<le> length (pages t) * ?n" using k(1) by (intro mult_le_mono1) simp
  then have lt: "k * ?n + j < length (slots t)" using k(2) len(2) by simp
  moreover have "unat (limit t) < 2 ^ LENGTH(32)" by (rule unsigned_less)
  ultimately show u: "unat (position t (k, j)) = k * ?n + j"
    using geometry_length [OF assms(1)]
    by (simp add: position_def unat_of_nat del: of_nat_add of_nat_mult)
  then show i: "unat (position t (k, j)) < length (slots t)" using lt by simp
  show "lookup t (position t (k, j)) = pages t ! k ! j"
    using concat_pages_nth [OF len(1) k] u i by (simp add: lookup_def slots_def)
  have "unat (position t (k, j) div page_size t) = k" "unat (position t (k, j) mod page_size t) = j"
    using u k(2) by (simp_all add: unat_div_distrib unat_mod_distrib)
  then show "write_slot (position t (k, j)) v t = set_slot k j v t" by (simp add: write_slot_def)
qed

text \<open>A removal by the collector is \<open>unbind\<close> followed by the release of the reference it gives.\<close>

lemma gc_reap_unbind:
  assumes "store_ok pend own (t, h)" and "in_pages t (k, j)" and "pages t ! k ! j = Some a"
  shows "gc_reap k j a (t, h) = bindR (unbind (position t (k, j)) (t, h)) (\<lambda>(p, t, h).
     bindR (decr_refcount a h) (\<lambda>(n, h). Ok (t, h)))"
proof -
  note ok = store_okD [OF assms(1)]
  note pos = position_slot [OF table_ok_geometry [OF ok(1)] assms(2)]
  have "unbind (position t (k, j)) (t, h)
      = Ok (Some a, stack_push (position t (k, j)) (set_slot k j None t), h)"
    using pos assms(3) unfolding unbind_def prod.case guarded_read [OF ok(1)] by simp
  then show ?thesis using assms(3) unfolding gc_reap_def prod.case position_def by simp
qed

lemma gc_slot_ok:
  assumes "store_ok pend own (t, h)" and "refs_set t h" and "in_pages t (k, j)"
  shows "\<exists>t' h'. gc_slot ping k j (t, h) = Ok (t', h') \<and> store_ok pend own (t', h')
    \<and> lookup t' = (\<lambda>i. if i = position t (k, j) \<and> (\<exists>a. lookup t i = Some a \<and> dead ping (h a))
                       then None else lookup t i)
    \<and> (\<forall>b. h' b \<noteq> None \<longrightarrow> contents h' b = contents h b)
    \<and> page_size t' = page_size t \<and> length (pages t') = length (pages t)
    \<and> gc_terminated t' = gc_terminated t"
proof (cases "pages t ! k ! j")
  case None
  then have "lookup t (position t (k, j)) = None"
    using position_slot(3) [OF table_ok_geometry [OF store_okD(1) [OF assms(1)]] assms(3)] by simp
  with None assms(1) show ?thesis by (auto simp: gc_slot_def)
next
  case (Some a)
  note ok = store_okD [OF assms(1)]
  let ?i = "position t (k, j)"
  have i: "lookup t ?i = Some a"
    using position_slot(3) [OF table_ok_geometry [OF ok(1)] assms(3)] Some by simp
  obtain v r where v: "h a = Some v" "orig_ref v = Some r"
    using assms(2) i unfolding refs_set_def by blast
  have run: "gc_slot ping k j (t, h) = (if dead ping (h a) then gc_reap k j a (t, h) else Ok (t, h))"
    using Some v by (simp add: gc_slot_def rmv_at_def expired_def dead_def split: ping_result.split)
  show ?thesis
  proof (cases "dead ping (h a)")
    case False
    with run i assms(1) show ?thesis by (auto simp: fun_eq_iff)
  next
    case True
    obtain t' where t': "unbind ?i (t, h) = Ok (Some a, t', h)" "lookup t' = (lookup t)(?i := None)"
      "store_ok pend (own(a := own a + 1)) (t', h)"
      using unbind_ok [OF assms(1), of ?i] i by auto
    have "t' = stack_push ?i (set_slot k j None t)"
      using t'(1) i position_slot(2,4) [OF table_ok_geometry [OF ok(1)] assms(3)]
      by (simp add: unbind_def guarded_read [OF ok(1)])
    then have keep: "page_size t' = page_size t" "length (pages t') = length (pages t)"
      "gc_terminated t' = gc_terminated t" by simp_all
    note ok' = store_okD [OF t'(3)]
    let ?o = "\<lambda>b. (own(a := own a + 1)) b + slot_owners t' b"
    obtain h' where h': "decr_refcount a h = Ok (int (?o a) - 1, h')" "counted (?o(a := ?o a - 1)) h'"
      "\<forall>b. contents h' b = (if b = a \<and> ?o a = 1 then None else contents h b)"
      using decr_refcount_store [OF ok'(2), of a] by fastforce
    have "counted (\<lambda>b. own b + slot_owners t' b) h'"
      by (rule counted_cong [OF h'(2)]) simp
    then have st: "store_ok pend own (t', h')" using ok'(1) by (simp add: store_ok_def)
    have "contents h' b = contents h b" if "h' b \<noteq> None" for b
      using spec [OF h'(3), of b] that by (auto simp: contents_def split: if_splits)
    with run True gc_reap_unbind [OF assms(1,3) Some] t'(1,2) h'(1) st keep i show ?thesis
      by (auto simp: fun_eq_iff)
  qed
qed

lemma contents_same:
  assumes "contents h' b = contents h b"
  shows "dead ping (h' b) = dead ping (h b)" and "h' b = None \<longleftrightarrow> h b = None"
    and "(\<exists>v. h' b = Some v \<and> orig_ref v \<noteq> None) \<longleftrightarrow> (\<exists>v. h b = Some v \<and> orig_ref v \<noteq> None)"
proof -
  have dead: "dead ping (contents f b) = dead ping (f b)" for f :: "'a rmv_heap"
    by (cases "f b") (simp_all add: dead_def contents_def)
  have ref: "(\<exists>v. contents f b = Some v \<and> orig_ref v \<noteq> None) \<longleftrightarrow> (\<exists>v. f b = Some v \<and> orig_ref v \<noteq> None)"
    for f :: "'a rmv_heap"
    by (cases "f b") (simp_all add: contents_def)
  show "dead ping (h' b) = dead ping (h b)" using dead [of h] dead [of h'] assms by simp
  show "h' b = None \<longleftrightarrow> h b = None" using assms by (cases "h' b"; cases "h b") (simp_all add: contents_def)
  show "(\<exists>v. h' b = Some v \<and> orig_ref v \<noteq> None) \<longleftrightarrow> (\<exists>v. h b = Some v \<and> orig_ref v \<noteq> None)"
    using ref [of h] ref [of h'] assms by simp
qed

lemma bound_live:
  assumes "store_ok pend own (t, h)" and "lookup t i = Some a"
  shows "h a \<noteq> None"
  using counted_live [OF store_okD(2) [OF assms(1)], of a] slot_owners_pos [OF assms(2)] by simp

lemma gc_slots_ok:
  assumes "store_ok pend own (t, h)" and "refs_set t h" and "\<forall>kj \<in> set kjs. in_pages t kj"
    and "\<not> gc_terminated t"
  shows "\<exists>t' h'. gc_slots ping kjs (t, h) = Ok (t', h') \<and> store_ok pend own (t', h')
    \<and> lookup t' = (\<lambda>i. if i \<in> position t ` set kjs \<and> (\<exists>a. lookup t i = Some a \<and> dead ping (h a))
                       then None else lookup t i)
    \<and> (\<forall>b. h' b \<noteq> None \<longrightarrow> contents h' b = contents h b) \<and> \<not> gc_terminated t'"
  using assms
proof (induction kjs arbitrary: t h)
  case (Cons kj kjs)
  obtain k j where kj: "kj = (k, j)" by (cases kj)
  obtain t1 h1 where s1: "gc_slot ping k j (t, h) = Ok (t1, h1)" "store_ok pend own (t1, h1)"
    "lookup t1 = (\<lambda>i. if i = position t (k, j) \<and> (\<exists>a. lookup t i = Some a \<and> dead ping (h a))
                       then None else lookup t i)"
    "\<forall>b. h1 b \<noteq> None \<longrightarrow> contents h1 b = contents h b"
    "page_size t1 = page_size t" "length (pages t1) = length (pages t)" "\<not> gc_terminated t1"
    using gc_slot_ok [OF Cons.prems(1,2), of k j ping] Cons.prems(3,4) kj by auto
  have same: "contents h1 a = contents h a" if "lookup t1 i = Some a" for i a
    using bound_live [OF s1(2) that] s1(4) by blast
  have sub: "lookup t i = Some a" if "lookup t1 i = Some a" for i a
    using that s1(3) by (auto split: if_splits)
  have "refs_set t1 h1"
    using Cons.prems(2) contents_same(3) [OF same] sub unfolding refs_set_def by blast
  moreover have "\<forall>kj \<in> set kjs. in_pages t1 kj"
    using Cons.prems(3) s1(5,6) by (simp add: in_pages_def)
  ultimately obtain t' h' where s': "gc_slots ping kjs (t1, h1) = Ok (t', h')"
    "store_ok pend own (t', h')"
    "lookup t' = (\<lambda>i. if i \<in> position t1 ` set kjs \<and> (\<exists>a. lookup t1 i = Some a \<and> dead ping (h1 a))
                       then None else lookup t1 i)"
    "\<forall>b. h' b \<noteq> None \<longrightarrow> contents h' b = contents h1 b" "\<not> gc_terminated t'"
    using Cons.IH [OF s1(2)] s1(7) by blast
  have pos: "position t1 = position t" using s1(5) by (auto simp: position_def)
  have dead: "dead ping (h1 a) = dead ping (h a)" if "lookup t1 i = Some a" for i a
    by (rule contents_same(1) [OF same [OF that]])
  have "lookup t' i = (if i \<in> position t ` set (kj # kjs) \<and> (\<exists>a. lookup t i = Some a \<and> dead ping (h a))
                       then None else lookup t i)" for i
    using s'(3) s1(3) pos kj dead [of i] by (cases "lookup t i") (auto simp: fun_eq_iff)
  moreover have "contents h' b = contents h b" if "h' b \<noteq> None" for b
    using that s'(4) s1(4) contents_same(2) [of h' b h1] by metis
  ultimately show ?case using s1(1) s'(1,2,5) Cons.prems(4) kj by (auto simp: fun_eq_iff)
qed (auto simp: fun_eq_iff)

lemma all_slots_positions:
  assumes "geometry t"
  shows "\<forall>kj \<in> set (all_slots t). in_pages t kj"
    and "i \<in> position t ` set (all_slots t) \<longleftrightarrow> unat i < length (slots t)"
proof -
  have all: "set (all_slots t) = {kj. in_pages t kj}"
    by (auto simp: all_slots_def in_pages_def)
  then show "\<forall>kj \<in> set (all_slots t). in_pages t kj" by simp
  have "\<exists>kj. in_pages t kj \<and> i = position t kj" if "unat i < length (slots t)"
  proof (intro exI conjI)
    note p = slot_position [OF assms that]
    show "in_pages t (unat (i div page_size t), unat (i mod page_size t))"
      using p by (simp add: in_pages_def)
    from position_slot(1) [OF assms this] p(3)
    show "i = position t (unat (i div page_size t), unat (i mod page_size t))"
      by (simp add: unat_eq_unat [symmetric])
  qed
  with position_slot(2) [OF assms] all show "i \<in> position t ` set (all_slots t) \<longleftrightarrow> unat i < length (slots t)"
    by auto
qed

lemma gc_sweep_ok:
  assumes "store_ok pend own (t, h)" and "refs_set t h" and "\<not> gc_terminated t"
  shows "\<exists>t' h'. gc_sweep ping (t, h) = Ok (t', h') \<and> store_ok pend own (t', h')
    \<and> lookup t' = (\<lambda>i. case lookup t i of None \<Rightarrow> None | Some a \<Rightarrow> if dead ping (h a) then None else Some a)
    \<and> (\<forall>b. h' b \<noteq> None \<longrightarrow> contents h' b = contents h b) \<and> gc_terminated t' = gc_terminated t"
proof -
  note all = all_slots_positions [OF table_ok_geometry [OF store_okD(1) [OF assms(1)]]]
  obtain t' h' where r: "gc_slots ping (all_slots t) (t, h) = Ok (t', h')" "store_ok pend own (t', h')"
    "lookup t' = (\<lambda>i. if i \<in> position t ` set (all_slots t)
        \<and> (\<exists>a. lookup t i = Some a \<and> dead ping (h a)) then None else lookup t i)"
    "\<forall>b. h' b \<noteq> None \<longrightarrow> contents h' b = contents h b" "\<not> gc_terminated t'"
    using gc_slots_ok [OF assms(1,2) all(1) assms(3)] by blast
  have "unat i < length (slots t)" if "lookup t i = Some a" for i a
    using that by (auto simp: lookup_def split: if_splits)
  with r(3) all(2) have "lookup t' = (\<lambda>i. case lookup t i of None \<Rightarrow> None
      | Some a \<Rightarrow> if dead ping (h a) then None else Some a)"
    by (auto simp: fun_eq_iff split: option.split)
  with r assms(3) show ?thesis by (simp add: gc_sweep_def)
qed

text \<open>An element without interruption is two steps of the thread.\<close>

lemma gc_slot_steps:
  assumes "\<not> gc_terminated (fst s)" and "in_pages (fst s) (k, j)"
  shows "bindR (gc_step ping (At k j) s) (\<lambda>(pc, s). case pc of Pinging k j value e \<Rightarrow> gc_step ping pc s | _ \<Rightarrow> Ok (pc, s))
    = bindR (gc_slot ping k j s) (\<lambda>s. Ok (At k (j + 1), s))"
  using assms by (cases s) (auto simp: gc_slot_def in_pages_def bindR_assoc cong: bindR_cong split: option.split)

subsection \<open>The abstract store\<close>

record 'o abs_store =
  bound :: "32 word \<rightharpoonup> nat"
  pending :: "32 word set"
  holders :: "nat \<Rightarrow> nat"
  target :: "nat \<Rightarrow> 'o option"

text \<open>
  What the mapper does with the table and the values, and a sweep of the collector. \<open>Create\<close> is
  the \<open>new ReferenceMapValue\<close> of the mapper, \<open>Release\<close> gives up a reference the mapper holds.
\<close>

datatype 'o table_op =
    NextIndex
  | Create nat 'o
  | Bind "32 word" nat
  | Rebind "32 word" nat
  | Find "32 word"
  | Unbind "32 word"
  | Release nat
  | Sweep "'o \<Rightarrow> ping_result"

datatype answer = Index "32 word" | Flag bool | Value "nat option" | Unit

fun exec :: "'o table_op \<Rightarrow> 'o rmv_store \<Rightarrow> (answer \<times> 'o rmv_store) result" where
  "exec NextIndex s = (case store_next s of (i, s) \<Rightarrow> Ok (Index i, s))"
| "exec (Create a r) s = Ok (Unit, fst s, (snd s)(a \<mapsto> new_rmv\<lparr>orig_ref := Some r\<rparr>))"
| "exec (Bind i a) s = bindR (bind i a s) (\<lambda>(b, s). Ok (Flag b, s))"
| "exec (Rebind i a) s = bindR (rebind i a s) (\<lambda>(b, s). Ok (Flag b, s))"
| "exec (Find i) s = bindR (find_rmv i s) (\<lambda>(p, s). Ok (Value p, s))"
| "exec (Unbind i) s = bindR (unbind i s) (\<lambda>(p, s). Ok (Value p, s))"
| "exec (Release a) s = bindR (decr_refcount a (snd s)) (\<lambda>(n, h). Ok (Unit, fst s, h))"
| "exec (Sweep ping) s = bindR (gc_sweep ping s) (\<lambda>s. Ok (Unit, s))"

definition gone :: "('o \<Rightarrow> ping_result) \<Rightarrow> 'o option \<Rightarrow> bool" where
  "gone ping r \<longleftrightarrow> (\<exists>x. r = Some x \<and> (ping x = Answer True \<or> ping x = OtherException))"

inductive spec_step :: "'o abs_store \<Rightarrow> 'o table_op \<Rightarrow> answer \<Rightarrow> 'o abs_store \<Rightarrow> bool" where
  spec_next: "i \<notin> pending A \<Longrightarrow> bound A i = None \<Longrightarrow>
    spec_step A NextIndex (Index i) (A\<lparr>pending := insert i (pending A)\<rparr>)"
| spec_create: "spec_step A (Create a r) Unit
    (A\<lparr>holders := (holders A)(a := 1), target := (target A)(a \<mapsto> r)\<rparr>)"
| spec_bind: "i \<in> pending A \<Longrightarrow>
    spec_step A (Bind i a) (Flag True) (A\<lparr>bound := (bound A)(i \<mapsto> a), pending := pending A - {i}\<rparr>)"
| spec_bind_taken: "bound A i \<noteq> None \<Longrightarrow> spec_step A (Bind i a) (Flag False) A"
| spec_rebind: "bound A i \<noteq> None \<Longrightarrow>
    spec_step A (Rebind i a) (Flag True) (A\<lparr>bound := (bound A)(i \<mapsto> a)\<rparr>)"
| spec_find: "spec_step A (Find i) (Value (bound A i)) (A\<lparr>holders := own_add (bound A i) (holders A)\<rparr>)"
| spec_unbind: "spec_step A (Unbind i) (Value (bound A i))
    (A\<lparr>bound := (bound A)(i := None), holders := own_add (bound A i) (holders A)\<rparr>)"
| spec_release: "spec_step A (Release a) Unit (A\<lparr>holders := (holders A)(a := holders A a - 1)\<rparr>)"
| spec_sweep: "spec_step A (Sweep ping) Unit
    (A\<lparr>bound := (\<lambda>i. case bound A i of None \<Rightarrow> None
       | Some a \<Rightarrow> if gone ping (target A a) then None else Some a)\<rparr>)"

text \<open>
  What a client must see to: it creates a value at a free address, binds an index that was handed
  out to it (a bound one is refused) and a value of its own that has an original reference, and gives
  up only what it holds.
\<close>

fun client_ok :: "'o abs_store \<Rightarrow> 'o rmv_heap \<Rightarrow> 'o table_op \<Rightarrow> bool" where
  "client_ok A h (Create a r) = (h a = None)"
| "client_ok A h (Bind i a) =
     ((i \<in> pending A \<or> bound A i \<noteq> None) \<and> 0 < holders A a \<and> target A a \<noteq> None)"
| "client_ok A h (Rebind i a) = (bound A i \<noteq> None \<and> 0 < holders A a \<and> target A a \<noteq> None)"
| "client_ok A h (Release a) = (0 < holders A a)"
| "client_ok A h _ = True"

definition targets :: "(nat \<Rightarrow> 'o option) \<Rightarrow> 'o rmv_heap \<Rightarrow> bool" where
  "targets f h \<longleftrightarrow> (\<forall>a v. h a = Some v \<longrightarrow> orig_ref v = f a)"

definition refines :: "'o rmv_store \<Rightarrow> 'o abs_store \<Rightarrow> bool" where
  "refines s A \<longleftrightarrow> store_ok (pending A) (holders A) s \<and> lookup (fst s) = bound A
     \<and> targets (target A) (snd s) \<and> (\<forall>i a. bound A i = Some a \<longrightarrow> target A a \<noteq> None)
     \<and> \<not> gc_terminated (fst s)"

lemma targets_keep:
  assumes "targets f h" and "\<And>b. h' b \<noteq> None \<Longrightarrow> contents h' b = contents h b"
  shows "targets f h'"
proof -
  have "orig_ref v' = f b" if v': "h' b = Some v'" for b v'
  proof -
    from v' assms(2) [of b] obtain v where "h b = Some v" "v\<lparr>ref_count := 0\<rparr> = v'\<lparr>ref_count := 0\<rparr>"
      by (cases "h b") (auto simp: contents_def)
    then have "orig_ref v = orig_ref v'" by (metis rmv.select_convs(1) rmv.update_convs(6) rmv.surjective)
    with assms(1) \<open>h b = Some v\<close> show ?thesis by (simp add: targets_def)
  qed
  then show ?thesis by (simp add: targets_def)
qed

lemma refines_refs_set: "refines (t, h) A \<Longrightarrow> refs_set t h"
  unfolding refines_def refs_set_def targets_def using bound_live by fastforce

lemma refines_dead:
  assumes "refines (t, h) A" and "bound A i = Some a"
  shows "dead ping (h a) \<longleftrightarrow> gone ping (target A a)"
proof -
  have "lookup t i = Some a" using assms by (simp add: refines_def)
  then obtain v where v: "h a = Some v"
    using assms(1) bound_live [of "pending A" "holders A" t h i a] by (auto simp: refines_def)
  then have "orig_ref v = target A a" using assms(1) by (auto simp: refines_def targets_def)
  then show ?thesis using v
    by (auto simp: dead_def gone_def split: option.split ping_result.split)
qed

lemma gc_terminated_keeps [simp]:
  "gc_terminated (write_slot i v t) = gc_terminated t" "gc_terminated (grow x t) = gc_terminated t"
  "gc_terminated (stack_pop t) = gc_terminated t"
  by (simp_all add: write_slot_def grow_def stack_pop_def)

definition simulates :: "'o rmv_store \<Rightarrow> 'o abs_store \<Rightarrow> 'o table_op \<Rightarrow> bool" where
  "simulates s A c \<longleftrightarrow>
     (\<exists>ans s' A'. exec c s = Ok (ans, s') \<and> spec_step A c ans A' \<and> refines s' A')"

lemma simulatesI:
  "exec c s = Ok (ans, s') \<Longrightarrow> spec_step A c ans A' \<Longrightarrow> refines s' A' \<Longrightarrow> simulates s A c"
  unfolding simulates_def by blast

lemma next_simulates:
  assumes "refines (t, h) A" and "room t"
  shows "simulates (t, h) A NextIndex"
proof -
  have tok: "table_ok (pending A) t" using assms(1) by (simp add: refines_def store_ok_def)
  obtain i t' where n: "next_index t = (i, t')" "i \<notin> pending A" "lookup t i = None"
    "lookup t' = lookup t" "slot_owners t' = slot_owners t" "table_ok (insert i (pending A)) t'"
    using next_index_ok [OF tok assms(2)] by blast
  have "gc_terminated t' = gc_terminated t"
    using n(1) by (auto simp: next_index_def split: option.splits)
  with n assms(1) show ?thesis
    by (intro simulatesI [OF _ spec_next, where s' = "(t', h)"])
       (auto simp: store_next_def refines_def store_ok_def)
qed

lemma create_simulates:
  assumes "refines (t, h) A" and "h a = None"
  shows "simulates (t, h) A (Create a r)"
proof (rule simulatesI [OF _ spec_create])
  let ?v = "new_rmv\<lparr>orig_ref := Some r\<rparr>"
  let ?A = "A\<lparr>holders := (holders A)(a := 1), target := (target A)(a \<mapsto> r)\<rparr>"
  have ok: "table_ok (pending A) t" "counted (\<lambda>b. holders A b + slot_owners t b) h"
    using assms(1) by (simp_all add: refines_def store_ok_def)
  have z: "holders A a + slot_owners t a = 0" using counted_live [OF ok(2), of a] assms(2) by simp
  have "counted ((\<lambda>b. holders A b + slot_owners t b)(a := 1)) (h(a \<mapsto> ?v))"
    by (rule counted_upd [OF ok(2)]) (simp_all add: new_rmv_def)
  then have "counted (\<lambda>b. ((holders A)(a := 1)) b + slot_owners t b) (h(a \<mapsto> ?v))"
    by (rule counted_cong) (use z in simp)
  moreover have "b \<noteq> a" if "bound A i = Some b" for i b
    using that assms bound_live [of "pending A" "holders A" t h i b] by (auto simp: refines_def)
  ultimately show "refines (t, h(a \<mapsto> ?v)) ?A"
    using assms(1) ok(1) by (auto simp: refines_def store_ok_def targets_def)
qed simp

lemma bind_simulates:
  assumes "refines (t, h) A" and "client_ok A h (Bind i a)"
  shows "simulates (t, h) A (Bind i a)"
proof (cases "i \<in> pending A")
  case True
  have st: "store_ok (pending A) (holders A) (t, h)" and a: "0 < holders A a"
    using assms by (simp_all add: refines_def)
  obtain t' h' where b: "bind i a (t, h) = Ok (True, t', h')" "lookup t' = (lookup t)(i \<mapsto> a)"
    "contents h' = contents h" "store_ok (pending A - {i}) (holders A) (t', h')"
    using bind_pending [OF st True a] by blast
  have "gc_terminated t' = gc_terminated t"
    using b(1) by (auto simp: bind_def bindR_eq_Ok split: if_splits)
  with b assms True targets_keep [of "target A" h h'] show ?thesis
    by (intro simulatesI [OF _ spec_bind, where s' = "(t', h')"]) (auto simp: refines_def)
next
  case False
  then have taken: "bound A i \<noteq> None" using assms(2) by simp
  with assms(1) have "bind i a (t, h) = Ok (False, t, h)"
    by (intro bind_taken [of "pending A" "holders A"]) (simp_all add: refines_def)
  with taken assms(1) show ?thesis
    by (intro simulatesI [OF _ spec_bind_taken, where s' = "(t, h)"]) auto
qed

lemma rebind_simulates:
  assumes "refines (t, h) A" and "client_ok A h (Rebind i a)"
  shows "simulates (t, h) A (Rebind i a)"
proof -
  have st: "store_ok (pending A) (holders A) (t, h)" and a: "0 < holders A a"
    using assms by (simp_all add: refines_def)
  obtain b where b: "lookup t i = Some b" using assms by (auto simp: refines_def)
  obtain t' h' where r: "rebind i a (t, h) = Ok (True, t', h')" "lookup t' = (lookup t)(i \<mapsto> a)"
    "\<forall>c. h' c \<noteq> None \<longrightarrow> contents h' c = contents h c" "store_ok (pending A) (holders A) (t', h')"
    using rebind_bound [OF st b a] by blast
  have "gc_terminated t' = gc_terminated t"
    using r(1) by (auto simp: rebind_def bindR_eq_Ok split: if_splits)
  with r assms targets_keep [of "target A" h h'] show ?thesis
    by (intro simulatesI [OF _ spec_rebind, where s' = "(t', h')"]) (auto simp: refines_def)
qed

lemma find_simulates:
  assumes "refines (t, h) A"
  shows "simulates (t, h) A (Find i)"
proof -
  have st: "store_ok (pending A) (holders A) (t, h)" using assms by (simp add: refines_def)
  obtain h' where f: "find_rmv i (t, h) = Ok (lookup t i, t, h')" "contents h' = contents h"
    "store_ok (pending A) (own_add (lookup t i) (holders A)) (t, h')"
    using find_rmv_ok [OF st] by blast
  with assms targets_keep [of "target A" h h'] show ?thesis
    by (intro simulatesI [OF _ spec_find, where s' = "(t, h')"]) (auto simp: refines_def)
qed

lemma unbind_simulates:
  assumes "refines (t, h) A"
  shows "simulates (t, h) A (Unbind i)"
proof -
  have st: "store_ok (pending A) (holders A) (t, h)" using assms by (simp add: refines_def)
  obtain t' where f: "unbind i (t, h) = Ok (lookup t i, t', h)" "lookup t' = (lookup t)(i := None)"
    "store_ok (pending A) (own_add (lookup t i) (holders A)) (t', h)"
    using unbind_ok [OF st] by blast
  have "gc_terminated t' = gc_terminated t"
    using f(1) by (auto simp: unbind_def bindR_eq_Ok split: if_splits option.splits)
  with f assms show ?thesis
    by (intro simulatesI [OF _ spec_unbind, where s' = "(t', h)"])
       (auto simp: refines_def split: if_splits)
qed

lemma release_simulates:
  assumes "refines (t, h) A" and "0 < holders A a"
  shows "simulates (t, h) A (Release a)"
proof -
  let ?o = "\<lambda>b. holders A b + slot_owners t b"
  have ok: "table_ok (pending A) t" "counted ?o h" using assms(1) by (simp_all add: refines_def store_ok_def)
  obtain h' where d: "decr_refcount a h = Ok (int (?o a) - 1, h')" "counted (?o(a := ?o a - 1)) h'"
    "\<forall>b. contents h' b = (if b = a \<and> ?o a = 1 then None else contents h b)"
    using decr_refcount_store [OF ok(2), of a] assms(2) by auto
  have "contents h' b = contents h b" if "h' b \<noteq> None" for b
    using that spec [OF d(3), of b] by (auto simp: contents_def split: if_splits)
  then have tg: "targets (target A) h'"
    using targets_keep [of "target A" h h'] assms(1) by (simp add: refines_def)
  have "counted (\<lambda>b. ((holders A)(a := holders A a - 1)) b + slot_owners t b) h'"
    by (rule counted_cong [OF d(2)]) (use assms(2) in simp)
  with tg d(1) ok(1) assms(1) show ?thesis
    by (intro simulatesI [OF _ spec_release, where s' = "(t, h')"]) (auto simp: refines_def store_ok_def)
qed

lemma sweep_simulates:
  assumes "refines (t, h) A"
  shows "simulates (t, h) A (Sweep ping)"
proof -
  let ?A = "A\<lparr>bound := (\<lambda>i. case bound A i of None \<Rightarrow> None
       | Some a \<Rightarrow> if gone ping (target A a) then None else Some a)\<rparr>"
  have st: "store_ok (pending A) (holders A) (t, h)" "\<not> gc_terminated t"
    using assms by (simp_all add: refines_def)
  obtain t' h' where g: "gc_sweep ping (t, h) = Ok (t', h')" "store_ok (pending A) (holders A) (t', h')"
    "lookup t' = (\<lambda>i. case lookup t i of None \<Rightarrow> None | Some a \<Rightarrow> if dead ping (h a) then None else Some a)"
    "\<forall>b. h' b \<noteq> None \<longrightarrow> contents h' b = contents h b" "gc_terminated t' = gc_terminated t"
    using gc_sweep_ok [OF st(1) refines_refs_set [OF assms] st(2)] by blast
  have "lookup t' = bound ?A"
    using g(3) refines_dead [OF assms] assms by (auto simp: refines_def fun_eq_iff split: option.split)
  then have "refines (t', h') ?A"
    using g(2,4,5) st(2) assms targets_keep [of "target A" h h']
    by (auto simp: refines_def split: option.splits if_splits)
  with g(1) show ?thesis
    by (intro simulatesI [OF _ spec_sweep, where s' = "(t', h')"]) simp_all
qed

lemma simulates_ok:
  "client_ok A (snd s) c \<Longrightarrow> refines s A \<Longrightarrow> (c = NextIndex \<longrightarrow> room (fst s)) \<Longrightarrow> simulates s A c"
  using next_simulates create_simulates bind_simulates rebind_simulates find_simulates
      unbind_simulates release_simulates sweep_simulates by (cases s; cases c) simp_all

lemma bind_shape:
  "bind i a (t, h) = Ok (b, t', h') \<Longrightarrow>
   page_size t' = page_size t \<and> length (pages t') = length (pages t)"
  by (auto simp: bind_def bindR_eq_Ok write_slot_def split: if_splits)

lemma unbind_shape:
  "unbind i (t, h) = Ok (p, t', h') \<Longrightarrow>
   page_size t' = page_size t \<and> length (pages t') = length (pages t)"
  by (auto simp: unbind_def bindR_eq_Ok write_slot_def split: if_splits option.splits)

subsection \<open>The collector among other threads\<close>

text \<open>
  Runs in which the steps of the collector's thread alternate with operations of other threads on the table, which need the lock that the collector
  holds at an element and gives up while it waits or calls the object. (That \<open>next_index\<close> takes another lock is the subject of \<open>free_stack_race\<close>.)
\<close>

datatype 'o gc_event = Collect "'o \<Rightarrow> ping_result" | Other "'o table_op"

fun lock_free :: "gc_pc \<Rightarrow> bool" where
  "lock_free (At k j) = False"
| "lock_free pc = True"

text \<open>What a step of the collector does to the abstract store.\<close>

fun gc_effect :: "gc_pc \<Rightarrow> rmv_table \<Rightarrow> 'o abs_store \<Rightarrow> 'o abs_store" where
  "gc_effect (Pinging k j value e) t A =
     (if e \<and> bound A (position t (k, j)) = Some value then A\<lparr>bound := (bound A)(position t (k, j) := None)\<rparr> else A)"
| "gc_effect pc t A = A"

fun no_sweep :: "'o table_op \<Rightarrow> bool" where
  "no_sweep (Sweep ping) = False"
| "no_sweep c = True"

inductive interleaved :: "'o gc_event list \<Rightarrow> gc_pc \<times> 'o rmv_store \<times> 'o abs_store \<Rightarrow> gc_pc \<times> 'o rmv_store \<times> 'o abs_store \<Rightarrow> bool" where
  none: "interleaved [] c c"
| collect: "interleaved es c (pc, s, A) \<Longrightarrow> gc_step ping pc s = Ok (pc', s') \<Longrightarrow> interleaved (es @ [Collect ping]) c (pc', s', gc_effect pc (fst s) A)"
| other: "interleaved es c (pc, s, A) \<Longrightarrow> lock_free pc \<Longrightarrow> no_sweep op \<Longrightarrow> client_ok A (snd s) op \<Longrightarrow> (op = NextIndex \<longrightarrow> room (fst s)) \<Longrightarrow>
    exec op s = Ok (ans, s') \<Longrightarrow> spec_step A op ans A' \<Longrightarrow> interleaved (es @ [Other op]) c (pc, s', A')"

lemma spec_step_unique: "spec_step A op ans A1 \<Longrightarrow> spec_step A op ans A2 \<Longrightarrow> A1 = A2"
  by (elim spec_step.cases) auto

lemma exec_refines:
  assumes "refines s A" and "client_ok A (snd s) c" and "c = NextIndex \<longrightarrow> room (fst s)" and "exec c s = Ok (ans, s')" and "spec_step A c ans A'"
  shows "refines s' A'"
  using simulates_ok [OF assms(2,1,3)] assms(4,5) spec_step_unique unfolding simulates_def by fastforce

lemma reap_refines:
  assumes "refines (t, h) A" and "in_pages t (k, j)" and "pages t ! k ! j = Some a"
  shows "\<exists>s'. gc_reap k j a (t, h) = Ok s' \<and> refines s' (A\<lparr>bound := (bound A)(position t (k, j) := None)\<rparr>)"
proof -
  let ?i = "position t (k, j)"
  have st: "store_ok (pending A) (holders A) (t, h)" using assms(1) by (simp add: refines_def)
  have b: "bound A ?i = Some a"
    using position_slot(3) [OF table_ok_geometry [OF store_okD(1) [OF st]] assms(2)] assms(1,3) by (simp add: refines_def)
  let ?A1 = "A\<lparr>bound := (bound A)(?i := None), holders := own_add (Some a) (holders A)\<rparr>"
  have "simulates (t, h) A (Unbind ?i)" using assms(1) by (intro simulates_ok) simp_all
  then obtain t1 h1 where u: "unbind ?i (t, h) = Ok (Some a, t1, h1)" "refines (t1, h1) ?A1"
    using b by (auto simp: simulates_def bindR_eq_Ok elim: spec_step.cases)
  have "simulates (t1, h1) ?A1 (Release a)" using u(2) by (intro simulates_ok) simp_all
  then obtain n h2 where d: "decr_refcount a h1 = Ok (n, h2)" "refines (t1, h2) (?A1\<lparr>holders := (holders ?A1)(a := holders ?A1 a - 1)\<rparr>)"
    by (auto simp: simulates_def bindR_eq_Ok elim: spec_step.cases)
  have "?A1\<lparr>holders := (holders ?A1)(a := holders ?A1 a - 1)\<rparr> = A\<lparr>bound := (bound A)(?i := None)\<rparr>" by simp
  with d gc_reap_unbind [OF st assms(2,3)] u(1) show ?thesis by (simp only: bindR_simps prod.case) auto
qed


lemma exec_shape:
  assumes "exec op (t, h) = Ok (ans, t', h')" and "no_sweep op"
  shows "page_size t' = page_size t \<and> length (pages t) \<le> length (pages t')"
  using assms
  by (cases op) (auto simp: bindR_eq_Ok store_next_def next_index_def rebind_def find_rmv_def stack_pop_def grow_def write_slot_def
      split: if_splits option.splits prod.splits dest!: bind_shape unbind_shape)

lemma in_pages_kept: "page_size t' = page_size t \<Longrightarrow> length (pages t) \<le> length (pages t') \<Longrightarrow> in_pages t kj \<Longrightarrow> in_pages t' kj \<and> position t' kj = position t kj"
  by (auto simp: in_pages_def position_def)

text \<open>The mapping of \<open>i\<close> to a value whose object is \<open>r\<close>, and what the collector may have in hand meanwhile.\<close>

definition spared :: "32 word \<Rightarrow> nat \<Rightarrow> 'o \<Rightarrow> gc_pc \<times> 'o rmv_store \<times> 'o abs_store \<Rightarrow> bool" where
  "spared i a r c = (case c of (pc, s, A) \<Rightarrow> refines s A \<and> bound A i = Some a \<and> target A a = Some r
     \<and> (\<forall>k j value e. pc = Pinging k j value e \<longrightarrow> in_pages (fst s) (k, j) \<and> (position (fst s) (k, j) = i \<and> value = a \<longrightarrow> \<not> e)))"

lemma gc_step_ok:
  assumes "refines (t, h) A" and "\<And>k j value e. pc = Pinging k j value e \<Longrightarrow> in_pages t (k, j)"
  shows "\<exists>pc' s'. gc_step ping pc (t, h) = Ok (pc', s') \<and> refines s' (gc_effect pc t A)
    \<and> (\<forall>k j value e. pc' = Pinging k j value e \<longrightarrow> s' = (t, h) \<and> in_pages t (k, j) \<and> bound A (position t (k, j)) = Some value
         \<and> e = gone ping (target A value))"
proof (cases pc)
  case Asleep
  then show ?thesis using assms(1) by simp
next
  case (At k j)
  have ok: "store_ok (pending A) (holders A) (t, h)" "lookup t = bound A" "targets (target A) h" using assms(1) by (simp_all add: refines_def)
  show ?thesis
  proof (cases "\<not> gc_terminated t \<and> in_pages t (k, j) \<and> pages t ! k ! j \<noteq> None")
    case True
    then obtain a where a: "pages t ! k ! j = Some a" by blast
    have b: "bound A (position t (k, j)) = Some a"
      using position_slot(3) [OF table_ok_geometry [OF store_okD(1) [OF ok(1)]], of k j] True a ok(2) by simp
    then have l: "lookup t (position t (k, j)) = Some a" using ok(2) by simp
    obtain v where v: "h a = Some v" using bound_live [OF ok(1) l] by blast
    obtain x where x: "orig_ref v = Some x" "target A a = Some x" using ok(3) v assms(1) b by (fastforce simp: targets_def refines_def)
    have "expired ping (orig_ref v) = Ok (gone ping (target A a))" using x by (auto simp: expired_def gone_def split: ping_result.split)
    then have "gc_step ping pc (t, h) = Ok (Pinging k j a (gone ping (target A a)), t, h)"
      using At True a v by (simp add: rmv_at_def in_pages_def not_le)
    then show ?thesis using assms(1) At True b by simp
  next
    case False
    then show ?thesis using assms(1) At by (auto simp: in_pages_def not_le)
  qed
next
  case (Pinging k j a e)
  have pg: "in_pages t (k, j)" by (rule assms(2) [OF Pinging])
  have ok: "store_ok (pending A) (holders A) (t, h)" "lookup t = bound A" using assms(1) by (simp_all add: refines_def)
  have at: "bound A (position t (k, j)) = pages t ! k ! j"
    using position_slot(3) [OF table_ok_geometry [OF store_okD(1) [OF ok(1)]] pg] ok(2) by simp
  show ?thesis
  proof (cases "e \<and> pages t ! k ! j = Some a")
    case True
    with reap_refines [OF assms(1) pg] obtain s' where "gc_reap k j a (t, h) = Ok s'"
      "refines s' (A\<lparr>bound := (bound A)(position t (k, j) := None)\<rparr>)" by blast
    then show ?thesis using Pinging True at by simp
  next
    case False
    then show ?thesis using Pinging assms(1) at by (cases e) (simp_all add: gc_reap_def)
  qed
qed

lemma collect_spared:
  assumes "spared i a r (pc, s, A)" and "gc_step ping pc s = Ok (pc', s')" and "\<not> gone ping (Some r)"
  shows "spared i a r (pc', s', gc_effect pc (fst s) A)"
proof -
  obtain t h where s: "s = (t, h)" by (cases s)
  have I: "refines (t, h) A" "bound A i = Some a" "target A a = Some r"
    "\<And>k j value e. pc = Pinging k j value e \<Longrightarrow> in_pages t (k, j) \<and> (position t (k, j) = i \<and> value = a \<longrightarrow> \<not> e)"
    using assms(1) by (auto simp: spared_def s)
  obtain pc1 s1 where g: "gc_step ping pc (t, h) = Ok (pc1, s1)" "refines s1 (gc_effect pc t A)"
    "\<forall>k j value e. pc1 = Pinging k j value e \<longrightarrow> s1 = (t, h) \<and> in_pages t (k, j) \<and> bound A (position t (k, j)) = Some value
         \<and> e = gone ping (target A value)"
    using gc_step_ok [OF I(1), of pc ping] I(4) by blast
  have same: "pc1 = pc'" "s1 = s'" using g(1) assms(2) s by simp_all
  have "bound (gc_effect pc t A) i = Some a \<and> target (gc_effect pc t A) a = Some r"
    using I(2-4) by (cases pc) auto
  moreover have "in_pages (fst s') (k, j) \<and> (position (fst s') (k, j) = i \<and> v = a \<longrightarrow> \<not> e)" if "pc' = Pinging k j v e" for k j v e
    using g(3) that I(2,3) assms(3) unfolding same by fastforce
  ultimately show ?thesis using g(2) by (auto simp: spared_def s same)
qed

lemma other_spared:
  assumes "spared i a r (pc, s, A)" and "no_sweep op" and "client_ok A (snd s) op" and "op = NextIndex \<longrightarrow> room (fst s)"
    and "exec op s = Ok (ans, s')" and "spec_step A op ans A'" and "op \<noteq> Unbind i" and "\<forall>b. op \<noteq> Rebind i b"
  shows "spared i a r (pc, s', A')"
proof -
  obtain t h t' h' where s: "s = (t, h)" "s' = (t', h')" by (cases s; cases s')
  have I: "refines (t, h) A" "bound A i = Some a" "target A a = Some r"
    "\<And>k j value e. pc = Pinging k j value e \<Longrightarrow> in_pages t (k, j) \<and> (position t (k, j) = i \<and> value = a \<longrightarrow> \<not> e)"
    using assms(1) by (auto simp: spared_def s)
  have ref: "refines s' A'" by (rule exec_refines [OF _ assms(3-6)]) (use I(1) s in simp)
  have "h a \<noteq> None" using bound_live [of "pending A" "holders A" t h i a] I(1,2) by (auto simp: refines_def)
  moreover have "i \<notin> pending A"
  proof
    assume "i \<in> pending A"
    then have "slots t ! unat i = None" using I(1) by (auto simp: refines_def store_ok_def table_ok_def)
    moreover have "lookup t i = Some a" using I(1,2) by (simp add: refines_def)
    ultimately show False by (simp add: lookup_def split: if_splits)
  qed
  ultimately have "bound A' i = Some a \<and> target A' a = Some r"
    using I(2,3) assms(2,3,7,8) s by (cases rule: spec_step.cases [OF assms(6)]) auto
  moreover note in_pages_kept [of t' t] exec_shape [of op t h ans t' h']
  ultimately show ?thesis using ref I(4) assms(2,5) s by (auto simp: spared_def)
qed

subsection \<open>Properties\<close>

text \<open>
  C4: The table of reference map values refines the abstract store: from a state that stands for an
  abstract one, every operation that its client may call, and every sweep of the collector that no
  other thread interrupts, runs without fault, answers as the abstract store answers and ends in a
  state that stands for the abstract successor. An index that is handed out is neither bound nor
  handed out already; a sweep removes exactly the values whose object is gone.
\<close>

theorem table_refines:
  assumes "refines s A" and "client_ok A (snd s) c" and "c = NextIndex \<longrightarrow> room (fst s)"
  shows "\<exists>ans s' A'. exec c s = Ok (ans, s') \<and> spec_step A c ans A' \<and> refines s' A'"
  using simulates_ok [OF assms(2,1,3)] by (simp add: simulates_def)

definition sample_table :: rmv_table where
  "sample_table = new_table 60 2"

definition sample_abs :: "nat abs_store" where
  "sample_abs = \<lparr>bound = (\<lambda>_. None), pending = {}, holders = (\<lambda>_. 0), target = (\<lambda>_. None)\<rparr>"

lemma new_table_refines:
  assumes "sz \<noteq> 0"
  shows "refines (new_table gc sz, \<lambda>_. None)
    \<lparr>bound = (\<lambda>_. None), pending = {}, holders = (\<lambda>_. 0), target = (\<lambda>_. None)\<rparr>"
  using new_table_ok [OF assms, of gc]
  by (simp add: refines_def store_ok_def counted_def targets_def) (simp add: new_table_def)

theorem table_refines_witness:
  "\<exists>ans s' A'. exec NextIndex (sample_table, \<lambda>_. None) = Ok (ans, s')
     \<and> spec_step sample_abs NextIndex ans A' \<and> refines s' A'"
  by (rule table_refines) (simp_all add: sample_table_def sample_abs_def new_table_refines,
      simp add: new_table_def room_def limit_def)

text \<open>
  A value added to the table is found under its index, and removing it takes the table back:
  after \<open>next_index\<close> and \<open>bind\<close>, \<open>find\<close> gives the value with a reference of its own, and \<open>unbind\<close>
  gives it with the table's reference, every other index mapped as before.
\<close>

theorem add_find_remove:
  assumes "store_ok pend own s" and "store_room s" and "0 < own a" and "store_next s = (i, s1)"
    and "bind i a s1 = Ok (b, s2)"
  shows "b \<and> store_lookup s i = None
    \<and> (\<exists>s3. find_rmv i s2 = Ok (Some a, s3) \<and> store_ok pend (own(a := own a + 1)) s3)
    \<and> (\<exists>s3. unbind i s2 = Ok (Some a, s3) \<and> store_lookup s3 = store_lookup s
          \<and> store_ok pend (own(a := own a + 1)) s3)"
proof -
  have "store_lookup s i = None" using store_next_ok [OF assms(1,2)] assms(4) by auto
  with table.add_find [OF assms] table.add_unbind [OF assms] show ?thesis by blast
qed

definition sample_heap2 :: "nat rmv_heap" where
  "sample_heap2 = [7 \<mapsto> new_rmv\<lparr>orig_ref := Some 70\<rparr>]"

definition sample_own2 :: "nat \<Rightarrow> nat" where
  "sample_own2 = (\<lambda>_. 0)(7 := 1)"

lemma sample_store_ok: "store_ok {} sample_own2 (sample_table, sample_heap2)"
  using new_table_ok [of 2 60]
  by (simp add: store_ok_def sample_table_def counted_def sample_own2_def sample_heap2_def new_rmv_def)

lemma sample_store_room: "store_room (sample_table, sample_heap2)"
  by (simp add: store_room_def room_def sample_table_def new_table_def limit_def)

theorem add_find_remove_witness:
  "\<exists>i s1 s2. store_next (sample_table, sample_heap2) = (i, s1) \<and> bind i 7 s1 = Ok (True, s2)
     \<and> (\<exists>s3. find_rmv i s2 = Ok (Some 7, s3))"
proof -
  obtain i s1 s2 where r: "store_next (sample_table, sample_heap2) = (i, s1)" "bind i 7 s1 = Ok (True, s2)"
    using table.add_new [OF sample_store_ok sample_store_room, of 7] by (auto simp: sample_own2_def)
  with add_find_remove [OF sample_store_ok sample_store_room _ r] show ?thesis
    by (fastforce simp: sample_own2_def)
qed

lemma svc_step:
  assumes "refines s A"
  shows "\<exists>s' A'. gc_sweep ping s = Ok s' \<and> refines s' A' \<and> bound A' \<subseteq>\<^sub>m bound A
    \<and> pending A' = pending A \<and> holders A' = holders A \<and> target A' = target A
    \<and> (\<forall>i a. bound A i = Some a \<and> \<not> gone ping (target A a) \<longrightarrow> bound A' i = Some a)"
proof -
  obtain s' A' where s': "gc_sweep ping s = Ok s'" "spec_step A (Sweep ping) Unit A'" "refines s' A'"
    using sweep_simulates [of "fst s" "snd s" A ping] assms
    by (auto simp: simulates_def bindR_eq_Ok)
  from s'(2) have "A' = A\<lparr>bound := (\<lambda>i. case bound A i of None \<Rightarrow> None
       | Some a \<Rightarrow> if gone ping (target A a) then None else Some a)\<rparr>"
    by (cases rule: spec_step.cases) auto
  with s'(1,3) show ?thesis by (auto simp: map_le_def split: option.splits if_splits)
qed

text \<open>
  When no other thread uses the table meanwhile, the collector's thread never faults over any sequence of wake-ups, only removes
  mappings, leaves the pending indices and the owners outside of the table alone, and keeps every
  mapping whose object answers in each of the sweeps.
\<close>

theorem svc_removes_only_gone:
  assumes "refines s A"
  shows "\<exists>s' A'. svc ws s = Ok s' \<and> refines s' A' \<and> bound A' \<subseteq>\<^sub>m bound A
    \<and> pending A' = pending A \<and> holders A' = holders A
    \<and> (\<forall>i a. bound A i = Some a \<and> (\<forall>ping. Timeout ping \<in> set ws \<longrightarrow> \<not> gone ping (target A a))
         \<longrightarrow> bound A' i = Some a)"
  using assms
proof (induction ws arbitrary: s A)
  case (Cons w ws)
  show ?case
  proof (cases "gc_terminated (fst s) \<or> w = Signalled")
    case True
    with Cons.prems show ?thesis
      by (intro exI [of _ s] exI [of _ A]) (auto split: wakeup.split)
  next
    case False
    then obtain ping where w: "w = Timeout ping" by (cases w) auto
    obtain s1 A1 where s1: "gc_sweep ping s = Ok s1" "refines s1 A1" "bound A1 \<subseteq>\<^sub>m bound A"
      "pending A1 = pending A" "holders A1 = holders A" "target A1 = target A"
      "\<forall>i a. bound A i = Some a \<and> \<not> gone ping (target A a) \<longrightarrow> bound A1 i = Some a"
      using svc_step [OF Cons.prems] by blast
    obtain s' A' where s': "svc ws s1 = Ok s'" "refines s' A'" "bound A' \<subseteq>\<^sub>m bound A1"
      "pending A' = pending A1" "holders A' = holders A1"
      "\<forall>i a. bound A1 i = Some a \<and> (\<forall>ping. Timeout ping \<in> set ws \<longrightarrow> \<not> gone ping (target A1 a))
         \<longrightarrow> bound A' i = Some a"
      using Cons.IH [OF s1(2)] by blast
    have "bound A' \<subseteq>\<^sub>m bound A" using s1(3) s'(3) map_le_trans by blast
    then show ?thesis
      using s1 s' w False by (intro exI [of _ s'] exI [of _ A']) simp
  qed
qed auto

theorem svc_removes_only_gone_witness:
  "\<exists>s'. svc [Timeout (\<lambda>r :: nat. OtherException), Signalled] (sample_table, \<lambda>_. None) = Ok s'"
proof -
  have "refines (sample_table, \<lambda>_. None) sample_abs"
    unfolding sample_table_def sample_abs_def by (rule new_table_refines) simp
  from svc_removes_only_gone [OF this] show ?thesis by blast
qed

text \<open>
  C37: The stack of free indices is popped under \<open>high_index_lock_\<close> and pushed under \<open>gc_control_lock_\<close>.
  When an \<open>unbind\<close> comes between the read of the stack's head and the \<open>pop\<close> in \<open>next_index\<close>, the index
  that was read stays on the stack and the following \<open>next_index\<close> hands it out again, while the
  index that was unbound is lost: neither bound nor on the stack.
\<close>

theorem free_stack_race:
  assumes "store_ok pend own (t, h)" and "free_stack t = x # fs" and "lookup t i = Some a"
  shows "stack_head t = Some x \<and> (\<exists>t1. unbind i (t, h) = Ok (Some a, t1, h)
    \<and> fst (next_index (grow x (stack_pop t1))) = x
    \<and> lookup (grow x (stack_pop t1)) i = None \<and> i \<notin> set (free_stack (grow x (stack_pop t1))))"
proof -
  note tok = store_okD(1) [OF assms(1)]
  obtain t1 where t1: "unbind i (t, h) = Ok (Some a, t1, h)" "lookup t1 = (lookup t)(i := None)"
    "store_ok pend (own_add (Some a) own) (t1, h)" "free_stack t1 = i # x # fs"
    using unbind_ok [OF assms(1), of i] assms(2,3) by auto
  note tok1 = store_okD(1) [OF t1(3)]
  have "x < limit t1"
    using table_ok_free(2) [OF tok1, of x] t1(4) geometry_length [OF table_ok_geometry [OF tok1]]
    by (simp add: word_less_nat_alt)
  then have g: "grow x (stack_pop t1) = stack_pop t1" by (simp add: grow_below)
  have "lookup (stack_pop t1) i = None" using t1(2) by simp
  moreover have "i \<notin> set (x # fs)" using table_ok_free(3) [OF tok, of i] assms(2,3) by auto
  moreover have "fst (next_index (stack_pop t1)) = x"
    using t1(4) by (simp add: next_index_def stack_head_def)
  ultimately show ?thesis
    using t1(1,4) g assms(2) by (simp add: stack_head_def)
qed

text \<open>A table of two slots with the first bound to the value at 7 and the second free again.\<close>

definition raced_table :: rmv_table where
  "raced_table = \<lparr>high_index = 2, gc_period_secs = 60, gc_terminated = False, page_size = 2,
     free_stack = [1], pages = [[Some 7, None]], num_pages = 1\<rparr>"

lemma raced_store_ok: "store_ok {} (\<lambda>_. 0) (raced_table, sample_heap2)"
proof -
  have "table_ok {} raced_table"
    by (auto simp: table_ok_def raced_table_def geometry_def slots_def limit_def)
  moreover have "slot_owners raced_table = (\<lambda>a. if a = 7 then 1 else 0)"
    by (auto simp: slot_owners_def raced_table_def slots_def)
  ultimately show ?thesis
    by (simp add: store_ok_def counted_def sample_heap2_def new_rmv_def)
qed

lemma raced_lookup: "lookup raced_table 0 = Some 7"
  by (simp add: lookup_def raced_table_def slots_def)

theorem free_stack_race_witness:
  "\<exists>t1. unbind 0 (raced_table, sample_heap2) = Ok (Some 7, t1, sample_heap2)
     \<and> fst (next_index (grow 1 (stack_pop t1))) = 1"
  using free_stack_race [OF raced_store_ok _ raced_lookup, of 1 "[]"]
  by (auto simp: raced_table_def)

text \<open>
  C33: The collector spares what is alive, also while other threads use the table. In every run in which the collector's steps alternate with complete
  operations of other threads, each at a point where the collector has given up \<open>gc_control_lock_\<close> (\<open>next_index\<close>, which takes another lock, included:
  the race inside it is \<open>free_stack_race\<close>), a mapping whose object never turns out to be gone, and which the others neither unbind nor rebind, is there
  at the end with the same value and the same object; the table is in order and the collector's next step does not fault. The mapping has to be there before
  the collector takes its first step: one that is made while the collector waits for an answer about its predecessor at the same address can be removed
  (\<open>collector_reaps_new_mapping\<close>).
\<close>

theorem collector_spares:
  assumes "interleaved es (Asleep, s, A) (pc, s', A')" and "refines s A" and "bound A i = Some a" and "target A a = Some r"
    and "\<forall>ping. Collect ping \<in> set es \<longrightarrow> \<not> gone ping (Some r)" and "\<forall>b. Other (Unbind i) \<notin> set es \<and> Other (Rebind i b) \<notin> set es"
  shows "refines s' A' \<and> bound A' i = Some a \<and> target A' a = Some r \<and> (\<forall>ping. \<exists>c. gc_step ping pc s' = Ok c)"
proof -
  have start: "spared i a r (Asleep, s, A)" using assms(2-4) by (simp add: spared_def)
  have "spared i a r c'" if "interleaved es c c'" "c = (Asleep, s, A)" "\<forall>ping. Collect ping \<in> set es \<longrightarrow> \<not> gone ping (Some r)"
    "\<forall>b. Other (Unbind i) \<notin> set es \<and> Other (Rebind i b) \<notin> set es" for es c c'
    using that
  proof (induction rule: interleaved.induct)
    case (collect es c pc s A ping pc' s')
    have "\<not> gone ping (Some r)" using collect.prems(2) by simp
    moreover have "spared i a r (pc, s, A)" using collect.IH collect.prems by simp
    ultimately show ?case using collect.hyps(2) by (intro collect_spared)
  next
    case (other es c pc s A op ans s' A')
    have "op \<noteq> Unbind i" "\<forall>b. op \<noteq> Rebind i b" using other.prems(3) by auto
    then show ?case using other by (intro other_spared [of i a r pc s A op ans s' A']) auto
  qed (use start in simp)
  from this [OF assms(1) refl assms(5,6)] have sp: "spared i a r (pc, s', A')" .
  then have "\<exists>c. gc_step ping pc s' = Ok c" for ping
    using gc_step_ok [of "fst s'" "snd s'" A' pc ping] by (auto simp: spared_def)
  then show ?thesis using sp by (simp add: spared_def)
qed

definition raced_abs :: "nat abs_store" where
  "raced_abs = \<lparr>bound = [0 \<mapsto> 7], pending = {}, holders = (\<lambda>_. 0), target = map_option (\<lambda>v. 70) \<circ> sample_heap2\<rparr>"

lemma raced_refines: "refines (raced_table, sample_heap2) raced_abs"
proof -
  have "lookup raced_table i = bound raced_abs i" for i
  proof -
    have "unat i < 2 \<longleftrightarrow> i = 0 \<or> i = 1"
      by (metis One_nat_def less_2_cases unat_0 unat_1 unsigned_word_eqI zero_less_numeral one_less_numeral_iff semiring_norm(76))
    then show ?thesis by (auto simp: lookup_def raced_table_def slots_def raced_abs_def)
  qed
  then have "lookup raced_table = bound raced_abs" by blast
  then show ?thesis using raced_store_ok
    by (auto simp: refines_def raced_abs_def targets_def sample_heap2_def raced_table_def split: if_splits)
qed

theorem collector_spares_witness:
  "\<exists>s' A'. interleaved [Collect (\<lambda>r. Answer False), Collect (\<lambda>r. Answer False), Other NextIndex, Collect (\<lambda>r. Answer False)]
      (Asleep, (raced_table, sample_heap2), raced_abs) (At 0 1, s', A') \<and> bound A' 0 = Some 7 \<and> refines s' A'"
proof -
  let ?p = "\<lambda>r :: nat. Answer False" and ?s = "(raced_table, sample_heap2)" and ?A = "raced_abs\<lparr>pending := {1}\<rparr>"
  let ?c = "(Asleep, ?s, raced_abs)"
  have "fst (next_index raced_table) = 1" by (simp add: next_index_def stack_head_def raced_table_def)
  then obtain t where n: "next_index raced_table = (1, t)" by (metis prod.collapse)
  have 1: "interleaved [Collect ?p] ?c (At 0 0, ?s, raced_abs)"
    using interleaved.collect [OF interleaved.none, of ?p Asleep ?s "At 0 0" ?s raced_abs] by (simp add: raced_table_def)
  have v: "sample_heap2 7 = Some (new_rmv\<lparr>orig_ref := Some 70\<rparr>)" by (simp add: sample_heap2_def)
  have "gc_step ?p (At 0 0) ?s = Ok (Pinging 0 0 7 False, ?s)"
    using v by (simp add: raced_table_def rmv_at_def expired_def)
  from interleaved.collect [OF 1 this] have 2: "interleaved [Collect ?p, Collect ?p] ?c (Pinging 0 0 7 False, ?s, raced_abs)" by simp
  from n have e: "exec NextIndex ?s = Ok (Index 1, t, sample_heap2)" by (simp add: store_next_def)
  have "spec_step raced_abs NextIndex (Index 1) (raced_abs\<lparr>pending := insert 1 (pending raced_abs)\<rparr>)"
    by (rule spec_next) (simp_all add: raced_abs_def)
  then have sp: "spec_step raced_abs NextIndex (Index 1) ?A" by (simp add: raced_abs_def)
  have "room raced_table" by (simp add: room_def raced_table_def)
  with interleaved.other [OF 2 _ _ _ _ e sp] have 3: "interleaved [Collect ?p, Collect ?p, Other NextIndex] ?c (Pinging 0 0 7 False, (t, sample_heap2), ?A)" by simp
  from interleaved.collect [OF 3, of ?p "At 0 1" "(t, sample_heap2)"]
  have 4: "interleaved [Collect ?p, Collect ?p, Other NextIndex, Collect ?p] ?c (At 0 1, (t, sample_heap2), ?A)" by simp
  have "bound raced_abs 0 = Some 7" "target raced_abs 7 = Some 70" using v by (simp_all add: raced_abs_def)
  from collector_spares [OF 4 raced_refines this] have "refines (t, sample_heap2) ?A \<and> bound ?A 0 = Some 7" by (auto simp: gone_def)
  with 4 show ?thesis by blast
qed

text \<open>
  The recheck of the collector compares addresses only, and the collector holds no reference to
  the value while the lock is released. When the value is unbound and released meanwhile and a
  new value is created at the same address, it gets the same index, and the collector removes
  this new mapping, whose object it never pinged.
\<close>

theorem collector_reaps_new_mapping:
  assumes "store_ok pend own (t, h)" and "in_pages t (k, j)" and "pages t ! k ! j = Some a"
    and "own a + slot_owners t a = 1"
  shows "\<exists>t1 h1 t2 t3 h3 t4 h4. unbind (position t (k, j)) (t, h) = Ok (Some a, t1, h)
    \<and> decr_refcount a h = Ok (0, h1) \<and> h1 a = None
    \<and> next_index t1 = (position t (k, j), t2)
    \<and> bind (position t (k, j)) a (t2, h1(a \<mapsto> new_rmv\<lparr>orig_ref := r\<rparr>)) = Ok (True, t3, h3)
    \<and> gc_reap k j a (t3, h3) = Ok (t4, h4) \<and> lookup t4 (position t (k, j)) = None"
proof -
  let ?i = "position t (k, j)" and ?v = "new_rmv\<lparr>orig_ref := r\<rparr>"
  note ok = store_okD [OF assms(1)]
  have i: "lookup t ?i = Some a"
    using position_slot(3) [OF table_ok_geometry [OF ok(1)] assms(2)] assms(3) by simp
  obtain t1 where t1: "unbind ?i (t, h) = Ok (Some a, t1, h)" "lookup t1 = (lookup t)(?i := None)"
    "store_ok pend (own(a := own a + 1)) (t1, h)" "free_stack t1 = ?i # free_stack t"
    using unbind_ok [OF assms(1), of ?i] i by auto
  have z: "own a = 0" "slot_owners t a = 1" using assms(4) slot_owners_pos [OF i] by auto
  have z1: "slot_owners t1 a = 0"
    using counted_Some [OF ok(2), of a] counted_Some [OF store_okD(2) [OF t1(3)], of a]
      bound_live [OF assms(1) i] z by auto
  let ?o = "\<lambda>b. (own(a := own a + 1)) b + slot_owners t1 b"
  obtain h1 where h1: "decr_refcount a h = Ok (0, h1)" "counted (?o(a := 0)) h1" "h1 a = None"
    using decr_refcount_counted [OF store_okD(2) [OF t1(3)], of a] z z1 by auto
  have "counted ((?o(a := 0))(a := 1)) (h1(a \<mapsto> ?v))"
    by (rule counted_upd [OF h1(2)]) (simp_all add: new_rmv_def)
  then have c2: "counted (\<lambda>b. (own(a := 1)) b + slot_owners t1 b) (h1(a \<mapsto> ?v))"
    by (rule counted_cong) (use z z1 in auto)
  note re = next_index_reused [OF store_okD(1) [OF t1(3)] t1(4)]
  have "store_ok (insert ?i pend) (own(a := 1)) (stack_pop t1, h1(a \<mapsto> ?v))"
    using re(3) c2 by (simp add: store_ok_def)
  then obtain t3 h3 where t3: "bind ?i a (stack_pop t1, h1(a \<mapsto> ?v)) = Ok (True, t3, h3)"
    "lookup t3 = (lookup (stack_pop t1))(?i \<mapsto> a)" "store_ok (insert ?i pend - {?i}) (own(a := 1)) (t3, h3)"
    using bind_pending [of "insert ?i pend" "own(a := 1)" "stack_pop t1" "h1(a \<mapsto> ?v)" ?i a] by auto
  have shape: "page_size t3 = page_size t" "length (pages t3) = length (pages t)"
    using bind_shape [OF t3(1)] unbind_shape [OF t1(1)] by (simp_all add: stack_pop_def)
  then have pos: "position t3 = position t" "in_pages t3 (k, j)"
    using assms(2) by (auto simp: position_def in_pages_def)
  have at: "pages t3 ! k ! j = Some a"
    using position_slot(3) [OF table_ok_geometry [OF store_okD(1) [OF t3(3)]] pos(2)] t3(2) pos(1) by simp
  obtain t4 where t4: "unbind ?i (t3, h3) = Ok (Some a, t4, h3)" "lookup t4 = (lookup t3)(?i := None)"
    "store_ok (insert ?i pend - {?i}) ((own(a := 1))(a := 2)) (t4, h3)"
    using unbind_ok [OF t3(3), of ?i] t3(2) by (auto simp: numeral_2_eq_2)
  obtain n h4 where "decr_refcount a h3 = Ok (n, h4)"
    using decr_refcount_counted [OF store_okD(2) [OF t4(3)], of a] by auto
  with gc_reap_unbind [OF t3(3) pos(2) at] t4(1,2) pos(1) t1(1) h1(1,3) re(1) t3(1)
  show ?thesis by (intro exI [of _ t1] exI [of _ h1] exI [of _ "stack_pop t1"] exI [of _ t3]
        exI [of _ h3] exI [of _ t4] exI [of _ h4]) simp
qed

theorem collector_reaps_new_mapping_witness:
  "\<exists>t1 h1 t2 t3 h3 t4 h4. unbind (position raced_table (0, 0)) (raced_table, sample_heap2) = Ok (Some 7, t1, sample_heap2)
    \<and> decr_refcount 7 sample_heap2 = Ok (0, h1) \<and> h1 7 = None
    \<and> next_index t1 = (position raced_table (0, 0), t2)
    \<and> bind (position raced_table (0, 0)) 7 (t2, h1(7 \<mapsto> new_rmv\<lparr>orig_ref := Some 71\<rparr>)) = Ok (True, t3, h3)
    \<and> gc_reap 0 0 7 (t3, h3) = Ok (t4, h4) \<and> lookup t4 (position raced_table (0, 0)) = None"
  by (rule collector_reaps_new_mapping [OF raced_store_ok])
     (simp_all add: raced_table_def in_pages_def slot_owners_def slots_def)

text \<open>
  C38: The size of the table is a product of 32-bit words: the page that brings it to \<open>2 ^ 32\<close> slots
  makes it zero, and from then on no value of the table is found or removed and none can be bound.
\<close>

theorem limit_wraps:
  assumes "free_stack t = []" and "high_index t = limit t" and "limit t + page_size t = 0"
    and "next_index t = (i, t')"
  shows "limit t' = 0 \<and> find_rmv index (t', h) = Ok (None, t', h) \<and> unbind index (t', h) = Ok (None, t', h)
    \<and> bind index a (t', h) = Ok (False, t', h)"
proof -
  have "t' = grow (limit t) (t\<lparr>high_index := limit t + 1\<rparr>)"
    using assms(1,2,4) by (auto simp: next_index_def stack_head_def)
  then have "limit t' = limit t + page_size t"
    by (simp add: grow_def) (simp add: limit_def distrib_right)
  then have "limit t' = 0" using assms(3) by simp
  then show ?thesis by (simp add: find_rmv_def unbind_def bind_def)
qed

definition full_table :: rmv_table where
  "full_table = \<lparr>high_index = 0xFFFFFC00, gc_period_secs = 60, gc_terminated = False, page_size = 1024,
     free_stack = [], pages = replicate 0x3FFFFF (replicate 1024 (Some 7)), num_pages = 0x3FFFFF\<rparr>"

theorem limit_wraps_witness:
  "limit (snd (next_index full_table)) = 0"
proof -
  have "free_stack full_table = []" "high_index full_table = limit full_table"
    "limit full_table + page_size full_table = 0"
    by (simp_all add: full_table_def limit_def)
  from limit_wraps [OF this surjective_pairing] show ?thesis by blast
qed

end
