(* ===== verification/Sessions.thy ===== *)
theory Sessions
  imports PassThrough RMVStore
begin

text \<open>
  The reference mapper over sequences of calls, for a first mapper that keeps a table. The step relation \<open>session\<close> runs the operations of \<open>ReferenceMapper\<close>, the references that requests bring and the
  collector in any order, next to what the clients may expect: which server each mapped reference belongs to and under which name it was published. Shown: every mapped
  reference and every name leads to its server and to no other. Two things are no steps of a session, since they break this: the collection of a server that has a name (\<open>stale_name\<close> at the end), and
  handing in a mapped reference a second time with another free name, which the value then has in place of the first. Nor do the steps bring back or hand in as a server's a reference that was made for clients inside.
\<close>

subsection \<open>Where a name leads\<close>

text \<open>What a client outside reaches through a reference, a client inside through one, and a client outside through a name of the IOR table.\<close>

definition reached :: "('o, 'p) broker \<Rightarrow> ('o, 'p) ref_mapper \<Rightarrow> 'o \<Rightarrow> 'o option" where
  "reached br st r = (case chain_of st of [] \<Rightarrow> None | m # ms \<Rightarrow>
     (case native_for_mapped br r (out_facing_poa m) m (rmvs st) of
        Inr (True, native, h) \<Rightarrow> native
      | _ \<Rightarrow> None))"

definition reached_inside :: "('o, 'p) broker \<Rightarrow> ('o, 'p) ref_mapper \<Rightarrow> 'o \<Rightarrow> 'o option" where
  "reached_inside br st r = (case chain_of st of [] \<Rightarrow> None | m # ms \<Rightarrow>
     (case native_for_mapped br r (in_facing_poa m) m (rmvs st) of
        Inr (True, native, h) \<Rightarrow> native
      | _ \<Rightarrow> None))"

definition directory :: "('o, 'p) broker \<Rightarrow> ('o, 'p) ref_mapper \<Rightarrow> string \<Rightarrow> 'o option" where
  "directory br st name = Option.bind (Option.bind (Option.bind (ior_table st) (\<lambda>tab. tab name)) (of_ior br)) (reached br st)"

subsection \<open>Sessions\<close>

text \<open>
  The servers that are mapped, with their original and the name they were published under (empty if none), and the
  references that clients inside were given.
\<close>

record 'o clients_view =
  servers :: "'o \<rightharpoonup> 'o \<times> string"
  clients :: "'o set"

text \<open>What is left of the view when only the references that still lead somewhere are kept.\<close>

definition still_there :: "('o, 'p) broker \<Rightarrow> ('o, 'p) ref_mapper \<Rightarrow> 'o clients_view \<Rightarrow> 'o clients_view" where
  "still_there br st A = \<lparr>servers = (\<lambda>r. if reached br st r = None then None else servers A r), clients = {r \<in> clients A. reached_inside br st r \<noteq> None}\<rparr>"

text \<open>The start: an empty table, and in the IOR table only references of other POAs.\<close>

definition fresh_start :: "('o, 'p) broker \<Rightarrow> ('o, 'p) ref_mapper \<Rightarrow> bool" where
  "fresh_start br st \<longleftrightarrow> (\<exists>m ms t. chain_of st = m # ms \<and> mapped_values m = Some t \<and> lookup t = (\<lambda>_. None) \<and> store_ok {} (\<lambda>_. 0) (t, rmvs st)
     \<and> (\<forall>tab n ior r. ior_table st = Some tab \<and> tab n = Some ior \<and> of_ior br ior = Some r \<longrightarrow> ref_id br (out_facing_poa m) r = None))"

text \<open>
  A server that is not mapped yet asks for a reference, with or without security; a mapped reference is handed in again as a server's, without a name or with one that is bound; a mapped
  server is removed; a client inside has a reference of outside mapped and removed; a request brings a reference through the proxy, in either direction (\<open>pass\<close>), or a server's
  mapped reference back in (\<open>come_back\<close>); a client inside asks for the reference of a mapped server; the collector looks at one element of the table (\<open>collect\<close>), at a time
  when the servers with a name are there. The address \<open>a\<close> is the one that \<open>new\<close> gives.
\<close>

inductive session :: "('o, 'p) broker \<Rightarrow> (string \<Rightarrow> ifr_answer) \<Rightarrow> ('o, 'p) ref_mapper \<Rightarrow> 'o clients_view \<Rightarrow> bool" for br ifr where
  start: "fresh_start br st \<Longrightarrow> session br ifr st \<lparr>servers = (\<lambda>_. None), clients = {}\<rparr>"
| serve_new: "session br ifr st A \<Longrightarrow> server_ready br ifr (\<lambda>_. 0) a orig m ms t st \<Longrightarrow> secure \<longrightarrow> rm_security st \<Longrightarrow>
    serve br ifr a secure orig name agnt st = Ok (Some r, st') \<Longrightarrow>
    session br ifr st' (A\<lparr>servers := (servers A)(r \<mapsto> (original_ref br orig, if publishes name st then name else []))\<rparr>)"
| serve_again: "session br ifr st A \<Longrightarrow> servers A r = Some x \<Longrightarrow> \<not> publishes name st \<Longrightarrow> secure \<longrightarrow> rm_security st \<Longrightarrow>
    serve br ifr a secure r name agnt st = Ok (q, st') \<Longrightarrow> session br ifr st' A"
| remove: "session br ifr st A \<Longrightarrow> servers A r = Some x \<Longrightarrow> remove_server br ifr (Some r) st = Ok st' \<Longrightarrow>
    session br ifr st' (A\<lparr>servers := (servers A)(r := None)\<rparr>)"
| serve_client: "session br ifr st A \<Longrightarrow> chain_of st = m # ms \<Longrightarrow> mapped_values m = Some t \<Longrightarrow> room t \<Longrightarrow> rmvs st a = None \<Longrightarrow>
    handles ifr m (type_of br orig) \<Longrightarrow> foreign br orig \<Longrightarrow> as_client br ifr a (Some orig) st = Ok (Some r, st') \<Longrightarrow>
    session br ifr st' (A\<lparr>clients := insert r (clients A)\<rparr>)"
| pass: "session br ifr st A \<Longrightarrow> chain_of st = m # ms \<Longrightarrow> mapped_values m = Some t \<Longrightarrow> room t \<Longrightarrow> rmvs st a = None \<Longrightarrow>
    handles ifr m (type_of br orig) \<Longrightarrow> foreign br orig \<Longrightarrow>
    mapped_for_native br ifr a (Some orig) poa (in_facing_poa m) (chain_of st) (rmvs st) = Ok (True, Some r, ms', h) \<Longrightarrow>
    session br ifr (st\<lparr>chain_of := ms', rmvs := h\<rparr>) (if poa = in_facing_poa m then A\<lparr>servers := (servers A)(r \<mapsto> (original_ref br orig, []))\<rparr>
      else A\<lparr>clients := insert r (clients A)\<rparr>)"
| come_back: "session br ifr st A \<Longrightarrow> servers A r = Some x \<Longrightarrow> rmvs st a = None \<Longrightarrow> chain_of st = m # ms \<Longrightarrow> poa \<noteq> in_facing_poa m \<Longrightarrow>
    mapped_for_native br ifr a (Some r) poa (in_facing_poa m) (chain_of st) (rmvs st) = Ok (True, q, ms', h) \<Longrightarrow> session br ifr (st\<lparr>chain_of := ms', rmvs := h\<rparr>) A"
| collect: "session br ifr st A \<Longrightarrow> chain_of st = m # ms \<Longrightarrow> mapped_values m = Some t \<Longrightarrow> (k, j) \<in> set (all_slots t) \<Longrightarrow>
    gc_slot ping k j (t, rmvs st) = Ok (t', h) \<Longrightarrow> \<forall>r orig n. servers A r = Some (orig, n) \<and> n \<noteq> [] \<longrightarrow> \<not> gone ping (Some orig) \<Longrightarrow>
    st' = st\<lparr>chain_of := m\<lparr>mapped_values := Some t'\<rparr> # ms, rmvs := h\<rparr> \<Longrightarrow> session br ifr st' (still_there br st' A)"
| own_client: "session br ifr st A \<Longrightarrow> servers A r = Some x \<Longrightarrow> rmvs st a = None \<Longrightarrow> as_client br ifr a (Some r) st = Ok (q, st') \<Longrightarrow> session br ifr st' A"
| leave_client: "session br ifr st A \<Longrightarrow> r \<in> clients A \<Longrightarrow> remove_client br ifr (Some r) st = Ok st' \<Longrightarrow>
    session br ifr st' (A\<lparr>clients := clients A - {r}\<rparr>)"

subsection \<open>The invariant\<close>

text \<open>The value at an index: the reference that was made for it, what it stands for, and its name.\<close>

definition entry :: "('o, 'p) broker \<Rightarrow> (string \<Rightarrow> ifr_answer) \<Rightarrow> 'p mapper \<Rightarrow> rmv_table \<Rightarrow> 'o rmv_heap \<Rightarrow> bool \<Rightarrow> 32 word \<Rightarrow> 'o \<Rightarrow> 'o \<Rightarrow> string \<Rightarrow> bool" where
  "entry br ifr m t h f i r orig n \<longleftrightarrow> (\<exists>a v ty k. lookup t i = Some a \<and> contents h a = Some v \<and> orig_ref v = Some orig \<and> mapped_ref v = Some r
     \<and> ior_table_name v = n \<and> r = make_ref br (facing_poa f m) (oid_for br f i) ty \<and> evaluator_for ifr m ty = (Some k, m))"

definition servers_ok :: "('o, 'p) broker \<Rightarrow> (string \<Rightarrow> ifr_answer) \<Rightarrow> ('o, 'p) ref_mapper \<Rightarrow> 'o clients_view \<Rightarrow> 'p mapper \<Rightarrow> rmv_table \<Rightarrow> bool" where
  "servers_ok br ifr st A m t \<longleftrightarrow> (\<forall>r orig n. servers A r = Some (orig, n) \<longrightarrow> (\<exists>i. entry br ifr m t (rmvs st) True i r orig n)
     \<and> (n \<noteq> [] \<longrightarrow> (\<exists>tab. ior_table st = Some tab \<and> tab n = Some (to_ior br r))))"

definition clients_ok :: "('o, 'p) broker \<Rightarrow> (string \<Rightarrow> ifr_answer) \<Rightarrow> ('o, 'p) ref_mapper \<Rightarrow> 'o clients_view \<Rightarrow> 'p mapper \<Rightarrow> rmv_table \<Rightarrow> bool" where
  "clients_ok br ifr st A m t \<longleftrightarrow> (\<forall>r \<in> clients A. \<exists>i orig. entry br ifr m t (rmvs st) False i r orig [])"

text \<open>A bound name is the name of a server, or was bound by someone else.\<close>

definition names_ok :: "('o, 'p) broker \<Rightarrow> ('o, 'p) ref_mapper \<Rightarrow> 'o clients_view \<Rightarrow> 'p mapper \<Rightarrow> bool" where
  "names_ok br st A m \<longleftrightarrow> (\<forall>tab n ior. ior_table st = Some tab \<and> tab n = Some ior \<longrightarrow>
     (\<exists>r orig. n \<noteq> [] \<and> servers A r = Some (orig, n) \<and> ior = to_ior br r)
     \<or> (\<forall>r. of_ior br ior = Some r \<longrightarrow> ref_id br (out_facing_poa m) r = None))"

definition one_slot :: "rmv_table \<Rightarrow> bool" where
  "one_slot t \<longleftrightarrow> (\<forall>i j a. lookup t i = Some a \<and> lookup t j = Some a \<longrightarrow> i = j)"

definition session_inv :: "('o, 'p) broker \<Rightarrow> (string \<Rightarrow> ifr_answer) \<Rightarrow> ('o, 'p) ref_mapper \<Rightarrow> 'o clients_view \<Rightarrow> 'p mapper \<Rightarrow> 'p mapper list \<Rightarrow> rmv_table \<Rightarrow> bool" where
  "session_inv br ifr st A m ms t \<longleftrightarrow> chain_of st = m # ms \<and> mapped_values m = Some t \<and> store_ok {} (\<lambda>_. 0) (t, rmvs st)
     \<and> one_slot t \<and> servers_ok br ifr st A m t \<and> clients_ok br ifr st A m t \<and> names_ok br st A m"

lemma session_invD:
  assumes "session_inv br ifr st A m ms t"
  shows "chain_of st = m # ms" and "mapped_values m = Some t" and "store_ok {} (\<lambda>_. 0) (t, rmvs st)"
    and "one_slot t" and "servers_ok br ifr st A m t" and "clients_ok br ifr st A m t" and "names_ok br st A m"
  using assms by (simp_all add: session_inv_def)

lemma entry_own:
  assumes "broker_ok br" and "mapped_values m \<noteq> None" and "entry br ifr m t h f i r orig n"
  shows "already_mapped br m r g = (if f = g then ALREADY_MAPPED else REVERSE_MAPPED, i)"
  using already_mapped_own [OF assms(1,2)] assms(3) by (auto simp: entry_def)

lemma entry_unique:
  "entry br ifr m t h f i r orig n \<Longrightarrow> entry br ifr m t h g i q o2 n2 \<Longrightarrow> q = r"
  by (auto simp: entry_def)

lemma entry_index:
  assumes "broker_ok br" and "mapped_values m \<noteq> None" and "entry br ifr m t h f i r orig n" and "entry br ifr m t h g j r o2 n2"
  shows "i = j" and "f = g"
  using entry_own [OF assms(1-3), of f] entry_own [OF assms(1,2,4), of f] by (auto split: if_splits)

lemma entry_added:
  assumes "entry br ifr m t h f j q orig n" and "evaluator_for ifr m ty = (x, m0)" and "lookup t i = None" and "lookup t' = (lookup t)(i \<mapsto> a)"
    and "contents h a = None" and "contents h' = (contents h)(a \<mapsto> v)" and "facing_poa f m0 = facing_poa f m"
  shows "entry br ifr (m0\<lparr>mapped_values := Some t'\<rparr>) t' h' f j q orig n"
proof -
  obtain b w ty' k where e: "lookup t j = Some b" "contents h b = Some w" "orig_ref w = Some orig" "mapped_ref w = Some q" "ior_table_name w = n"
    "q = make_ref br (facing_poa f m) (oid_for br f j) ty'" "evaluator_for ifr m ty' = (Some k, m)"
    using assms(1) by (auto simp: entry_def)
  have "lookup t' j = Some b" "contents h' b = Some w" using e(1,2) assms(3-6) by auto
  moreover have "facing_poa f (m0\<lparr>mapped_values := Some t'\<rparr>) = facing_poa f m" using assms(7) by (cases f) (simp_all add: facing_poa_def)
  moreover have "evaluator_for ifr (m0\<lparr>mapped_values := Some t'\<rparr>) ty' = (Some k, m0\<lparr>mapped_values := Some t'\<rparr>)"
    by (rule evaluator_for_other(1) [OF assms(2) e(7)])
  ultimately show ?thesis using e(3-6) unfolding entry_def by metis
qed

lemma entry_removed:
  assumes "entry br ifr m t h f j q orig n" and "j \<noteq> i" and "lookup t i = Some a" and "one_slot t"
    and "lookup t' = (lookup t)(i := None)" and "contents h' = (contents h)(a := None)"
  shows "entry br ifr (m\<lparr>mapped_values := Some t'\<rparr>) t' h' f j q orig n"
proof -
  obtain b w ty' k where e: "lookup t j = Some b" "contents h b = Some w" "orig_ref w = Some orig" "mapped_ref w = Some q" "ior_table_name w = n"
    "q = make_ref br (facing_poa f m) (oid_for br f j) ty'" "evaluator_for ifr m ty' = (Some k, m)"
    using assms(1) by (auto simp: entry_def)
  have "b \<noteq> a" using assms(2-4) e(1) unfolding one_slot_def by blast
  then have "lookup t' j = Some b" "contents h' b = Some w" using e(1,2) assms(2,5,6) by auto
  moreover have "facing_poa f (m\<lparr>mapped_values := Some t'\<rparr>) = facing_poa f m" by (simp add: facing_poa_def)
  moreover have "evaluator_for ifr (m\<lparr>mapped_values := Some t'\<rparr>) ty' = (Some k, m\<lparr>mapped_values := Some t'\<rparr>)"
    by (rule evaluator_for_other(1) [OF e(7,7)])
  ultimately show ?thesis using e(3-6) unfolding entry_def by metis
qed

text \<open>A mapping is added at an index, with or without a name.\<close>

lemma inv_added:
  assumes "session_inv br ifr st A m ms t" and "broker_ok br" and "evaluator_for ifr m ty = (Some k, m0)" and "lookup t i = None"
    and "lookup t' = (lookup t)(i \<mapsto> a)" and "contents (rmvs st) a = None" and "contents (rmvs st') = (contents (rmvs st))(a \<mapsto> v)"
    and "chain_of st' = m0\<lparr>mapped_values := Some t'\<rparr> # ms" and "store_ok {} (\<lambda>_. 0) (t', rmvs st')"
    and "orig_ref v = Some orig" and "mapped_ref v = Some r" and "r = make_ref br (facing_poa f m) (oid_for br f i) ty"
    and "if f then A' = A\<lparr>servers := (servers A)(r \<mapsto> (orig, n))\<rparr> else A' = A\<lparr>clients := insert r (clients A)\<rparr> \<and> n = []"
    and "ior_table_name v = n" and "ior_table st' = (if n = [] then ior_table st else map_option (\<lambda>tab. tab(n \<mapsto> to_ior br r)) (ior_table st))"
    and "n \<noteq> [] \<longrightarrow> (\<exists>tab. ior_table st = Some tab \<and> tab n = None)"
  shows "session_inv br ifr st' A' (m0\<lparr>mapped_values := Some t'\<rparr>) ms t'"
proof -
  let ?m = "m0\<lparr>mapped_values := Some t'\<rparr>"
  note I = session_invD [OF assms(1)]
  note again = evaluator_for_again [OF assms(3)]
  have poas: "facing_poa g ?m = facing_poa g m" "facing_poa g m0 = facing_poa g m" for g using again(3,4) by (simp_all add: facing_poa_def)
  have old: "entry br ifr ?m t' (rmvs st') g j q x y" if "entry br ifr m t (rmvs st) g j q x y" for g j q x y
    by (rule entry_added [OF that assms(3-7) poas(2)])
  have new: "entry br ifr ?m t' (rmvs st') f i r orig n"
    using assms(5,7,10-12,14) again(1) poas unfolding entry_def by auto
  have mv: "mapped_values ?m \<noteq> None" by simp
  have other: "q \<noteq> r" if e: "entry br ifr m t (rmvs st) g j q x y" for g j q x y
  proof
    assume "q = r"
    from old [OF e] have "entry br ifr ?m t' (rmvs st') g j r x y" unfolding \<open>q = r\<close> .
    from entry_index(1) [OF assms(2) mv this new] have "j = i" .
    then show False using e assms(4) by (simp add: entry_def)
  qed
  have srv: "servers A r = None"
  proof (cases "servers A r")
    case (Some x)
    then obtain j where "entry br ifr m t (rmvs st) True j r (fst x) (snd x)" using I(5) unfolding servers_ok_def by (metis prod.collapse)
    then show ?thesis using other by blast
  qed
  have "rmvs st a = None" using assms(6) by (simp add: contents_def)
  then have "lookup t j \<noteq> Some a" for j by (rule fresh_address(2) [OF I(3)])
  then have inj: "one_slot t'" using I(4) assms(4,5) by (auto simp: one_slot_def split: if_splits)
  have kept: "\<exists>tab'. ior_table st' = Some tab' \<and> tab' x = Some y" if "ior_table st = Some tab" "tab x = Some y" for tab x y
    using that assms(15,16) by auto
  have "servers_ok br ifr st' A' ?m t'" unfolding servers_ok_def
  proof (intro allI impI)
    fix q x y assume q: "servers A' q = Some (x, y)"
    show "(\<exists>i. entry br ifr ?m t' (rmvs st') True i q x y) \<and> (y \<noteq> [] \<longrightarrow> (\<exists>tab. ior_table st' = Some tab \<and> tab y = Some (to_ior br q)))"
    proof (cases "servers A q = Some (x, y)")
      case True
      then show ?thesis using I(5) old kept unfolding servers_ok_def by meson
    next
      case False
      then have "f" "q = r" "x = orig" "y = n" using q assms(13) by (auto split: if_splits)
      then show ?thesis using new assms(15,16) by auto
    qed
  qed
  moreover have "clients_ok br ifr st' A' ?m t'" unfolding clients_ok_def
  proof
    fix q assume "q \<in> clients A'"
    then have "q \<in> clients A \<or> q = r \<and> \<not> f \<and> n = []" using assms(13) by (auto split: if_splits)
    then show "\<exists>i orig. entry br ifr ?m t' (rmvs st') False i q orig []" using I(6) old new unfolding clients_ok_def by metis
  qed
  moreover have "names_ok br st' A' ?m" unfolding names_ok_def
  proof (intro allI impI)
    fix tab' x ior assume x: "ior_table st' = Some tab' \<and> tab' x = Some ior"
    show "(\<exists>r orig. x \<noteq> [] \<and> servers A' r = Some (orig, x) \<and> ior = to_ior br r) \<or> (\<forall>r. of_ior br ior = Some r \<longrightarrow> ref_id br (out_facing_poa ?m) r = None)"
    proof (cases "n \<noteq> [] \<and> x = n")
      case True
      then have "f" "ior = to_ior br r" using x assms(13,15) by (auto split: if_splits)
      then show ?thesis using True assms(13) by auto
    next
      case False
      then obtain tab where "ior_table st = Some tab" "tab x = Some ior" using x assms(15) by (auto split: if_splits)
      then have "(\<exists>q orig. x \<noteq> [] \<and> servers A q = Some (orig, x) \<and> ior = to_ior br q) \<or> (\<forall>r. of_ior br ior = Some r \<longrightarrow> ref_id br (out_facing_poa m) r = None)"
        using I(7) unfolding names_ok_def by blast
      moreover have "servers A' q = Some y" if "servers A q = Some y" for q y using that srv assms(13) by (auto split: if_splits)
      moreover have "out_facing_poa ?m = out_facing_poa m" using again(4) by simp
      ultimately show ?thesis by (elim disjE exE conjE) (blast, simp)
    qed
  qed
  ultimately show ?thesis using assms(8,9) inj by (simp add: session_inv_def)
qed

text \<open>A mapping is removed, with its name.\<close>

lemma inv_removed:
  assumes "session_inv br ifr st A m ms t" and "broker_ok br" and "entry br ifr m t (rmvs st) f i r orig n" and "lookup t i = Some a"
    and "lookup t' = (lookup t)(i := None)" and "contents (rmvs st') = (contents (rmvs st))(a := None)"
    and "chain_of st' = m\<lparr>mapped_values := Some t'\<rparr> # ms" and "store_ok {} (\<lambda>_. 0) (t', rmvs st')"
    and "ior_table st' = (if n = [] then ior_table st else map_option (\<lambda>tab. tab(n := None)) (ior_table st))"
    and "if f then A' = A\<lparr>servers := (servers A)(r := None)\<rparr> \<and> servers A r = Some (orig, n) else A' = A\<lparr>clients := clients A - {r}\<rparr> \<and> n = []"
  shows "session_inv br ifr st' A' (m\<lparr>mapped_values := Some t'\<rparr>) ms t'"
proof -
  let ?m = "m\<lparr>mapped_values := Some t'\<rparr>"
  note I = session_invD [OF assms(1)]
  have mv: "mapped_values m \<noteq> None" using I(2) by simp
  have old: "entry br ifr ?m t' (rmvs st') g j q x y" if e: "entry br ifr m t (rmvs st) g j q x y" and "q \<noteq> r \<or> g \<noteq> f" for g j q x y
  proof -
    have "j \<noteq> i"
    proof
      assume "j = i"
      then have "q = r" using entry_unique [OF assms(3)] e by blast
      then show False using entry_index(2) [OF assms(2) mv assms(3)] e that(2) by blast
    qed
    from entry_removed [OF e this assms(4) I(4) assms(5,6)] show ?thesis .
  qed
  have keep: "\<exists>tab'. ior_table st' = Some tab' \<and> tab' x = Some y" if "ior_table st = Some tab" "tab x = Some y" "x \<noteq> n \<or> n = []" for tab x y
    using that assms(9) by auto
  have inj: "one_slot t'" using I(4) assms(5) by (auto simp: one_slot_def split: if_splits)
  have bound: "f \<and> (\<exists>tab. ior_table st = Some tab \<and> tab n = Some (to_ior br r))" if "n \<noteq> []"
    using that assms(10) I(5) unfolding servers_ok_def by (meson option.distinct(1))
  have same: "q = r" if "to_ior br q = to_ior br r" for q using that assms(2) unfolding broker_ok_def by (metis option.inject)
  have "servers_ok br ifr st' A' ?m t'" unfolding servers_ok_def
  proof (intro allI impI)
    fix q x y assume q: "servers A' q = Some (x, y)"
    then have qA: "servers A q = Some (x, y)" "q \<noteq> r \<or> True \<noteq> f" using assms(10) by (auto split: if_splits)
    obtain j where j: "entry br ifr m t (rmvs st) True j q x y" and tab: "y \<noteq> [] \<longrightarrow> (\<exists>tab. ior_table st = Some tab \<and> tab y = Some (to_ior br q))"
      using I(5) qA(1) unfolding servers_ok_def by blast
    have "\<exists>tab. ior_table st' = Some tab \<and> tab y = Some (to_ior br q)" if ne: "y \<noteq> []"
    proof -
      obtain tb where t: "ior_table st = Some tb" "tb y = Some (to_ior br q)" using mp [OF tab ne] by blast
      have "y \<noteq> n \<or> n = []"
      proof (rule ccontr)
        assume "\<not> (y \<noteq> n \<or> n = [])"
        then have "y = n" "n \<noteq> []" by simp_all
        then have "f" "to_ior br q = to_ior br r" using bound t by auto
        then show False using same qA(2) by blast
      qed
      from keep [OF t this] show ?thesis .
    qed
    then show "(\<exists>i. entry br ifr ?m t' (rmvs st') True i q x y) \<and> (y \<noteq> [] \<longrightarrow> (\<exists>tab. ior_table st' = Some tab \<and> tab y = Some (to_ior br q)))"
      using old [OF j qA(2)] by blast
  qed
  moreover have "clients_ok br ifr st' A' ?m t'" unfolding clients_ok_def
  proof
    fix q assume "q \<in> clients A'"
    then have q: "q \<in> clients A" "q \<noteq> r \<or> False \<noteq> f" using assms(10) by (auto split: if_splits)
    then obtain j x where "entry br ifr m t (rmvs st) False j q x []" using I(6) unfolding clients_ok_def by blast
    from old [OF this q(2)] show "\<exists>i orig. entry br ifr ?m t' (rmvs st') False i q orig []" by blast
  qed
  moreover have "names_ok br st' A' ?m" unfolding names_ok_def
  proof (intro allI impI)
    fix tab' x ior assume "ior_table st' = Some tab' \<and> tab' x = Some ior"
    then obtain tab where x: "ior_table st = Some tab" "tab x = Some ior" "x \<noteq> n \<or> n = []" using assms(9) by (auto split: if_splits)
    then have "(\<exists>q orig. x \<noteq> [] \<and> servers A q = Some (orig, x) \<and> ior = to_ior br q) \<or> (\<forall>r. of_ior br ior = Some r \<longrightarrow> ref_id br (out_facing_poa m) r = None)"
      using I(7) unfolding names_ok_def by blast
    moreover have "servers A' q = Some (y, x)" if "servers A q = Some (y, x)" "x \<noteq> []" for q y
      using that x(3) assms(10) by (auto split: if_splits)
    moreover have "out_facing_poa ?m = out_facing_poa m" by simp
    ultimately show "(\<exists>r orig. x \<noteq> [] \<and> servers A' r = Some (orig, x) \<and> ior = to_ior br r) \<or> (\<forall>r. of_ior br ior = Some r \<longrightarrow> ref_id br (out_facing_poa ?m) r = None)"
      by (elim disjE exE conjE) (blast, simp)
  qed
  ultimately show ?thesis using assms(7,8) inj by (simp add: session_inv_def)
qed

text \<open>Only three fields of a value matter.\<close>

lemma entry_fields:
  "entry br ifr m t h f i r orig n \<longleftrightarrow> (\<exists>a ty k. lookup t i = Some a \<and> map_option (\<lambda>v. (orig_ref v, mapped_ref v, ior_table_name v)) (contents h a) = Some (Some orig, Some r, n)
     \<and> r = make_ref br (facing_poa f m) (oid_for br f i) ty \<and> evaluator_for ifr m ty = (Some k, m))"
  by (auto simp: entry_def)

lemma inv_same_entries:
  assumes "session_inv br ifr st A m ms t" and "\<And>f i r orig n. entry br ifr m t h f i r orig n = entry br ifr m t (rmvs st) f i r orig n"
    and "store_ok {} (\<lambda>_. 0) (t, h)" and "chain_of st' = chain_of st" and "ior_table st' = ior_table st" and "rmvs st' = h"
  shows "session_inv br ifr st' A m ms t"
proof -
  note I = session_invD [OF assms(1)]
  have "servers_ok br ifr st' A m t" using I(5) unfolding servers_ok_def assms(2,5,6) .
  moreover have "clients_ok br ifr st' A m t" using I(6) unfolding clients_ok_def assms(2,6) .
  moreover have "names_ok br st' A m" using I(7) unfolding names_ok_def assms(5) .
  ultimately show ?thesis using I(1,2,4) assms(3,4,6) by (simp add: session_inv_def)
qed

lemma inv_contents:
  assumes "session_inv br ifr st A m ms t" and "contents h = contents (rmvs st)" and "store_ok {} (\<lambda>_. 0) (t, h)"
  shows "session_inv br ifr (st\<lparr>rmvs := h\<rparr>) A m ms t"
  by (rule inv_same_entries [OF assms(1) _ assms(3)]) (simp_all add: entry_def assms(2))

text \<open>Mappings without a name are removed; \<open>A'\<close> is what is left.\<close>

lemma inv_kept:
  assumes "session_inv br ifr st A m ms t" and "m' = m\<lparr>mapped_values := Some t'\<rparr>" and "chain_of st' = m' # ms" and "store_ok {} (\<lambda>_. 0) (t', rmvs st')"
    and "one_slot t'" and "ior_table st' = ior_table st" and "servers A' \<subseteq>\<^sub>m servers A"
    and "\<And>r x. servers A' r = Some x \<Longrightarrow> \<exists>i. entry br ifr m' t' (rmvs st') True i r (fst x) (snd x)"
    and "\<And>r. r \<in> clients A' \<Longrightarrow> \<exists>i orig. entry br ifr m' t' (rmvs st') False i r orig []"
    and "\<And>r orig n. servers A r = Some (orig, n) \<Longrightarrow> n \<noteq> [] \<Longrightarrow> servers A' r = Some (orig, n)"
  shows "session_inv br ifr st' A' m' ms t'"
proof -
  note I = session_invD [OF assms(1)]
  have "servers_ok br ifr st' A' m' t'" unfolding servers_ok_def
  proof (intro allI impI)
    fix r orig n assume r: "servers A' r = Some (orig, n)"
    then have "servers A r = Some (orig, n)" using assms(7) by (metis map_le_def domI)
    then have "n \<noteq> [] \<longrightarrow> (\<exists>tab. ior_table st' = Some tab \<and> tab n = Some (to_ior br r))" using I(5) unfolding servers_ok_def assms(6) by blast
    with assms(8) [OF r] show "(\<exists>i. entry br ifr m' t' (rmvs st') True i r orig n) \<and> (n \<noteq> [] \<longrightarrow> (\<exists>tab. ior_table st' = Some tab \<and> tab n = Some (to_ior br r)))" by simp
  qed
  moreover have "clients_ok br ifr st' A' m' t'" using assms(9) unfolding clients_ok_def by blast
  moreover have "names_ok br st' A' m'" unfolding names_ok_def
  proof (intro allI impI)
    fix tab n ior assume "ior_table st' = Some tab \<and> tab n = Some ior"
    then have "(\<exists>r orig. n \<noteq> [] \<and> servers A r = Some (orig, n) \<and> ior = to_ior br r) \<or> (\<forall>r. of_ior br ior = Some r \<longrightarrow> ref_id br (out_facing_poa m) r = None)"
      using I(7) unfolding names_ok_def assms(6) by blast
    moreover have "out_facing_poa m' = out_facing_poa m" using assms(2) by simp
    ultimately show "(\<exists>r orig. n \<noteq> [] \<and> servers A' r = Some (orig, n) \<and> ior = to_ior br r) \<or> (\<forall>r. of_ior br ior = Some r \<longrightarrow> ref_id br (out_facing_poa m') r = None)"
      using assms(10) by metis
  qed
  ultimately show ?thesis using assms(2-5) by (simp add: session_inv_def)
qed

subsection \<open>The steps keep it\<close>

text \<open>A foreign reference is mapped for the side \<open>f\<close>, and the caller's own pointer to the value goes away.\<close>

lemma map_foreign_inv:
  assumes "session_inv br ifr st A m ms t" and "broker_ok br" and "room t" and "rmvs st a = None" and "handles ifr m (type_of br orig)" and "foreign br orig"
  shows "\<exists>t' h1 h2 m0 w r. map_reference br ifr a orig f sec (chain_of st) (rmvs st) = Ok (Some a, m0\<lparr>mapped_values := Some t'\<rparr> # ms, h1)
    \<and> h1 a = Some w \<and> mapped_ref w = Some r \<and> var_dtor (Some a) h1 = Ok h2
    \<and> session_inv br ifr (st\<lparr>chain_of := m0\<lparr>mapped_values := Some t'\<rparr> # ms, rmvs := h2\<rparr>)
        (if f then A\<lparr>servers := (servers A)(r \<mapsto> (original_ref br orig, []))\<rparr> else A\<lparr>clients := insert r (clients A)\<rparr>)
        (m0\<lparr>mapped_values := Some t'\<rparr>) ms t'"
proof -
  note I = session_invD [OF assms(1)]
  let ?ty = "type_of br orig" and ?own = "(\<lambda>_. 0) :: nat \<Rightarrow> nat"
  obtain k m0 where ev: "evaluator_for ifr m ?ty = (Some k, m0)" using assms(5) by (cases "evaluator_for ifr m ?ty") (auto simp: handles_def)
  note again = evaluator_for_again [OF ev]
  have m0: "mapped_values m0 = Some t" using again(2) I(2) by simp
  note fresh = fresh_address [OF I(3) assms(4)]
  obtain i t' h1 where u: "add_native_unchecked br a orig ?ty f sec m0 (rmvs st) = Ok (a, m0\<lparr>mapped_values := Some t'\<rparr>, h1)"
    "lookup t i = None" "lookup t' = (lookup t)(i \<mapsto> a)" "store_ok {} (?own(a := 1)) (t', h1)"
    "contents h1 = (contents (rmvs st))(a \<mapsto> (native_value br m0 orig (oid_for br f i) ?ty f sec)\<lparr>ref_count := 0\<rparr>)"
    using add_native_unchecked_ok [OF m0 I(3) assms(3,4)] by blast
  let ?m = "m0\<lparr>mapped_values := Some t'\<rparr>" and ?v = "(native_value br m0 orig (oid_for br f i) ?ty f sec)\<lparr>ref_count := 0\<rparr>"
  let ?r = "make_ref br (facing_poa f m) (oid_for br f i) ?ty"
  have poa: "facing_poa f m0 = facing_poa f m" using again(3,4) by (simp add: facing_poa_def)
  have v: "orig_ref ?v = Some (original_ref br orig)" "mapped_ref ?v = Some ?r" "ior_table_name ?v = []"
    using poa by (simp_all add: native_value_def new_rmv_def)
  have "0 < ?own a + slot_owners t' a" using slot_owners_pos [of t' i a] u(3) by simp
  then obtain h2 where d: "var_dtor (Some a) h1 = Ok h2" "store_ok {} ?own (t', h2)" "contents h2 = contents h1"
    using drop_found [of "{}" ?own a t' h1] u(4) by auto
  have "contents h1 a = Some ?v" using u(5) by simp
  then obtain w where w: "h1 a = Some w" "mapped_ref w = Some ?r"
    using contents_Some [of h1 a ?v] v(2) by auto
  have "fst (already_mapped br m0 orig f) = NOT_MAPPED" using foreign_not_mapped [OF assms(6)] .
  then have run: "map_reference br ifr a orig f sec (chain_of st) (rmvs st) = Ok (Some a, ?m # ms, h1)"
    using ev u(1) I(1) by (cases "already_mapped br m0 orig f") (simp add: map_reference_def)
  let ?st = "st\<lparr>chain_of := ?m # ms, rmvs := h2\<rparr>"
  let ?A = "if f then A\<lparr>servers := (servers A)(?r \<mapsto> (original_ref br orig, []))\<rparr> else A\<lparr>clients := insert ?r (clients A)\<rparr>"
  have c: "contents (rmvs ?st) = (contents (rmvs st))(a \<mapsto> ?v)" using d(3) u(5) by simp
  have "session_inv br ifr ?st ?A ?m ms t'"
    by (rule inv_added [OF assms(1,2) ev u(2,3) fresh(3) c _ _ v(1,2) refl _ v(3)]) (use d(2) in simp_all)
  then show ?thesis using run w d(1) by blast
qed

lemma entry_remove:
  assumes "session_inv br ifr st A m ms t" and "broker_ok br" and "entry br ifr m t (rmvs st) f i r orig n"
  obtains a k v where "lookup t i = Some a" and "contents (rmvs st) a = Some v" and "ior_table_name v = n" and "orig_ref v = Some orig" and "mapped_ref v = Some r"
    and "r = make_ref br (facing_poa f m) (oid_for br f i) (type_of br r)" and "evaluator_for ifr m (type_of br r) = (Some k, m)"
    and "\<forall>j. lookup t j = Some a \<longrightarrow> j = i"
proof -
  obtain a v ty k where e: "lookup t i = Some a" "contents (rmvs st) a = Some v" "orig_ref v = Some orig" "mapped_ref v = Some r" "ior_table_name v = n"
    "r = make_ref br (facing_poa f m) (oid_for br f i) ty" "evaluator_for ifr m ty = (Some k, m)"
    using assms(3) by (auto simp: entry_def)
  have "type_of br r = ty" using assms(2) e(6) by (simp add: broker_ok_def)
  moreover have "\<forall>j. lookup t j = Some a \<longrightarrow> j = i" using session_invD(4) [OF assms(1)] e(1) unfolding one_slot_def by blast
  ultimately show ?thesis using that e by blast
qed

lemma remove_server_inv:
  assumes "session_inv br ifr st A m ms t" and "broker_ok br" and "servers A r = Some (orig, n)"
  shows "\<exists>st' t'. remove_server br ifr (Some r) st = Ok st' \<and> session_inv br ifr st' (A\<lparr>servers := (servers A)(r := None)\<rparr>) (m\<lparr>mapped_values := Some t'\<rparr>) ms t'"
proof -
  note I = session_invD [OF assms(1)]
  obtain i where i: "entry br ifr m t (rmvs st) True i r orig n" and tab: "n \<noteq> [] \<longrightarrow> (\<exists>tab. ior_table st = Some tab \<and> tab n \<noteq> None)"
    using I(5) assms(3) unfolding servers_ok_def by (metis option.distinct(1))
  obtain a k v where e: "lookup t i = Some a" "contents (rmvs st) a = Some v" "ior_table_name v = n"
    "r = make_ref br (facing_poa True m) (oid_for br True i) (type_of br r)" "evaluator_for ifr m (type_of br r) = (Some k, m)"
    "\<forall>j. lookup t j = Some a \<longrightarrow> j = i"
    by (rule entry_remove [OF assms(1,2) i]) blast
  have r: "server_ref br r m i = r" using e(4) by (simp add: server_ref_def facing_poa_def)
  from remove_server_ok [OF assms(2) I(1,2) e(5) I(3) e(1) refl e(6,2,3) tab] obtain t' h where
    s: "remove_server br ifr (Some r) st = Ok (st\<lparr>chain_of := m\<lparr>mapped_values := Some t'\<rparr> # ms, rmvs := h,
      ior_table := if n = [] then ior_table st else map_option (\<lambda>tab. tab(n := None)) (ior_table st)\<rparr>)" (is "_ = Ok ?st")
    "lookup t' = (lookup t)(i := None)" "store_ok {} (\<lambda>_. 0) (t', h)" "contents h = (contents (rmvs st))(a := None)"
    unfolding r by blast
  have "session_inv br ifr ?st (A\<lparr>servers := (servers A)(r := None)\<rparr>) (m\<lparr>mapped_values := Some t'\<rparr>) ms t'"
    by (rule inv_removed [OF assms(1,2) i e(1) s(2)]) (use s(3,4) assms(3) in simp_all)
  then show ?thesis using s(1) by blast
qed

lemma remove_client_inv:
  assumes "session_inv br ifr st A m ms t" and "broker_ok br" and "r \<in> clients A"
  shows "\<exists>st' t'. remove_client br ifr (Some r) st = Ok st' \<and> session_inv br ifr st' (A\<lparr>clients := clients A - {r}\<rparr>) (m\<lparr>mapped_values := Some t'\<rparr>) ms t'"
proof -
  note I = session_invD [OF assms(1)]
  obtain i orig where i: "entry br ifr m t (rmvs st) False i r orig []" using I(6) assms(3) unfolding clients_ok_def by blast
  obtain a k v where e: "lookup t i = Some a" "contents (rmvs st) a = Some v"
    "r = make_ref br (facing_poa False m) (oid_for br False i) (type_of br r)" "evaluator_for ifr m (type_of br r) = (Some k, m)"
    "\<forall>j. lookup t j = Some a \<longrightarrow> j = i"
    by (rule entry_remove [OF assms(1,2) i]) blast
  obtain t' where u: "unbind i (t, rmvs st) = Ok (Some a, t', rmvs st)" "lookup t' = (lookup t)(i := None)"
    "store_ok {} ((\<lambda>_. 0)(a := 0 + 1)) (t', rmvs st)"
    using unbind_ok [OF I(3), of i] e(1) by auto
  have "\<forall>j. lookup t' j \<noteq> Some a" using u(2) e(5) by auto
  then obtain h where d: "var_dtor (Some a) (rmvs st) = Ok h" "store_ok {} (\<lambda>_. 0) (t', h)" "contents h = (contents (rmvs st))(a := None)"
    using drop_last [OF u(3) refl] by blast
  have "ref_id br (facing_poa False m) r = Some (oid_for br False i)" using assms(2) e(3) unfolding broker_ok_def by metis
  then have run: "remove_client br ifr (Some r) st = Ok (st\<lparr>chain_of := m\<lparr>mapped_values := Some t'\<rparr> # ms, rmvs := h\<rparr>)" (is "_ = Ok ?st")
    using I(1,2) e(4) u(1) d(1) by (simp add: remove_client_def remove_reference_def oid_for_facts(4) leave_def)
  have "session_inv br ifr ?st (A\<lparr>clients := clients A - {r}\<rparr>) (m\<lparr>mapped_values := Some t'\<rparr>) ms t'"
    by (rule inv_removed [OF assms(1,2) i e(1) u(2)]) (use d(2,3) in simp_all)
  then show ?thesis using run by blast
qed

lemma serve_inv:
  assumes "session_inv br ifr st A m ms t" and "broker_ok br" and "server_ready br ifr own a orig m ms t st" and "own = (\<lambda>_. 0)" and "secure \<longrightarrow> rm_security st"
  shows "\<exists>r st' t'. serve br ifr a secure orig name agnt st = Ok (Some r, st')
    \<and> session_inv br ifr st' (A\<lparr>servers := (servers A)(r \<mapsto> (original_ref br orig, if publishes name st then name else []))\<rparr>)
        (server_mapper ifr (type_of br orig) t' m) ms t'"
proof -
  let ?i = "fst (next_index t)" and ?ty = "type_of br orig" and ?n = "if publishes name st then name else []"
  let ?r = "server_ref br orig m ?i" and ?v = "server_value br m orig ?i secure ?n agnt"
  from as_server_i_fresh [OF assms(2,3) refl, of secure name agnt] obtain t' h al where
    s: "as_server_i br ifr a secure orig name agnt st = Ok (Some ?r, st\<lparr>chain_of := server_mapper ifr ?ty t' m # ms, rmvs := h,
      ior_table := published br name ?r st, allowed := allowed st @ al\<rparr>)" (is "_ = Ok (_, ?st)")
    "lookup t ?i = None" "lookup t' = (lookup t)(?i \<mapsto> a)" "store_ok {} own (t', h)" "contents h = (contents (rmvs st))(a \<mapsto> ?v)"
    by blast
  have ready: "rmvs st a = None" "fst (evaluator_for ifr m ?ty) \<noteq> None" using assms(3) by (auto simp: server_ready_def)
  obtain k m0 where ev: "evaluator_for ifr m ?ty = (Some k, m0)" using ready(2) by (cases "evaluator_for ifr m ?ty") auto
  have sm: "server_mapper ifr ?ty t' m = m0\<lparr>mapped_values := Some t'\<rparr>" using ev by (simp add: server_mapper_def)
  have c: "contents (rmvs st) a = None" using ready(1) by (simp add: contents_def)
  have v: "orig_ref ?v = Some (original_ref br orig)" "mapped_ref ?v = Some ?r" "ior_table_name ?v = ?n"
    by (simp_all add: server_value_def native_value_def server_ref_def facing_poa_def)
  have pub: "ior_table ?st = (if ?n = [] then ior_table st else map_option (\<lambda>tab. tab(?n \<mapsto> to_ior br ?r)) (ior_table st))"
    "?n \<noteq> [] \<longrightarrow> (\<exists>tab. ior_table st = Some tab \<and> tab ?n = None)"
    by (auto simp: published_def publishes_def split: option.splits)
  have "session_inv br ifr ?st (A\<lparr>servers := (servers A)(?r \<mapsto> (original_ref br orig, ?n))\<rparr>) (m0\<lparr>mapped_values := Some t'\<rparr>) ms t'"
    by (rule inv_added [OF assms(1,2) ev s(2,3) c _ _ _ v(1,2) _ _ v(3) pub, where f = True])
      (use s(4,5) sm assms(4) in \<open>simp_all add: server_ref_def facing_poa_def\<close>)
  then have "session_inv br ifr ?st (A\<lparr>servers := (servers A)(?r \<mapsto> (original_ref br orig, ?n))\<rparr>) (server_mapper ifr ?ty t' m) ms t'" unfolding sm .
  with s(1) show ?thesis unfolding serve_i [OF assms(5)] by (intro exI conjI)
qed

lemma own_client_inv:
  assumes "session_inv br ifr st A m ms t" and "broker_ok br" and "servers A r = Some (orig, n)" and "rmvs st b = None"
  shows "\<exists>h. as_client br ifr b (Some r) st = Ok (Some orig, st\<lparr>rmvs := h\<rparr>) \<and> session_inv br ifr (st\<lparr>rmvs := h\<rparr>) A m ms t"
proof -
  note I = session_invD [OF assms(1)]
  obtain i where i: "entry br ifr m t (rmvs st) True i r orig n" using I(5) assms(3) unfolding servers_ok_def by blast
  obtain a k v where e: "lookup t i = Some a" "contents (rmvs st) a = Some v" "orig_ref v = Some orig"
    "r = make_ref br (facing_poa True m) (oid_for br True i) (type_of br r)" "evaluator_for ifr m (type_of br r) = (Some k, m)"
    by (rule entry_remove [OF assms(1,2) i]) blast
  have v: "v\<lparr>ref_count := 0\<rparr> = v" using e(2) by (cases "rmvs st a") (auto simp: contents_def)
  note fresh = fresh_address [OF I(3) assms(4)]
  from add_native_reverse [OF assms(2) I(2,3) e(1,5) assms(4), of v "facing_poa True m" True False ms]
  obtain h1 w where w: "add_native br ifr b r (type_of br r) False False (m # ms) (rmvs st) = Ok (Some b, m # ms, h1)" "h1 b = Some w"
    "mapped_ref w = Some orig" "store_ok {} ((\<lambda>_. 0)(b := 0 + 1)) (t, h1)" "contents h1 = (contents (rmvs st))(b \<mapsto> w\<lparr>ref_count := 0\<rparr>)"
    using e(2,3) v unfolding e(4) [symmetric] by auto
  from drop_last [OF w(4) refl] obtain h2 where d: "var_dtor (Some b) h1 = Ok h2" "store_ok {} (\<lambda>_. 0) (t, h2)" "contents h2 = (contents h1)(b := None)"
    using fresh(2) by blast
  have st: "st\<lparr>chain_of := m # ms, rmvs := h2\<rparr> = st\<lparr>rmvs := h2\<rparr>" using I(1) by (cases st) simp
  have run: "as_client br ifr b (Some r) st = Ok (Some orig, st\<lparr>rmvs := h2\<rparr>)"
    using w(1-3) d(1) I(1) st by (simp add: as_client_def map_client_def map_reference_def rmv_at_def leave_def)
  have "contents h2 = contents (rmvs st)" using d(3) w(5) fresh(3) by (auto simp: fun_eq_iff)
  with run inv_contents [OF assms(1) _ d(2)] show ?thesis by blast
qed

lemma serve_again_inv:
  assumes "session_inv br ifr st A m ms t" and "broker_ok br" and "servers A r = Some (orig, n)" and "\<not> publishes name st" and "secure \<longrightarrow> rm_security st"
  shows "\<exists>h al. serve br ifr b secure r name agnt st = Ok (Some r, st\<lparr>rmvs := h, allowed := al\<rparr>)
    \<and> session_inv br ifr (st\<lparr>rmvs := h, allowed := al\<rparr>) A m ms t"
proof -
  note I = session_invD [OF assms(1)]
  let ?ty = "type_of br r" and ?own = "(\<lambda>_. 0) :: nat \<Rightarrow> nat"
  obtain i where i: "entry br ifr m t (rmvs st) True i r orig n" using I(5) assms(3) unfolding servers_ok_def by blast
  obtain a k v where e: "lookup t i = Some a" "contents (rmvs st) a = Some v" "mapped_ref v = Some r"
    "r = make_ref br (facing_poa True m) (oid_for br True i) ?ty" "evaluator_for ifr m ?ty = (Some k, m)"
    by (rule entry_remove [OF assms(1,2) i]) blast
  obtain h where f: "mapper_find i m (rmvs st) = Ok (Some a, h)" "contents h = contents (rmvs st)" "store_ok {} (?own(a := ?own a + 1)) (t, h)"
    using mapper_find_ok [OF I(2,3), of i] e(1) by auto
  have am: "already_mapped br m r True = (ALREADY_MAPPED, i)" using entry_own [OF assms(2) _ i, of True] I(2) by simp
  have map: "map_reference br ifr b r True secure (chain_of st) (rmvs st) = Ok (Some a, m # ms, h)"
    using e(5) am f(1) I(1) by (simp add: map_reference_def)
  have "contents h a = Some v" using f(2) e(2) by simp
  then obtain w where w: "h a = Some w" "w\<lparr>ref_count := 0\<rparr> = v" by (cases "h a") (auto simp: contents_def)
  have wr: "mapped_ref w = Some r" using w(2) e(3) by auto
  let ?s1 = "st\<lparr>chain_of := m # ms, rmvs := h\<rparr>"
  have s1: "?s1 = st\<lparr>rmvs := h\<rparr>" using I(1) by (cases st) simp
  have bn: "bind_name br a r name (st\<lparr>rmvs := h\<rparr>) = Ok (st\<lparr>rmvs := h\<rparr>)"
    using assms(4) by (auto simp: bind_name_def publishes_def split: option.splits)
  let ?w2 = "w\<lparr>require_secure := Some secure\<rparr>"
  let ?s2 = "st\<lparr>rmvs := h(a \<mapsto> ?w2)\<rparr>"
  have up: "update_rmv a (\<lambda>v. v\<lparr>require_secure := Some secure\<rparr>) (st\<lparr>rmvs := h\<rparr>) = Ok ?s2" using w(1) by (simp add: update_rmv_ok)
  obtain al where al: "(if secure then ?s2 else allow_insecure_access br ifr r ?s2) = ?s2\<lparr>allowed := al\<rparr>"
  proof (cases secure)
    case True
    then show ?thesis using that [of "allowed st"] by (cases st) simp
  next
    case False
    have "r = make_ref br (out_facing_poa m) (oid_for br True i) ?ty" using e(4) by (simp add: facing_poa_def)
    from allow_insecure_access_ok [OF assms(2) _ e(5) refl this, of ?s2 ms] False I(1) show ?thesis using that by simp
  qed
  obtain x where x: "(if agnt = None then Ok (?s2\<lparr>allowed := al\<rparr>) else update_rmv a (\<lambda>v. v\<lparr>agent := agnt\<rparr>) (?s2\<lparr>allowed := al\<rparr>))
      = Ok (st\<lparr>rmvs := h(a \<mapsto> ?w2\<lparr>agent := x\<rparr>), allowed := al\<rparr>)"
  proof (cases agnt)
    case None
    then show ?thesis using that [of "agent w"] by simp
  next
    case (Some y)
    then show ?thesis using that [of agnt] update_rmv_ok [of "?s2\<lparr>allowed := al\<rparr>" a ?w2 "\<lambda>v. v\<lparr>agent := agnt\<rparr>"] by simp
  qed
  let ?w3 = "?w2\<lparr>agent := x\<rparr>"
  have "store_ok {} (?own(a := ?own a + 1)) (t, h(a \<mapsto> ?w3))" using store_ok_modify [OF f(3) w(1), of ?w3] by simp
  from drop_found [OF this] slot_owners_pos [of t i a] e(1)
  obtain h' where d: "var_dtor (Some a) (h(a \<mapsto> ?w3)) = Ok h'" "store_ok {} ?own (t, h')" "contents h' = contents (h(a \<mapsto> ?w3))" by auto
  have "rmv_at (rmvs (st\<lparr>rmvs := h\<rparr>)) a = Ok w" "leave (Some a) (st\<lparr>rmvs := h(a \<mapsto> ?w3), allowed := al\<rparr>) = Ok (st\<lparr>rmvs := h', allowed := al\<rparr>)"
    using w(1) d(1) by (simp_all add: rmv_at_def leave_def)
  then have "as_server_i br ifr b secure r name agnt st = Ok (Some r, st\<lparr>rmvs := h', allowed := al\<rparr>)"
    by (simp only: as_server_i_def map s1 wr bn up al x bindR_simps prod.case Let_def option.case deref_simps)
  moreover have c: "contents h' = (contents (rmvs st))(a \<mapsto> v\<lparr>require_secure := Some secure, agent := x\<rparr>)"
    using d(3) f(2) w(2) by (auto simp: contents_def fun_eq_iff)
  have "map_option (\<lambda>v. (orig_ref v, mapped_ref v, ior_table_name v)) (contents h' y) = map_option (\<lambda>v. (orig_ref v, mapped_ref v, ior_table_name v)) (contents (rmvs st) y)" for y
    using e(2) by (simp add: c)
  then have "entry br ifr m t h' g j q y z = entry br ifr m t (rmvs st) g j q y z" for g j q y z unfolding entry_fields by simp
  then have "session_inv br ifr (st\<lparr>rmvs := h', allowed := al\<rparr>) A m ms t" by (rule inv_same_entries [OF assms(1) _ d(2)]) simp_all
  ultimately show ?thesis using serve_i [OF assms(5)] by auto
qed

lemma returned_like_client:
  assumes "poa \<noteq> p" and "mapped_for_native br ifr a (Some r) poa p (chain_of st) (rmvs st) = Ok (True, q, ms, h)"
  shows "as_client br ifr a (Some r) st = Ok (q, st\<lparr>chain_of := ms, rmvs := h\<rparr>)"
  using assms by (auto simp: mapped_for_native_def as_client_def map_client_def leave_def bindR_eq_Ok split: option.splits prod.splits)

lemma reached_at:
  assumes "chain_of st = m # ms" and "mapped_values m = Some t" and "store_ok {} own (t, rmvs st)" and "lookup t i = Some a"
    and "contents (rmvs st) a = Some v" and "ref_id br (out_facing_poa m) r = Some (oid_for br True i)"
  shows "reached br st r = orig_ref v"
proof -
  have v: "contents (rmvs st) a = Some (v\<lparr>ref_count := 0\<rparr>)" using assms(5) by (cases "rmvs st a") (auto simp: contents_def)
  from native_for_mapped_bound [OF assms(2-4) v, of br True] obtain h where
    "native_for_mapped_i br (oid_for br True i) m (rmvs st) = Ok (orig_ref v, agent v, h)" by blast
  then show ?thesis using assms(1,2,6) by (cases "orig_ref v") (simp_all add: reached_def native_for_mapped_def)
qed

text \<open>An element of the table after the collector looked at it.\<close>

lemma slot_reaped:
  assumes "store_ok {} (\<lambda>_. 0) (t, h)" and "one_slot t" and "in_pages t (k, j)" and "gc_slot ping k j (t, h) = Ok (t1, h1)"
  obtains "t1 = t" and "h1 = h"
  | i a v where "lookup t i = Some a" and "contents h a = Some v" and "gone ping (orig_ref v)" and "lookup t1 = (lookup t)(i := None)"
      and "contents h1 = (contents h)(a := None)" and "store_ok {} (\<lambda>_. 0) (t1, h1)"
proof (cases "pages t ! k ! j")
  case None
  then show ?thesis using that(1) assms(4) by (simp add: gc_slot_def)
next
  case (Some a)
  let ?i = "position t (k, j)"
  note ok = store_okD [OF assms(1)]
  from assms(4) Some obtain v e where v: "rmv_at h a = Ok v" "expired ping (orig_ref v) = Ok e" and r: "(if e then gc_reap k j a (t, h) else Ok (t, h)) = Ok (t1, h1)"
    by (auto simp: gc_slot_def bindR_eq_Ok)
  show ?thesis
  proof (cases e)
    case False
    then show ?thesis using that(1) r by simp
  next
    case True
    have l: "lookup t ?i = Some a" using position_slot(3) [OF table_ok_geometry [OF ok(1)] assms(3)] Some by simp
    obtain t' where u: "unbind ?i (t, h) = Ok (Some a, t', h)" "lookup t' = (lookup t)(?i := None)" "store_ok {} ((\<lambda>_. 0)(a := 0 + 1)) (t', h)"
      using unbind_ok [OF assms(1), of ?i] l by auto
    have "\<forall>x. lookup t' x \<noteq> Some a" using u(2) assms(2) l unfolding one_slot_def by auto
    from drop_last [OF u(3) refl this] obtain h' where d: "var_dtor (Some a) h = Ok h'" "store_ok {} (\<lambda>_. 0) (t', h')" "contents h' = (contents h)(a := None)" by blast
    then obtain c where "decr_refcount a h = Ok (c, h')" by (auto simp: var_dtor_def decr_ptr_def bindR_eq_Ok)
    then have "gc_reap k j a (t, h) = Ok (t', h')" unfolding gc_reap_unbind [OF assms(1,3) Some] u(1) by simp
    then have eq: "t' = t1" "h' = h1" using r True by simp_all
    have "gone ping (orig_ref v)" using v(2) True by (cases "orig_ref v") (auto simp: expired_def gone_def split: ping_result.splits)
    moreover have "contents h a = Some (v\<lparr>ref_count := 0\<rparr>)" using v(1) by (auto simp: rmv_at_def contents_def split: option.splits)
    ultimately show ?thesis using that(2) [OF l _ _ u(2) [unfolded eq] d(3,2) [unfolded eq], of "v\<lparr>ref_count := 0\<rparr>"] by simp
  qed
qed

lemma unbound_not_reached:
  assumes "chain_of st = m # ms" and "mapped_values m = Some t" and "store_ok {} own (t, rmvs st)" and "lookup t i = None"
  shows "ref_id br (out_facing_poa m) r = Some (oid_for br True i) \<Longrightarrow> reached br st r = None"
    and "ref_id br (in_facing_poa m) r = Some (oid_for br False i) \<Longrightarrow> reached_inside br st r = None"
proof -
  obtain h where "mapper_find i m (rmvs st) = Ok (None, h)" using mapper_find_ok [OF assms(2,3), of i] assms(4) by auto
  then have n: "native_for_mapped_i br (oid_for br f i) m (rmvs st) = Ok (None, None, h)" for f by (simp add: native_for_mapped_i_def oid_for_facts(4))
  show "ref_id br (out_facing_poa m) r = Some (oid_for br True i) \<Longrightarrow> reached br st r = None"
    and "ref_id br (in_facing_poa m) r = Some (oid_for br False i) \<Longrightarrow> reached_inside br st r = None"
    using n assms(1,2) by (simp_all add: reached_def reached_inside_def native_for_mapped_def)
qed

lemma collect_inv:
  assumes "session_inv br ifr st A m ms t" and "broker_ok br" and "(k, j) \<in> set (all_slots t)" and "gc_slot ping k j (t, rmvs st) = Ok (t1, h1)"
    and "\<forall>r orig n. servers A r = Some (orig, n) \<and> n \<noteq> [] \<longrightarrow> \<not> gone ping (Some orig)"
    and "st' = st\<lparr>chain_of := m\<lparr>mapped_values := Some t1\<rparr> # ms, rmvs := h1\<rparr>"
  shows "session_inv br ifr st' (still_there br st' A) (m\<lparr>mapped_values := Some t1\<rparr>) ms t1"
proof -
  let ?m = "m\<lparr>mapped_values := Some t1\<rparr>" and ?A = "still_there br st' A"
  note I = session_invD [OF assms(1)]
  have pg: "in_pages t (k, j)" using all_slots_positions(1) [OF table_ok_geometry [OF store_okD(1) [OF I(3)]]] assms(3) by blast
  have st: "chain_of st' = ?m # ms" "ior_table st' = ior_table st" "rmvs st' = h1" "mapped_values ?m = Some t1" using assms(6) by simp_all
  have old: "entry br ifr ?m t1 h1 f i r orig n" if e: "entry br ifr m t (rmvs st) f i r orig n" and l: "lookup t1 i \<noteq> None" for f i r orig n
  proof (rule slot_reaped [OF I(3,4) pg assms(4)])
    assume "t1 = t" "h1 = rmvs st"
    moreover have "m\<lparr>mapped_values := Some t\<rparr> = m" using I(2) by (cases m) simp
    ultimately show ?thesis using e by simp
  next
    fix x a v assume x: "lookup t x = Some a" "lookup t1 = (lookup t)(x := None)" "contents h1 = (contents (rmvs st))(a := None)"
    then have "i \<noteq> x" using l by auto
    from entry_removed [OF e this x(1) I(4) x(2,3)] show ?thesis .
  qed
  have ok1: "store_ok {} (\<lambda>_. 0) (t1, h1)" and one1: "one_slot t1"
    by (rule slot_reaped [OF I(3,4) pg assms(4)]; use I(3,4) in \<open>auto simp: one_slot_def split: if_splits\<close>)+
  have alive: "lookup t1 i \<noteq> None" if e: "entry br ifr m t (rmvs st) f i r orig n" and "\<not> gone ping (Some orig)" for f i r orig n
    by (rule slot_reaped [OF I(3,4) pg assms(4)]) (use that in \<open>auto simp: entry_def\<close>)
  have oid: "ref_id br (facing_poa f m) r = Some (oid_for br f i)" if "entry br ifr m t (rmvs st) f i r orig n" for f i r orig n
    using that assms(2) by (auto simp: entry_def broker_ok_def)
  note gone = unbound_not_reached [OF st(1,4) ok1 [folded st(3)]]
  have kept: "\<exists>i. entry br ifr ?m t1 h1 True i r (fst x) (snd x)" if r: "servers ?A r = Some x" for r x
  proof -
    have r': "servers A r = Some (fst x, snd x)" "reached br st' r \<noteq> None" using r by (auto simp: still_there_def split: if_splits)
    then obtain i where i: "entry br ifr m t (rmvs st) True i r (fst x) (snd x)" using I(5) unfolding servers_ok_def by blast
    have "lookup t1 i \<noteq> None" using gone(1) [of i br r] oid [OF i] r'(2) by (auto simp: facing_poa_def)
    from old [OF i this] show ?thesis by blast
  qed
  have keptc: "\<exists>i orig. entry br ifr ?m t1 h1 False i r orig []" if r: "r \<in> clients ?A" for r
  proof -
    have r': "r \<in> clients A" "reached_inside br st' r \<noteq> None" using r by (auto simp: still_there_def)
    then obtain i orig where i: "entry br ifr m t (rmvs st) False i r orig []" using I(6) unfolding clients_ok_def by blast
    have "lookup t1 i \<noteq> None" using gone(2) [of i br r] oid [OF i] r'(2) by (auto simp: facing_poa_def)
    from old [OF i this] show ?thesis by blast
  qed
  have named: "servers ?A r = Some (orig, n)" if r: "servers A r = Some (orig, n)" "n \<noteq> []" for r orig n
  proof -
    obtain i where i: "entry br ifr m t (rmvs st) True i r orig n" using I(5) r(1) unfolding servers_ok_def by blast
    have "\<not> gone ping (Some orig)" using assms(5) r by blast
    from old [OF i alive [OF i this]] obtain a v where v: "lookup t1 i = Some a" "contents h1 a = Some v" "orig_ref v = Some orig" by (auto simp: entry_def)
    have "ref_id br (out_facing_poa ?m) r = Some (oid_for br True i)" using oid [OF i] by (simp add: facing_poa_def)
    from reached_at [OF st(1,4) ok1 [folded st(3)] v(1) v(2) [folded st(3)] this] v(3) r(1) show ?thesis by (simp add: still_there_def)
  qed
  show ?thesis
    by (rule inv_kept [OF assms(1) refl st(1) _ one1 st(2) _ _ _ named]) (use ok1 kept keptc st(3) in \<open>auto simp: still_there_def map_le_def split: if_splits\<close>)
qed

lemma session_inv_holds:
  assumes "session br ifr st A" and "broker_ok br"
  shows "\<exists>m ms t. session_inv br ifr st A m ms t"
  using assms(1)
proof induction
  case (start st)
  then obtain m ms t where "chain_of st = m # ms" "mapped_values m = Some t" "lookup t = (\<lambda>_. None)" "store_ok {} (\<lambda>_. 0) (t, rmvs st)"
    "\<forall>tab n ior r. ior_table st = Some tab \<and> tab n = Some ior \<and> of_ior br ior = Some r \<longrightarrow> ref_id br (out_facing_poa m) r = None"
    unfolding fresh_start_def by blast
  then show ?case by (intro exI [of _ m] exI [of _ ms] exI [of _ t]) (auto simp: session_inv_def servers_ok_def clients_ok_def names_ok_def one_slot_def)
next
  case (serve_new st A a orig m ms t secure name agnt r st')
  then obtain m' ms' t' where inv: "session_inv br ifr st A m' ms' t'" by blast
  have "m' = m" "ms' = ms" "t' = t" using session_invD(1,2) [OF inv] serve_new.hyps(2) by (auto simp: server_ready_def)
  with inv have "session_inv br ifr st A m ms t" by simp
  from serve_inv [OF this assms(2) serve_new.hyps(2) refl serve_new.hyps(3), of name agnt] obtain q st2 t2 where
    s: "serve br ifr a secure orig name agnt st = Ok (Some q, st2)"
    "session_inv br ifr st2 (A\<lparr>servers := (servers A)(q \<mapsto> (original_ref br orig, if publishes name st then name else []))\<rparr>)
        (server_mapper ifr (type_of br orig) t2 m) ms t2" by blast
  have "q = r" "st2 = st'" using s(1) serve_new.hyps(4) by simp_all
  then show ?case using s(2) by blast
next
  case (remove st A r x st')
  then obtain m ms t where inv: "session_inv br ifr st A m ms t" by blast
  from remove.hyps(2) have "servers A r = Some (fst x, snd x)" by simp
  from remove_server_inv [OF inv assms(2) this] remove.hyps(3) show ?case by auto
next
  case (serve_client st A m ms t a orig r st')
  then obtain m' ms' t' where inv: "session_inv br ifr st A m' ms' t'" by blast
  have same: "m' = m" "ms' = ms" "t' = t" using session_invD(1,2) [OF inv] serve_client.hyps(2,3) by auto
  from map_foreign_inv [OF inv [unfolded same] assms(2) serve_client.hyps(4-7), of False False] obtain t2 h1 h2 m0 w q where
    f: "map_reference br ifr a orig False False (chain_of st) (rmvs st) = Ok (Some a, m0\<lparr>mapped_values := Some t2\<rparr> # ms, h1)"
    "h1 a = Some w" "mapped_ref w = Some q" "var_dtor (Some a) h1 = Ok h2"
    "session_inv br ifr (st\<lparr>chain_of := m0\<lparr>mapped_values := Some t2\<rparr> # ms, rmvs := h2\<rparr>) (A\<lparr>clients := insert q (clients A)\<rparr>) (m0\<lparr>mapped_values := Some t2\<rparr>) ms t2"
    by (elim exE conjE) (rule that; simp only: if_False)
  have "as_client br ifr a (Some orig) st = Ok (Some q, st\<lparr>chain_of := m0\<lparr>mapped_values := Some t2\<rparr> # ms, rmvs := h2\<rparr>)"
    using f(1-4) by (simp add: as_client_def map_client_def rmv_at_def leave_def)
  then show ?case using f(5) serve_client.hyps(8) by auto
next
  case (pass st A m ms t a orig poa r ms2 h)
  then obtain m' ms' t' where inv: "session_inv br ifr st A m' ms' t'" by blast
  have same: "m' = m" "ms' = ms" "t' = t" using session_invD(1,2) [OF inv] pass.hyps(2,3) by auto
  from map_foreign_inv [OF inv [unfolded same] assms(2) pass.hyps(4-7), of "poa = in_facing_poa m" False] obtain t2 h1 h2 m0 w q where
    f: "map_reference br ifr a orig (poa = in_facing_poa m) False (chain_of st) (rmvs st) = Ok (Some a, m0\<lparr>mapped_values := Some t2\<rparr> # ms, h1)"
    "h1 a = Some w" "mapped_ref w = Some q" "var_dtor (Some a) h1 = Ok h2"
    "session_inv br ifr (st\<lparr>chain_of := m0\<lparr>mapped_values := Some t2\<rparr> # ms, rmvs := h2\<rparr>)
      (if poa = in_facing_poa m then A\<lparr>servers := (servers A)(q \<mapsto> (original_ref br orig, []))\<rparr> else A\<lparr>clients := insert q (clients A)\<rparr>) (m0\<lparr>mapped_values := Some t2\<rparr>) ms t2"
    by blast
  have "r = q" "ms2 = m0\<lparr>mapped_values := Some t2\<rparr> # ms" "h = h2"
    using f(1-4) pass.hyps(8) by (simp_all add: mapped_for_native_def rmv_at_def)
  then show ?case using f(5) by blast
next
  case (serve_again st A r x name secure a agnt q st')
  then obtain m ms t where inv: "session_inv br ifr st A m ms t" by blast
  from serve_again.hyps(2) have "servers A r = Some (fst x, snd x)" by simp
  from serve_again_inv [OF inv assms(2) this serve_again.hyps(3,4), of a agnt] serve_again.hyps(5) show ?case by auto
next
  case (come_back st A r x a m ms poa q ms' h)
  then obtain m' ms0 t where inv: "session_inv br ifr st A m' ms0 t" by blast
  from come_back.hyps(2) have "servers A r = Some (fst x, snd x)" by simp
  from own_client_inv [OF inv assms(2) this come_back.hyps(3)] obtain h2 where
    c: "as_client br ifr a (Some r) st = Ok (Some (fst x), st\<lparr>rmvs := h2\<rparr>)" "session_inv br ifr (st\<lparr>rmvs := h2\<rparr>) A m' ms0 t" by blast
  have "st\<lparr>chain_of := ms', rmvs := h\<rparr> = st\<lparr>rmvs := h2\<rparr>" using c(1) returned_like_client [OF come_back.hyps(5,6)] by simp
  then show ?case using c(2) by metis
next
  case (collect st A m ms t k j ping t' h st')
  then obtain m0 ms0 t0 where inv: "session_inv br ifr st A m0 ms0 t0" by blast
  have same: "m0 = m" "ms0 = ms" "t0 = t" using session_invD(1,2) [OF inv] collect.hyps(2,3) by auto
  from collect_inv [OF inv [unfolded same] assms(2) collect.hyps(4-7)] show ?case by blast
next
  case (own_client st A r x b q st')
  then obtain m ms t where inv: "session_inv br ifr st A m ms t" by blast
  from own_client.hyps(2) have "servers A r = Some (fst x, snd x)" by simp
  from own_client_inv [OF inv assms(2) this own_client.hyps(3)] own_client.hyps(4) show ?case by auto
next
  case (leave_client st A r st')
  then obtain m ms t where inv: "session_inv br ifr st A m ms t" by blast
  from remove_client_inv [OF inv assms(2) leave_client.hyps(2)] leave_client.hyps(3) show ?case by auto
qed

subsection \<open>Properties\<close>

lemma entry_reached:
  assumes "session_inv br ifr st A m ms t" and "broker_ok br" and "entry br ifr m t (rmvs st) True i r orig n"
  shows "reached br st r = Some orig"
proof -
  note I = session_invD [OF assms(1)]
  obtain a v ty where e: "lookup t i = Some a" "contents (rmvs st) a = Some v" "orig_ref v = Some orig" "r = make_ref br (out_facing_poa m) (oid_for br True i) ty"
    using assms(3) by (auto simp: entry_def facing_poa_def)
  have "ref_id br (out_facing_poa m) r = Some (oid_for br True i)" using assms(2) e(4) by (simp add: broker_ok_def)
  from reached_at [OF I(1-3) e(1,2) this] e(3) show ?thesis by simp
qed

lemma directory_bound:
  assumes "broker_ok br" and "ior_table st = Some tab" and "tab n = Some (to_ior br r)"
  shows "directory br st n = reached br st r"
  using assms by (simp add: directory_def broker_ok_def)

lemma server_reached:
  assumes "session_inv br ifr st A m ms t" and "broker_ok br" and "servers A r = Some (orig, n)"
  shows "reached br st r = Some orig" and "n \<noteq> [] \<Longrightarrow> directory br st n = Some orig"
proof -
  obtain i where i: "entry br ifr m t (rmvs st) True i r orig n" and tab: "n \<noteq> [] \<longrightarrow> (\<exists>tab. ior_table st = Some tab \<and> tab n = Some (to_ior br r))"
    using session_invD(5) [OF assms(1)] assms(3) unfolding servers_ok_def by blast
  show r: "reached br st r = Some orig" by (rule entry_reached [OF assms(1,2) i])
  show "directory br st n = Some orig" if "n \<noteq> []"
    using tab that directory_bound [OF assms(2), of st _ n r] r by auto
qed

lemma directory_server:
  assumes "session_inv br ifr st A m ms t" and "broker_ok br" and "directory br st n = Some orig"
  shows "n \<noteq> [] \<and> (\<exists>r. servers A r = Some (orig, n))"
proof -
  note I = session_invD [OF assms(1)]
  obtain tab ior r where d: "ior_table st = Some tab" "tab n = Some ior" "of_ior br ior = Some r" "reached br st r = Some orig"
    using assms(3) by (auto simp: directory_def bind_eq_Some_conv)
  have id: "ref_id br (out_facing_poa m) r \<noteq> None" using d(4) I(1) by (auto simp: reached_def native_for_mapped_def split: option.splits)
  have "(\<exists>r orig. n \<noteq> [] \<and> servers A r = Some (orig, n) \<and> ior = to_ior br r) \<or> (\<forall>r. of_ior br ior = Some r \<longrightarrow> ref_id br (out_facing_poa m) r = None)"
    using I(7) d(1,2) unfolding names_ok_def by blast
  then have "\<exists>q x. n \<noteq> [] \<and> servers A q = Some (x, n) \<and> ior = to_ior br q" using id d(3) by (elim disjE) simp_all
  then obtain q x where q: "n \<noteq> []" "servers A q = Some (x, n)" "ior = to_ior br q" by blast
  have "q = r" using q(3) d(3) assms(2) by (simp add: broker_ok_def)
  then have "x = orig" using server_reached(1) [OF assms(1,2) q(2)] d(4) by simp
  then show ?thesis using q(1,2) by blast
qed

text \<open>
  C3: The names of the proxy lead to their servers, for a first mapper with a table (\<open>CacheProxyReferences\<close> set, off by default). After any sequence of the steps of \<open>session\<close>: servers that are
  mapped, handed in again without a new name, and removed; references of neither side's proxy that clients inside have mapped or that requests bring through; mapped references of servers that come back; and the collector, element by element without interruption, as
  long as it finds the servers that have a name alive. Then a client outside reaches through every mapped reference the server it was made for, and through a name exactly the server that was
  published under it and is not removed since; a client inside that asks for a mapped reference gets the server itself; and no removal of a mapped server fails. Not among the
  steps are the publication of a mapped reference under a second name, the collection of a server with a name (\<open>stale_name\<close>), and a client's mapped reference that comes back.
\<close>

theorem names_lead_to_servers:
  assumes "broker_ok br" and "session br ifr st A"
  shows "(\<forall>r orig n. servers A r = Some (orig, n) \<longrightarrow> reached br st r = Some orig \<and> (\<exists>st'. remove_server br ifr (Some r) st = Ok st')
      \<and> (\<forall>b. rmvs st b = None \<longrightarrow> (\<exists>st'. as_client br ifr b (Some r) st = Ok (Some orig, st'))))
    \<and> (\<forall>n orig. directory br st n = Some orig \<longleftrightarrow> n \<noteq> [] \<and> (\<exists>r. servers A r = Some (orig, n)))"
proof -
  obtain m ms t where inv: "session_inv br ifr st A m ms t" using session_inv_holds [OF assms(2,1)] by blast
  show ?thesis
    using server_reached [OF inv assms(1)] remove_server_inv [OF inv assms(1)] own_client_inv [OF inv assms(1)] directory_server [OF inv assms(1)] by blast
qed

lemma sample_fresh: "fresh_start sample_broker sample_ref_mapper"
proof -
  have "lookup (new_table 60 2) = (\<lambda>_. None)" by (rule new_table_ok) simp
  moreover have "mapped_values sample_mapper = Some (new_table 60 2)" "store_ok {} (\<lambda>_. 0) (new_table 60 2, rmvs sample_ref_mapper)"
    using sample_mapper_ok by (simp_all add: sample_ref_mapper_def)
  ultimately show ?thesis by (auto simp: fresh_start_def sample_ref_mapper_def)
qed

lemma sample_session:
  "\<exists>r st m. serve sample_broker (\<lambda>_. NilInterface) 5 True ''..|IDnative'' ''name'' None sample_ref_mapper = Ok (Some r, st)
    \<and> session sample_broker (\<lambda>_. NilInterface) st \<lparr>servers = [r \<mapsto> (''..|IDnative'', ''name'')], clients = {}\<rparr>
    \<and> chain_of st = [m] \<and> mapped_values m \<noteq> None \<and> handles (\<lambda>_. NilInterface) m ty \<and> rmvs st 6 = None \<and> rm_security st"
proof -
  let ?br = sample_broker and ?ifr = "\<lambda>_. NilInterface" and ?o = "''..|IDnative''" and ?A = "\<lparr>servers = (\<lambda>_. None), clients = {}\<rparr>"
  have orig: "original_ref ?br ?o = ?o" by (simp add: original_ref_def supports_secure_def sample_broker_def)
  have sec: "True \<longrightarrow> rm_security sample_ref_mapper" and pub: "publishes ''name'' sample_ref_mapper" and start: "rmvs sample_ref_mapper = (\<lambda>_. None)"
    by (simp_all add: sample_ref_mapper_def publishes_def)
  note s0 = session.start [OF sample_fresh, where ifr = ?ifr] and ready = sample_ready [OF insertI1]
  let ?r = "server_ref ?br ?o sample_mapper (fst (next_index (new_table 60 2)))"
  from as_server_i_fresh [OF sample_broker_ok ready refl, of True "''name''" None] obtain t h v al where
    "as_server_i ?br ?ifr 5 True ?o ''name'' None sample_ref_mapper = Ok (Some ?r, sample_ref_mapper\<lparr>chain_of := [server_mapper ?ifr (type_of ?br ?o) t sample_mapper],
      rmvs := h, ior_table := published ?br ''name'' ?r sample_ref_mapper, allowed := al\<rparr>)" (is "_ = Ok (_, ?st)")
    "contents h = (contents (rmvs sample_ref_mapper))(5 \<mapsto> v)" by blast
  then have run: "serve ?br ?ifr 5 True ?o ''name'' None sample_ref_mapper = Ok (Some ?r, ?st)" and h: "contents h = (contents (\<lambda>_. None))(5 \<mapsto> v)"
    using serve_i [OF sec] start by simp_all
  have "session ?br ?ifr ?st (?A\<lparr>servers := (servers ?A)(?r \<mapsto> (?o, ''name''))\<rparr>)"
    using session.serve_new [OF s0 ready sec run] pub by (simp add: orig)
  moreover have "rmvs ?st 6 = None" using fun_cong [OF h, of 6] by (simp add: contents_def)
  moreover have "handles ?ifr (server_mapper ?ifr (type_of ?br ?o) t sample_mapper) ty"
    using evaluator_for_other(2) [of ?ifr sample_mapper "type_of ?br ?o"] sample_mapper_ok by (simp add: handles_def server_mapper_def)
  moreover have "rm_security ?st" using sec by simp
  ultimately show ?thesis using run by (intro exI [of _ ?r] exI [of _ ?st] exI [of _ "server_mapper ?ifr (type_of ?br ?o) t sample_mapper"])
    (simp add: server_mapper_def)
qed

theorem names_lead_to_servers_witness:
  "\<exists>r st. serve sample_broker (\<lambda>_. NilInterface) 5 True ''..|IDnative'' ''name'' None sample_ref_mapper = Ok (Some r, st)
    \<and> reached sample_broker st r = Some ''..|IDnative'' \<and> directory sample_broker st ''name'' = Some ''..|IDnative'' \<and> directory sample_broker st ''other'' = None
    \<and> (\<exists>st'. remove_server sample_broker (\<lambda>_. NilInterface) (Some r) st = Ok st')
    \<and> (\<exists>st'. as_client sample_broker (\<lambda>_. NilInterface) 6 (Some r) st = Ok (Some ''..|IDnative'', st'))"
proof -
  let ?br = sample_broker and ?ifr = "\<lambda>_. NilInterface" and ?o = "''..|IDnative''"
  from sample_session obtain r st where r: "serve ?br ?ifr 5 True ?o ''name'' None sample_ref_mapper = Ok (Some r, st)"
    and s: "session ?br ?ifr st \<lparr>servers = [r \<mapsto> (?o, ''name'')], clients = {}\<rparr>" (is "session _ _ _ ?B") and free: "rmvs st 6 = None" by blast
  from names_lead_to_servers [OF sample_broker_ok s]
  have a: "\<forall>q orig n. servers ?B q = Some (orig, n) \<longrightarrow> reached ?br st q = Some orig \<and> (\<exists>st'. remove_server ?br ?ifr (Some q) st = Ok st')
      \<and> (\<forall>b. rmvs st b = None \<longrightarrow> (\<exists>st'. as_client ?br ?ifr b (Some q) st = Ok (Some orig, st')))"
    and d: "\<forall>n orig. directory ?br st n = Some orig \<longleftrightarrow> n \<noteq> [] \<and> (\<exists>r. servers ?B r = Some (orig, n))" by blast+
  have "servers ?B r = Some (?o, ''name'')" by simp
  with a free have "reached ?br st r = Some ?o" "\<exists>st'. remove_server ?br ?ifr (Some r) st = Ok st'"
    "\<exists>st'. as_client ?br ?ifr 6 (Some r) st = Ok (Some ?o, st')" by blast+
  moreover have "directory ?br st ''name'' = Some ?o" using d by simp
  moreover have "directory ?br st ''other'' \<noteq> Some x" for x using d by simp
  then have "directory ?br st ''other'' = None" by (cases "directory ?br st ''other''") auto
  ultimately show ?thesis using r by blast
qed

subsection \<open>What the collector leaves behind\<close>

lemma reap_frees_index:
  assumes "session_inv br ifr st A m ms t" and "entry br ifr m t (rmvs st) True i r orig n" and "gone ping (Some orig)"
  shows "\<exists>k j a t1 h1. (k, j) \<in> set (all_slots t) \<and> gc_slot ping k j (t, rmvs st) = Ok (t1, h1) \<and> store_ok {} (\<lambda>_. 0) (t1, h1)
    \<and> free_stack t1 = i # free_stack t \<and> contents h1 = (contents (rmvs st))(a := None)"
proof -
  note I = session_invD [OF assms(1)] and ok = store_okD [OF session_invD(3) [OF assms(1)]]
  obtain a v where e: "lookup t i = Some a" "contents (rmvs st) a = Some v" "orig_ref v = Some orig" using assms(2) by (auto simp: entry_def)
  have "unat i < length (slots t)" using e(1) by (auto simp: lookup_def split: if_splits)
  then obtain k j where kj: "(k, j) \<in> set (all_slots t)" "position t (k, j) = i"
    using all_slots_positions(2) [OF table_ok_geometry [OF ok(1)], of i] by auto
  have pg: "in_pages t (k, j)" using all_slots_positions(1) [OF table_ok_geometry [OF ok(1)]] kj(1) by blast
  have slot: "pages t ! k ! j = Some a" using position_slot(3) [OF table_ok_geometry [OF ok(1)] pg] kj(2) e(1) by simp
  obtain w where w: "rmvs st a = Some w" "orig_ref w = Some orig" using e(2,3) by (cases "rmvs st a") (auto simp: contents_def)
  obtain t1 where u: "unbind i (t, rmvs st) = Ok (Some a, t1, rmvs st)" "lookup t1 = (lookup t)(i := None)"
    "store_ok {} ((\<lambda>_. 0)(a := 0 + 1)) (t1, rmvs st)" "free_stack t1 = i # free_stack t"
    using unbind_ok [OF I(3), of i] e(1) by auto
  have "\<forall>x. lookup t1 x \<noteq> Some a" using u(2) I(4) e(1) unfolding one_slot_def by auto
  from drop_last [OF u(3) refl this] obtain h1 where d: "var_dtor (Some a) (rmvs st) = Ok h1" "store_ok {} (\<lambda>_. 0) (t1, h1)"
    "contents h1 = (contents (rmvs st))(a := None)" by blast
  then obtain c where "decr_refcount a (rmvs st) = Ok (c, h1)" by (auto simp: var_dtor_def decr_ptr_def bindR_eq_Ok)
  then have "gc_reap k j a (t, rmvs st) = Ok (t1, h1)" unfolding gc_reap_unbind [OF I(3) pg slot] kj(2) u(1) by simp
  then have "gc_slot ping k j (t, rmvs st) = Ok (t1, h1)"
    using slot w assms(3) by (auto simp: gc_slot_def rmv_at_def expired_def gone_def split: ping_result.splits)
  then show ?thesis using kj(1) d(2,3) u(4) by blast
qed

text \<open>
  C40: The collector frees the mapping of a server that is gone and leaves its name bound: the next server that is mapped gets the index, and the name
  of the first then leads to the second, whatever name the second was published under, with or without security.
\<close>

theorem stale_name:
  assumes "broker_ok br" and "session br ifr st A" and "servers A r = Some (orig, n)" and "n \<noteq> []" and "gone ping (Some orig)"
    and "chain_of st = m # ms" and "mapped_values m = Some t" and "rmvs st b = None" and "handles ifr m (type_of br orig2)" and "foreign br orig2"
    and "secure \<longrightarrow> rm_security st"
  shows "directory br st n = Some orig \<and> (\<exists>k j t1 h1 r2 st2. (k, j) \<in> set (all_slots t) \<and> gc_slot ping k j (t, rmvs st) = Ok (t1, h1)
    \<and> serve br ifr b secure orig2 name agnt (st\<lparr>chain_of := m\<lparr>mapped_values := Some t1\<rparr> # ms, rmvs := h1\<rparr>) = Ok (Some r2, st2)
    \<and> directory br st2 n = Some (original_ref br orig2))"
proof -
  obtain m' ms' t' where "session_inv br ifr st A m' ms' t'" using session_inv_holds [OF assms(2,1)] by blast
  then have inv: "session_inv br ifr st A m ms t" using session_invD(1,2) [of br ifr st A m' ms' t'] assms(6,7) by simp
  obtain i tab where i: "entry br ifr m t (rmvs st) True i r orig n" and tab: "ior_table st = Some tab" "tab n = Some (to_ior br r)"
    using session_invD(5) [OF inv] assms(3,4) unfolding servers_ok_def by blast
  from reap_frees_index [OF inv i assms(5)] obtain k j a t1 h1 where g: "(k, j) \<in> set (all_slots t)" "gc_slot ping k j (t, rmvs st) = Ok (t1, h1)"
    "store_ok {} (\<lambda>_. 0) (t1, h1)" "free_stack t1 = i # free_stack t" "contents h1 = (contents (rmvs st))(a := None)" by blast
  let ?m = "m\<lparr>mapped_values := Some t1\<rparr>" and ?ty = "type_of br orig2"
  let ?st = "st\<lparr>chain_of := ?m # ms, rmvs := h1\<rparr>"
  have idx: "i = fst (next_index t1)" using next_index_reused(1) [OF store_okD(1) [OF g(3)] g(4)] by simp
  have b: "h1 b = None" using fun_cong [OF g(5), of b] assms(8) by (auto simp: contents_def split: if_splits)
  obtain ty0 k0 where "evaluator_for ifr m ty0 = (Some k0, m)" using i by (auto simp: entry_def)
  from evaluator_for_other(2) [OF this assms(9)] have ev: "fst (evaluator_for ifr ?m ?ty) \<noteq> None" by (simp add: handles_def)
  have ready: "server_ready br ifr (\<lambda>_. 0) b orig2 ?m ms t1 ?st"
    using g(3,4) b ev foreign_not_mapped [OF assms(10)] by (simp add: server_ready_def room_def)
  let ?r = "server_ref br orig2 ?m i" and ?v = "server_value br ?m orig2 i secure (if publishes name ?st then name else []) agnt"
  from as_server_i_fresh [OF assms(1) ready idx, of secure name agnt] obtain t2 h2 al where
    s: "as_server_i br ifr b secure orig2 name agnt ?st = Ok (Some ?r, ?st\<lparr>chain_of := server_mapper ifr ?ty t2 ?m # ms, rmvs := h2,
      ior_table := published br name ?r ?st, allowed := allowed ?st @ al\<rparr>)" (is "_ = Ok (_, ?st2)")
    "lookup t2 = (lookup t1)(i \<mapsto> b)" "store_ok {} (\<lambda>_. 0) (t2, h2)" "contents h2 = (contents (rmvs ?st))(b \<mapsto> ?v)" by blast
  note sm = server_mapper_facts [OF ev]
  have "ref_id br (out_facing_poa m) r = Some (oid_for br True i)" using i assms(1) by (auto simp: entry_def facing_poa_def broker_ok_def)
  then have id: "ref_id br (out_facing_poa (server_mapper ifr ?ty t2 ?m)) r = Some (oid_for br True i)" by (simp add: sm(2))
  have "reached br ?st2 r = orig_ref ?v"
    by (rule reached_at [where a = b, OF _ sm(4) _ _ _ id]) (use s(2-4) in simp_all)
  also have "orig_ref ?v = Some (original_ref br orig2)" by (simp add: server_value_def native_value_def)
  finally have "reached br ?st2 r = Some (original_ref br orig2)" .
  moreover have "\<exists>tab. ior_table ?st2 = Some tab \<and> tab n = Some (to_ior br r)" using tab by (auto simp: published_def publishes_def)
  then have "directory br ?st2 n = reached br ?st2 r" using directory_bound [OF assms(1)] by blast
  ultimately have "directory br ?st2 n = Some (original_ref br orig2)" by simp
  moreover have "serve br ifr b secure orig2 name agnt ?st = Ok (Some ?r, ?st2)" using s(1) serve_i [of secure ?st] assms(11) by simp
  ultimately show ?thesis using server_reached(2) [OF inv assms(1,3,4)] g(1,2) by blast
qed

theorem stale_name_witness:
  "\<exists>r st k j t1 h1 r2 st2 m. serve sample_broker (\<lambda>_. NilInterface) 5 True ''..|IDnative'' ''name'' None sample_ref_mapper = Ok (Some r, st)
    \<and> chain_of st = [m] \<and> gc_slot (\<lambda>_. OtherException) k j (the (mapped_values m), rmvs st) = Ok (t1, h1)
    \<and> serve sample_broker (\<lambda>_. NilInterface) 6 True ''..|IDother'' [] None (st\<lparr>chain_of := [m\<lparr>mapped_values := Some t1\<rparr>], rmvs := h1\<rparr>) = Ok (Some r2, st2)
    \<and> directory sample_broker st ''name'' = Some ''..|IDnative'' \<and> directory sample_broker st2 ''name'' = Some ''..|IDother''"
proof -
  let ?br = sample_broker and ?ifr = "\<lambda>_. NilInterface" and ?o = "''..|IDnative''" and ?p = "''..|IDother''" and ?ping = "(\<lambda>_. OtherException) :: string \<Rightarrow> ping_result"
  from sample_session [of "type_of ?br ?p"] obtain r st m where r: "serve ?br ?ifr 5 True ?o ''name'' None sample_ref_mapper = Ok (Some r, st)"
    and s: "session ?br ?ifr st \<lparr>servers = [r \<mapsto> (?o, ''name'')], clients = {}\<rparr>" and m: "chain_of st = [m]" "mapped_values m \<noteq> None" "handles ?ifr m (type_of ?br ?p)"
    and free: "rmvs st 6 = None" and sec: "rm_security st" by blast
  obtain t where t: "mapped_values m = Some t" using m(2) by blast
  have orig: "original_ref ?br ?p = ?p" by (simp add: original_ref_def supports_secure_def sample_broker_def)
  have f: "foreign ?br ?p" by (simp add: foreign_def sample_broker_def ref_body_def dots_def id_size_def)
  have srv: "servers \<lparr>servers = [r \<mapsto> (?o, ''name'')], clients = {}\<rparr> r = Some (?o, ''name'')" by simp
  have g: "gone ?ping (Some ?o)" by (simp add: gone_def)
  have ne: "''name'' \<noteq> []" and secure: "True \<longrightarrow> rm_security st" using sec by simp_all
  from stale_name [OF sample_broker_ok s srv ne g m(1) t free m(3) f secure, of "[]" None] show ?thesis
    unfolding orig using r m(1) t by (metis option.sel)
qed

end
