(* ===== verification/DefaultMode.thy ===== *)
theory DefaultMode
  imports Sessions
begin

text \<open>
  The mappers as the program runs them by default: without \<open>CacheProxyReferences\<close> the constructor of \<open>ProxyMapper\<close> (src/src/lorica/ProxyMapper.cpp) makes no table, the
  object id of a mapped reference is the text of the native one, and no value outlives the call that made it. The other theories state what holds with a table;
  here is what of it is left without one.
\<close>

lemma add_native_plain:
  assumes "mapped_values m = None" and "evaluator_for ifr m ty = (Some k, m0)"
  shows "add_native br ifr a native ty f secure (m # ms) h
    = Ok (Some a, m0 # ms, h(a \<mapsto> native_value br m native (id_of_string br (to_ior br native)) ty f secure))"
proof -
  have "mapped_values m0 = None" using evaluator_for_again(2) [OF assms(2)] assms(1) by simp
  moreover have "native_value br m0 native oid ty f secure = native_value br m native oid ty f secure" for oid
    using evaluator_for_again [OF assms(2)] by (simp add: native_value_def facing_poa_def)
  ultimately show ?thesis using assms(2) by (simp add: already_mapped_def add_native_unchecked_def)
qed

text \<open>The one owner of such a value is the variable of the operation that made it.\<close>

lemma sole_owner:
  assumes "h a = None" and "ref_count v = 1"
  shows "var_dtor (Some a) (h(a \<mapsto> v)) = Ok h"
  using assms by (simp add: var_dtor_def decr_ptr_def decr_refcount_def rmv_at_def fun_upd_idem)

text \<open>The reference that a mapper without a table makes for another one, at the POA of the side \<open>f\<close>.\<close>

definition wrapped :: "('o, 'p) broker \<Rightarrow> 'p mapper \<Rightarrow> bool \<Rightarrow> 'o \<Rightarrow> 'o" where
  "wrapped br m f r = make_ref br (facing_poa f m) (id_of_string br (to_ior br r)) (type_of br r)"

lemma serve_plain:
  assumes "broker_ok br" and "chain_of st = m # ms" and "mapped_values m = None" and "rmvs st a = None"
    and "evaluator_for ifr m (type_of br orig) = (Some k, m0)"
  shows "\<exists>al. as_server_i br ifr a secure orig name agnt st = Ok (Some (wrapped br m True orig),
    st\<lparr>chain_of := m0 # ms, ior_table := published br name (wrapped br m True orig) st, allowed := al\<rparr>)"
proof -
  let ?r = "wrapped br m True orig" and ?v = "native_value br m orig (id_of_string br (to_ior br orig)) (type_of br orig) True secure"
  let ?n = "if publishes name st then name else []" and ?h = "rmvs st"
  let ?s1 = "st\<lparr>chain_of := m0 # ms, rmvs := ?h(a \<mapsto> ?v)\<rparr>"
  let ?s3 = "?s1\<lparr>ior_table := published br name ?r st, rmvs := ?h(a \<mapsto> ?v\<lparr>ior_table_name := ?n, require_secure := Some secure\<rparr>)\<rparr>"
  have map: "map_reference br ifr a orig True secure (chain_of st) ?h = Ok (Some a, m0 # ms, ?h(a \<mapsto> ?v))"
    using add_native_plain [OF assms(3,5)] assms(2) by (simp add: map_reference_def)
  have v: "mapped_ref ?v = Some ?r" "ior_table_name ?v = []" "agent ?v = None" "ref_count ?v = 1"
    by (simp_all add: native_value_def new_rmv_def wrapped_def)
  have "bind_name br a ?r name ?s1 = Ok (?s1\<lparr>ior_table := published br name ?r st, rmvs := ?h(a \<mapsto> ?v\<lparr>ior_table_name := ?n\<rparr>)\<rparr>)"
    using bind_name_ok [of ?s1 a ?v br ?r name] v(2) by (simp add: publishes_def published_def)
  moreover have "update_rmv a (\<lambda>v. v\<lparr>require_secure := Some secure\<rparr>) (?s1\<lparr>ior_table := published br name ?r st, rmvs := ?h(a \<mapsto> ?v\<lparr>ior_table_name := ?n\<rparr>)\<rparr>) = Ok ?s3"
    by (simp add: update_rmv_ok)
  moreover obtain al where al: "(if secure then ?s3 else allow_insecure_access br ifr ?r ?s3) = ?s3\<lparr>allowed := al\<rparr>"
  proof (cases secure)
    case True
    then show ?thesis using that [of "allowed st"] by (cases st) simp
  next
    case False
    have "evaluator_for ifr m0 (type_of br orig) = (Some k, m0)" using evaluator_for_again(1) [OF assms(5), of "mapped_values m0"] by simp
    from allow_insecure_access_ok [OF assms(1) _ this, of ?s3 ms "out_facing_poa m" ?r] False show ?thesis
      using that evaluator_for_again(4) [OF assms(5)] by (simp add: wrapped_def facing_poa_def)
  qed
  moreover have "(if agnt = None then Ok (?s3\<lparr>allowed := al\<rparr>) else update_rmv a (\<lambda>v. v\<lparr>agent := agnt\<rparr>) (?s3\<lparr>allowed := al\<rparr>))
      = Ok (?s3\<lparr>allowed := al, rmvs := ?h(a \<mapsto> ?v\<lparr>ior_table_name := ?n, require_secure := Some secure, agent := agnt\<rparr>)\<rparr>)"
    using set_agent_ok [of "?s3\<lparr>allowed := al\<rparr>" a "?v\<lparr>ior_table_name := ?n, require_secure := Some secure\<rparr>"] v(3) by simp
  moreover have "leave (Some a) (?s3\<lparr>allowed := al, rmvs := ?h(a \<mapsto> ?v\<lparr>ior_table_name := ?n, require_secure := Some secure, agent := agnt\<rparr>)\<rparr>)
      = Ok (?s3\<lparr>allowed := al, rmvs := ?h\<rparr>)"
    using sole_owner [where h = ?h and a = a, OF assms(4), of "?v\<lparr>ior_table_name := ?n, require_secure := Some secure, agent := agnt\<rparr>"] v(4) by (simp add: leave_def)
  moreover have "rmv_at (rmvs ?s1) a = Ok ?v" by (simp add: rmv_at_def)
  ultimately have "as_server_i br ifr a secure orig name agnt st = Ok (Some ?r, ?s3\<lparr>allowed := al, rmvs := ?h\<rparr>)"
    by (simp only: as_server_i_def map bindR_simps prod.case Let_def option.case deref_simps v(1))
  then show ?thesis by (intro exI [of _ al]) simp
qed

lemma returns_plain:
  assumes "mapped_values m = None" and "evaluator_for ifr m (type_of br r) = (Some k, m)" and "h b = None"
  shows "mapped_for_native br ifr b (Some r) poa (in_facing_poa m) (m # ms) h = Ok (True, Some (wrapped br m (poa = in_facing_poa m) r), m # ms, h)"
  using add_native_plain [OF assms(1,2), of br b r "poa = in_facing_poa m" False ms h] sole_owner [where h = h and a = b, OF assms(3)]
  by (simp add: mapped_for_native_def map_reference_def rmv_at_def native_value_def new_rmv_def wrapped_def del: add_native.simps)

text \<open>
  C27: What a mapper without a table does, the default. A server gets a reference whose object id is the text of its own reference, readable to everyone who has the
  mapped one; requests to it are led to the server. Nothing is kept in the proxy: the agent is forgotten, and removing the server changes nothing, so that
  its name stays bound and leads to it, against what ReferenceMapper.idl says of the removal. A mapped reference that comes back, in a request or by \<open>as_client\<close>, is not
  recognised: it is wrapped once more, with the text of the mapped reference as its object id.
\<close>

theorem without_table:
  assumes "broker_ok br" and "chain_of st = m # ms" and "mapped_values m = None" and "in_facing_poa m \<noteq> out_facing_poa m"
    and "handles ifr m (type_of br orig)" and "secure \<longrightarrow> rm_security st" and "rmvs st a = None"
  shows "\<exists>r st' m'. serve br ifr a secure orig name agnt st = Ok (Some r, st') \<and> chain_of st' = m' # ms
    \<and> ref_id br (out_facing_poa m) r = Some (id_of_string br (to_ior br orig)) \<and> reached br st' r = Some orig \<and> rmvs st' = rmvs st
    \<and> (publishes name st \<longrightarrow> directory br st' name = Some orig) \<and> remove_server br ifr (Some r) st' = Ok st'
    \<and> (\<exists>q. ref_id br (in_facing_poa m) q = Some (id_of_string br (to_ior br r))
        \<and> as_client br ifr a (Some r) st' = Ok (Some q, st')
        \<and> mapped_for_native br ifr a (Some r) (out_facing_poa m) (in_facing_poa m) (chain_of st') (rmvs st') = Ok (True, Some q, chain_of st', rmvs st'))"
proof -
  obtain k m0 where ev: "evaluator_for ifr m (type_of br orig) = (Some k, m0)"
    using assms(5) by (cases "evaluator_for ifr m (type_of br orig)") (auto simp: handles_def)
  note again = evaluator_for_again [OF ev]
  let ?r = "wrapped br m True orig"
  have plain: "mapped_values m0 = None" using again(2) assms(3) by simp
  have r: "type_of br ?r = type_of br orig" "ref_id br (out_facing_poa m) ?r = Some (id_of_string br (to_ior br orig))"
    using assms(1) by (simp_all add: wrapped_def broker_ok_def facing_poa_def)
  have ev0: "evaluator_for ifr m0 (type_of br ?r) = (Some k, m0)" using again(1) [of "mapped_values m0"] r(1) by simp
  obtain al where s: "as_server_i br ifr a secure orig name agnt st = Ok (Some ?r, st\<lparr>chain_of := m0 # ms, ior_table := published br name ?r st, allowed := al\<rparr>)"
    (is "_ = Ok (_, ?st)") using serve_plain [OF assms(1-3,7) ev] by blast
  have reach: "reached br ?st ?r = Some orig"
    using r(2) plain assms(1) by (simp add: reached_def native_for_mapped_def again(4) broker_ok_def)
  have "directory br ?st name = Some orig" if p: "publishes name st"
  proof -
    obtain tab where "ior_table st = Some tab" using p by (auto simp: publishes_def split: option.splits)
    with p have "ior_table ?st = Some (tab(name \<mapsto> to_ior br ?r))" by (simp add: published_def)
    then show ?thesis using directory_bound [OF assms(1)] reach by simp
  qed
  moreover have "remove_server br ifr (Some ?r) ?st = Ok ?st"
    using ev0 plain by (simp add: remove_server_def remove_reference_def leave_def var_dtor_def decr_ptr_def)
  moreover have q: "mapped_for_native br ifr a (Some ?r) (out_facing_poa m) (in_facing_poa m) (m0 # ms) (rmvs st) = Ok (True, Some (wrapped br m0 False ?r), m0 # ms, rmvs st)"
    using returns_plain [where h = "rmvs st" and b = a, OF plain ev0 assms(7), of "out_facing_poa m" ms] assms(4) again(3) by simp
  moreover have "as_client br ifr a (Some ?r) ?st = Ok (Some (wrapped br m0 False ?r), ?st)"
    using add_native_plain [OF plain ev0, of br a ?r False False ms] sole_owner [where h = "rmvs st" and a = a, OF assms(7)]
    by (simp add: as_client_def map_client_def map_reference_def rmv_at_def leave_def native_value_def new_rmv_def wrapped_def del: add_native.simps)
  moreover have "ref_id br (in_facing_poa m) (wrapped br m0 False ?r) = Some (id_of_string br (to_ior br ?r))"
    using assms(1) again(3) by (simp add: wrapped_def facing_poa_def broker_ok_def)
  ultimately show ?thesis using s serve_i [OF assms(6)] r(2) reach
    by (intro exI [of _ ?r] exI [of _ ?st] exI [of _ m0]) auto
qed

theorem without_table_witness:
  "\<exists>r st'. serve sample_broker (\<lambda>_. NilInterface) 5 False ''..|IDnative'' ''name'' None (sample_ref_mapper\<lparr>chain_of := [sample_mapper\<lparr>mapped_values := None\<rparr>]\<rparr>) = Ok (Some r, st')
    \<and> remove_server sample_broker (\<lambda>_. NilInterface) (Some r) st' = Ok st' \<and> directory sample_broker st' ''name'' = Some ''..|IDnative''"
proof -
  let ?m = "sample_mapper\<lparr>mapped_values := None\<rparr>" and ?ifr = "\<lambda>_. NilInterface" and ?o = "''..|IDnative''"
  let ?st = "sample_ref_mapper\<lparr>chain_of := [?m]\<rparr>"
  have st: "chain_of ?st = [?m]" "rmvs ?st 5 = None" "False \<longrightarrow> rm_security ?st" "publishes ''name'' ?st"
    by (simp_all add: sample_ref_mapper_def publishes_def)
  have m: "mapped_values ?m = None" "in_facing_poa ?m \<noteq> out_facing_poa ?m" "handles ?ifr ?m (type_of sample_broker ?o)"
    by (simp_all add: sample_mapper_def handles_def evaluator_for_def null_evaluator_for_def evaluator_head_def)
  from without_table [OF sample_broker_ok st(1) m st(3,2), of "''name''" None] st(4) show ?thesis by blast
qed

end
