(* ===== verification/MapperInit.thy ===== *)
theory MapperInit
  imports Action ProxyMapper ConfigBase OperationTable
begin

text \<open>
  How the mappers come to life and end (src/src/lorica/ProxyMapper.cpp: the constructor and \<open>proxy_mapper_init\<close>;
  GenericMapper.cpp with IFRService.cpp; NullProxyMapper.cpp): the tables and the host id that a mapper starts with, the two POAs
  that it creates below the root POA and whose default servant it supplies, and the interface repository that the generic mapper brings along.

  A mapper is initialised together with the mappers behind it in the chain, which is an argument here, the list of their addresses. The calls on
  the broker are listed by \<open>init_call\<close>; the environment tells which of them throw.
\<close>

subsection \<open>Construction\<close>

text \<open>
  The host id: every address is its family (whether one of the two internet families), its hash and whether it is a loopback
  address; the loop ends at the first address that is not.
\<close>

fun host_id_loop :: "(bool \<times> 32 word \<times> bool) list \<Rightarrow> bool \<Rightarrow> 32 word \<Rightarrow> 32 word" where
  "host_id_loop [] islocal hid = hid"
| "host_id_loop ((inet, hash, loopback) # addrs) islocal hid =
     (if \<not> islocal then hid
      else if inet then host_id_loop addrs loopback hash
      else host_id_loop addrs islocal hid)"

definition host_id :: "(bool \<times> 32 word \<times> bool) list option \<Rightarrow> 32 word" where
  "host_id interfaces = (case interfaces of None \<Rightarrow> 0 | Some addrs \<Rightarrow> host_id_loop addrs True 0)"

definition new_mapped_values :: "config_src \<Rightarrow> rmv_table option" where
  "new_mapped_values src = (if cs_bool src ''CacheProxyReferences'' False
     then Some (new_table (cs_long src ''GC_Period_Seconds'' 60) 1024) else None)"

text \<open>The pointer to the server of the interface repository has no value before \<open>init\<close>.\<close>

datatype ifr_server = Unset | NoServer | Server

record mapper_object =
  mo_id :: string
  mo_generic :: bool
  mo_orb :: bool
  mo_current :: bool
  mo_in_poa :: "string option"
  mo_out_poa :: "string option"
  mo_optable :: bool
  mo_ifr :: ifr_server
  mo_ifr_client :: bool

definition new_mapper_object :: "string \<Rightarrow> bool \<Rightarrow> mapper_object" where
  "new_mapper_object nm generic = \<lparr>mo_id = nm, mo_generic = generic, mo_orb = False, mo_current = False, mo_in_poa = None,
     mo_out_poa = None, mo_optable = False, mo_ifr = Unset, mo_ifr_client = False\<rparr>"

definition new_null_mapper :: mapper_object where
  "new_null_mapper = new_mapper_object ''_lorica_null'' False"

definition new_generic_mapper :: mapper_object where
  "new_generic_mapper = new_mapper_object ''_lorica_generic'' True"

subsection \<open>The broker\<close>

datatype poa_policy = USER_ID | MULTIPLE_ID | NON_RETAIN | USE_DEFAULT_SERVANT | BIDIRECTIONAL_BOTH

datatype init_call =
    Resolve string | Make_policy poa_policy | Make_POA string | Put_servant string | Ifr_init | Ifr_fini

text \<open>A POA below the root: whether its manager is the outward one, its policies, and the mapper of its default servant.\<close>

record poa_object =
  po_outward :: bool
  po_policies :: "poa_policy list"
  po_servant :: "nat option"

record init_world =
  iw_mappers :: "nat \<rightharpoonup> mapper_object"
  iw_poas :: "string \<rightharpoonup> poa_object"
  iw_config :: config

record init_env =
  ie_throws :: "init_call \<Rightarrow> bool"
  ie_root_nil :: bool
  ie_src :: config_src
  ie_ifr_result :: int
  ie_ifr_client :: bool

definition ask :: "init_env \<Rightarrow> init_call \<Rightarrow> (init_world, unit) act" where
  "ask env c = orA (\<not> ie_throws env c) (Thrown ''CORBA'')"

definition mo_at :: "nat \<Rightarrow> (init_world, mapper_object) act" where
  "mo_at a s = Some (case iw_mappers s a of None \<Rightarrow> (Fault UseAfterFree, s) | Some m \<Rightarrow> (Ok m, s))"

definition mo_mod :: "nat \<Rightarrow> (mapper_object \<Rightarrow> mapper_object) \<Rightarrow> (init_world, unit) act" where
  "mo_mod a f = bindA (mo_at a) (\<lambda>m. modA (\<lambda>s. s\<lparr>iw_mappers := (iw_mappers s)(a \<mapsto> f m)\<rparr>))"

text \<open>\<open>create_POA\<close> throws when the root POA has a child of that name.\<close>

definition make_poa :: "init_env \<Rightarrow> string \<Rightarrow> bool \<Rightarrow> poa_policy list \<Rightarrow> (init_world, unit) act" where
  "make_poa env name outward policies = seqA (ask env (Make_POA name))
     (\<lambda>s. if iw_poas s name \<noteq> None then failA (Thrown ''AdapterAlreadyExists'') s
       else modA (\<lambda>s. s\<lparr>iw_poas := (iw_poas s)(name \<mapsto> \<lparr>po_outward = outward, po_policies = policies, po_servant = None\<rparr>)\<rparr>) s)"

text \<open>\<open>set_servant\<close> with what \<open>make_default_servant\<close> of the mapper at \<open>a\<close> gives.\<close>

definition put_servant :: "init_env \<Rightarrow> string \<Rightarrow> nat \<Rightarrow> (init_world, unit) act" where
  "put_servant env name a = seqA (ask env (Put_servant name))
     (modA (\<lambda>s. s\<lparr>iw_poas := (iw_poas s)(name := map_option (\<lambda>p. p\<lparr>po_servant := Some a\<rparr>) (iw_poas s name))\<rparr>))"

fun ask_all :: "init_env \<Rightarrow> init_call list \<Rightarrow> (init_world, unit) act" where
  "ask_all env [] = retA ()"
| "ask_all env (c # cs) = seqA (ask env c) (ask_all env cs)"

subsection \<open>Initialisation\<close>

definition base_policies :: "poa_policy list" where
  "base_policies = [USER_ID, MULTIPLE_ID, NON_RETAIN, USE_DEFAULT_SERVANT]"

definition in_poa_setup :: "init_env \<Rightarrow> nat \<Rightarrow> string \<Rightarrow> (init_world, unit) act" where
  "in_poa_setup env a nm =
     seqA (make_poa env (nm @ ''_i'') False base_policies)
    (seqA (mo_mod a (\<lambda>m. m\<lparr>mo_in_poa := Some (nm @ ''_i'')\<rparr>))
          (put_servant env (nm @ ''_i'') a))"

definition out_poa_setup :: "init_env \<Rightarrow> nat \<Rightarrow> string \<Rightarrow> (init_world, unit) act" where
  "out_poa_setup env a nm =
     seqA (ask env (Make_policy BIDIRECTIONAL_BOTH))
    (seqA (make_poa env (nm @ ''_o'') True (base_policies @ [BIDIRECTIONAL_BOTH]))
    (seqA (mo_mod a (\<lambda>m. m\<lparr>mo_out_poa := Some (nm @ ''_o'')\<rparr>))
          (put_servant env (nm @ ''_o'') a)))"

text \<open>\<open>ProxyMapper::proxy_mapper_init\<close>, which goes on with \<open>nxt\<close>.\<close>

definition base_init :: "init_env \<Rightarrow> nat \<Rightarrow> (init_world, int) act \<Rightarrow> (init_world, int) act" where
  "base_init env a nxt =
     seqA (mo_mod a (\<lambda>m. m\<lparr>mo_orb := True\<rparr>))
    (seqA (ask env (Resolve ''POACurrent''))
    (seqA (mo_mod a (\<lambda>m. m\<lparr>mo_current := True\<rparr>))
    (seqA (ask env (Resolve ''RootPOA''))
    (seqA (orA (\<not> ie_root_nil env) NullDeref)
    (seqA (ask_all env (map Make_policy base_policies))
    (bindA (mo_at a) (\<lambda>m.
     seqA (in_poa_setup env a (mo_id m))
    (seqA (out_poa_setup env a (mo_id m)) nxt))))))))"

text \<open>\<open>IFRService::init\<close>; its result is not looked at by the generic mapper.\<close>

definition ifr_init :: "init_env \<Rightarrow> nat \<Rightarrow> (init_world, int) act" where
  "ifr_init env a =
     (if \<not> collocate_ifr (ie_src env) then seqA (mo_mod a (\<lambda>m. m\<lparr>mo_ifr := NoServer\<rparr>)) (retA 0)
      else seqA (modA (\<lambda>s. s\<lparr>iw_config := snd (get_ifr_options (ie_src env) False (iw_config s))\<rparr>))
          (seqA (mo_mod a (\<lambda>m. m\<lparr>mo_ifr := Server\<rparr>))
          (seqA (ask env Ifr_init) (retA (ie_ifr_result env)))))"

definition ifr_fini :: "init_env \<Rightarrow> nat \<Rightarrow> (init_world, int) act" where
  "ifr_fini env a = bindA (mo_at a) (\<lambda>m. case mo_ifr m of
       Unset \<Rightarrow> failA Uninitialised
     | NoServer \<Rightarrow> retA 0
     | Server \<Rightarrow> seqA (ask env Ifr_fini) (seqA (mo_mod a (\<lambda>m. m\<lparr>mo_ifr := NoServer\<rparr>)) (retA 0)))"

definition generic_init :: "init_env \<Rightarrow> nat \<Rightarrow> (init_world, int) act \<Rightarrow> (init_world, int) act" where
  "generic_init env a nxt =
     seqA (mo_mod a (\<lambda>m. m\<lparr>mo_orb := True\<rparr>))
    (seqA (ask env (Resolve ''DynAnyFactory''))
    (seqA (ask env (Resolve ''POACurrent''))
    (seqA (mo_mod a (\<lambda>m. m\<lparr>mo_current := True, mo_optable := True\<rparr>))
    (bindA (base_init env a nxt) (\<lambda>result.
     bindA (ifr_init env a) (\<lambda>ignored.
     seqA (mo_mod a (\<lambda>m. m\<lparr>mo_ifr_client := ie_ifr_client env\<rparr>))
    (seqA (orA (ie_ifr_client env) (Thrown ''INTF_REPOS'')) (retA result))))))))"

text \<open>The initialisation of a chain of mappers, by their kind.\<close>

fun chain_init :: "init_env \<Rightarrow> nat list \<Rightarrow> (init_world, int) act" where
  "chain_init env [] = retA 1"
| "chain_init env (a # as) = bindA (mo_at a) (\<lambda>m.
     if mo_generic m then generic_init env a (chain_init env as) else base_init env a (chain_init env as))"

text \<open>The destructor of the generic mapper up to that of its base class.\<close>

definition generic_dtor :: "init_env \<Rightarrow> nat \<Rightarrow> (init_world, int) act" where
  "generic_dtor env a = seqA (mo_mod a (\<lambda>m. m\<lparr>mo_optable := False\<rparr>)) (ifr_fini env a)"

text \<open>\<open>GenericMapper::add_operation\<close>: what the repository tells of a type is an argument, nil when it knows nothing.\<close>

definition generic_add_operation ::
    "(string \<Rightarrow> string \<Rightarrow> int) \<Rightarrow> 't tc_consts \<Rightarrow> (string \<Rightarrow> ('t interface_def \<times> 't interface_def list) option) \<Rightarrow> string \<Rightarrow> string \<Rightarrow>
     't optab \<Rightarrow> ('t optab \<times> nat option) result" where
  "generic_add_operation strcmp tcs get_interface typeId oper tab = (case get_interface (c_str typeId) of
       None \<Rightarrow> Fault (Thrown ''BAD_OPERATION'')
     | Some (def, bases) \<Rightarrow> add_interface strcmp tcs def bases (Some oper) tab)"

subsection \<open>Lemmas\<close>

lemma ask_ok [simp]: "\<not> ie_throws env c \<Longrightarrow> ask env c s = Some (Ok (), s)"
  by (simp add: ask_def)

lemma ask_all_ok: "\<forall>c \<in> set cs. \<not> ie_throws env c \<Longrightarrow> ask_all env cs s = Some (Ok (), s)"
  by (induction cs) auto

lemma mo_at_ok [simp]: "iw_mappers s a = Some m \<Longrightarrow> mo_at a s = Some (Ok m, s)"
  by (simp add: mo_at_def)

lemma mo_mod_ok [simp]:
  "iw_mappers s a = Some m \<Longrightarrow> mo_mod a f s = Some (Ok (), s\<lparr>iw_mappers := (iw_mappers s)(a \<mapsto> f m)\<rparr>)"
  by (simp add: mo_mod_def)

lemma make_poa_ok:
  "\<not> ie_throws env (Make_POA name) \<Longrightarrow> iw_poas s name = None \<Longrightarrow> make_poa env name outward policies s
    = Some (Ok (), s\<lparr>iw_poas := (iw_poas s)(name \<mapsto> \<lparr>po_outward = outward, po_policies = policies, po_servant = None\<rparr>)\<rparr>)"
  by (simp add: make_poa_def)

definition calm :: "init_env \<Rightarrow> bool" where
  "calm env \<longleftrightarrow> (\<forall>c. \<not> ie_throws env c) \<and> \<not> ie_root_nil env \<and> ie_ifr_client env"

text \<open>What a mapper has when its own part of the initialisation is done.\<close>

definition in_poa :: "nat \<Rightarrow> poa_object" where
  "in_poa a = \<lparr>po_outward = False, po_policies = base_policies, po_servant = Some a\<rparr>"

definition out_poa :: "nat \<Rightarrow> poa_object" where
  "out_poa a = \<lparr>po_outward = True, po_policies = base_policies @ [BIDIRECTIONAL_BOTH], po_servant = Some a\<rparr>"

definition placed :: "mapper_object \<Rightarrow> mapper_object" where
  "placed m = m\<lparr>mo_orb := True, mo_current := True, mo_in_poa := Some (mo_id m @ ''_i''), mo_out_poa := Some (mo_id m @ ''_o'')\<rparr>"

definition place :: "nat \<Rightarrow> mapper_object \<Rightarrow> init_world \<Rightarrow> init_world" where
  "place a m s = s\<lparr>iw_mappers := (iw_mappers s)(a \<mapsto> placed m),
     iw_poas := (iw_poas s)(mo_id m @ ''_i'' \<mapsto> in_poa a, mo_id m @ ''_o'' \<mapsto> out_poa a)\<rparr>"

lemma base_init_ok:
  assumes "calm env" and "iw_mappers s a = Some m" and "iw_poas s (mo_id m @ ''_i'') = None" and "iw_poas s (mo_id m @ ''_o'') = None"
  shows "base_init env a nxt s = nxt (place a m s)"
proof -
  have e: "\<not> ie_throws env c" "\<not> ie_root_nil env" for c using assms(1) by (simp_all add: calm_def)
  let ?m = "m\<lparr>mo_orb := True, mo_current := True\<rparr>"
  let ?s = "s\<lparr>iw_mappers := (iw_mappers s)(a \<mapsto> ?m)\<rparr>"
  let ?t = "?s\<lparr>iw_poas := (iw_poas s)(mo_id m @ ''_i'' \<mapsto> in_poa a), iw_mappers := (iw_mappers s)(a \<mapsto> ?m\<lparr>mo_in_poa := Some (mo_id m @ ''_i'')\<rparr>)\<rparr>"
  have i: "in_poa_setup env a (mo_id m) ?s = Some (Ok (), ?t)"
    using e assms(3) by (simp add: in_poa_setup_def make_poa_ok put_servant_def in_poa_def)
  have o: "out_poa_setup env a (mo_id m) ?t = Some (Ok (), place a m s)"
    using e assms(4) by (simp add: out_poa_setup_def make_poa_ok put_servant_def out_poa_def place_def placed_def)
  show ?thesis using e assms(2) i o by (simp add: base_init_def ask_all_ok)
qed

text \<open>The end of the generic mapper's initialisation touches nothing but the mapper and the configuration.\<close>

lemma ifr_init_ok:
  assumes "calm env" and "iw_mappers s a = Some m"
  shows "\<exists>r x cfg. ifr_init env a s = Some (Ok r, s\<lparr>iw_mappers := (iw_mappers s)(a \<mapsto> m\<lparr>mo_ifr := x\<rparr>), iw_config := cfg\<rparr>) \<and> x \<noteq> Unset"
proof (cases "collocate_ifr (ie_src env)")
  case False
  then show ?thesis using assms by (intro exI [of _ 0] exI [of _ NoServer] exI [of _ "iw_config s"]) (simp add: ifr_init_def)
next
  case True
  then show ?thesis using assms
    by (intro exI [of _ "ie_ifr_result env"] exI [of _ Server] exI [of _ "snd (get_ifr_options (ie_src env) False (iw_config s))"])
      (simp add: ifr_init_def calm_def)
qed

text \<open>The names of the POAs of a chain.\<close>

definition poa_names :: "string list \<Rightarrow> string set" where
  "poa_names ids = {i @ ''_i'' | i. i \<in> set ids} \<union> {i @ ''_o'' | i. i \<in> set ids}"

lemma poa_names_simps [simp]:
  "poa_names [] = {}" "poa_names (i # ids) = {i @ ''_i'', i @ ''_o''} \<union> poa_names ids"
  by (auto simp: poa_names_def)

lemma poa_name_in [simp]: "i @ ''_i'' \<in> poa_names ids \<longleftrightarrow> i \<in> set ids" "i @ ''_o'' \<in> poa_names ids \<longleftrightarrow> i \<in> set ids"
  by (auto simp: poa_names_def)

definition ready :: "init_world \<Rightarrow> nat \<Rightarrow> string \<Rightarrow> bool" where
  "ready s a nm \<longleftrightarrow> (\<exists>m. iw_mappers s a = Some m \<and> mo_id m = nm \<and> mo_in_poa m = Some (nm @ ''_i'') \<and> mo_out_poa m = Some (nm @ ''_o'')
     \<and> iw_poas s (nm @ ''_i'') = Some (in_poa a) \<and> iw_poas s (nm @ ''_o'') = Some (out_poa a)
     \<and> (mo_generic m \<longrightarrow> mo_optable m \<and> mo_ifr m \<noteq> Unset \<and> mo_ifr_client m))"

lemma ready_cong:
  "iw_mappers s' a = iw_mappers s a \<Longrightarrow> iw_poas s' (nm @ ''_i'') = iw_poas s (nm @ ''_i'') \<Longrightarrow>
   iw_poas s' (nm @ ''_o'') = iw_poas s (nm @ ''_o'') \<Longrightarrow> ready s' a nm = ready s a nm"
  by (simp add: ready_def)

text \<open>One mapper in front of a rest that is initialised whatever the first one did.\<close>

lemma first_init_ok:
  assumes env: "calm env" and m: "iw_mappers s a = Some m" and free: "iw_poas s (mo_id m @ ''_i'') = None" "iw_poas s (mo_id m @ ''_o'') = None"
    and rest: "\<And>t. iw_poas t = iw_poas (place a m s) \<Longrightarrow> (\<forall>b. b \<noteq> a \<longrightarrow> iw_mappers t b = iw_mappers s b) \<Longrightarrow>
      \<exists>t'. nxt t = Some (Ok 1, t') \<and> iw_mappers t' a = iw_mappers t a \<and> P t'
        \<and> (\<forall>n \<in> {mo_id m @ ''_i'', mo_id m @ ''_o''}. iw_poas t' n = iw_poas t n)"
    and keep: "\<And>t x cfg. P t \<Longrightarrow> P (t\<lparr>iw_mappers := (iw_mappers t)(a := x), iw_config := cfg\<rparr>)"
  shows "\<exists>s'. (if mo_generic m then generic_init env a nxt else base_init env a nxt) s = Some (Ok 1, s') \<and> ready s' a (mo_id m) \<and> P s'"
proof (cases "mo_generic m")
  case False
  let ?t = "place a m s"
  obtain t' where t: "nxt ?t = Some (Ok 1, t')" "iw_mappers t' a = iw_mappers ?t a" "P t'"
    "\<forall>n \<in> {mo_id m @ ''_i'', mo_id m @ ''_o''}. iw_poas t' n = iw_poas ?t n"
    using rest [of ?t] by (auto simp: place_def)
  have "ready t' a (mo_id m)" using t(2,4) False by (simp add: ready_def place_def placed_def)
  with t False base_init_ok [OF env m free, of nxt] show ?thesis by simp
next
  case True
  let ?m = "m\<lparr>mo_orb := True, mo_current := True, mo_optable := True\<rparr>"
  let ?s = "s\<lparr>iw_mappers := (iw_mappers s)(a \<mapsto> ?m)\<rparr>" let ?t = "place a ?m ?s"
  have b: "base_init env a nxt ?s = nxt ?t" using base_init_ok [OF env, of ?s a ?m nxt] free by simp
  obtain t' where t: "nxt ?t = Some (Ok 1, t')" "iw_mappers t' a = iw_mappers ?t a" "P t'"
    "\<forall>n \<in> {mo_id m @ ''_i'', mo_id m @ ''_o''}. iw_poas t' n = iw_poas ?t n"
    using rest [of ?t] by (auto simp: place_def)
  have ta: "iw_mappers t' a = Some (placed ?m)" using t(2) by (simp add: place_def)
  obtain r x cfg where i: "ifr_init env a t' = Some (Ok r, t'\<lparr>iw_mappers := (iw_mappers t')(a \<mapsto> (placed ?m)\<lparr>mo_ifr := x\<rparr>), iw_config := cfg\<rparr>)" "x \<noteq> Unset"
    using ifr_init_ok [OF env ta] by blast
  let ?s' = "t'\<lparr>iw_mappers := (iw_mappers t')(a \<mapsto> (placed ?m)\<lparr>mo_ifr := x, mo_ifr_client := True\<rparr>), iw_config := cfg\<rparr>"
  have "generic_init env a nxt s = Some (Ok 1, ?s')"
    using env m b t(1) i(1) by (simp add: generic_init_def calm_def)
  moreover have "ready ?s' a (mo_id m)" using t(4) i(2) by (simp add: ready_def place_def placed_def)
  ultimately show ?thesis using True keep [OF t(3)] by auto
qed

lemma chain_init_ok:
  assumes "calm env" and "list_all2 (\<lambda>a i. map_option mo_id (iw_mappers s a) = Some i) as ids" and "distinct as" and "distinct ids"
    and "\<forall>n \<in> poa_names ids. iw_poas s n = None"
  shows "\<exists>s'. chain_init env as s = Some (Ok 1, s') \<and> list_all2 (ready s') as ids
    \<and> (\<forall>n. n \<notin> poa_names ids \<longrightarrow> iw_poas s' n = iw_poas s n) \<and> (\<forall>b. b \<notin> set as \<longrightarrow> iw_mappers s' b = iw_mappers s b)"
  using assms(2-5)
proof (induction as arbitrary: s ids)
  case Nil
  then show ?case by simp
next
  case (Cons a as)
  then obtain m ids' where m: "iw_mappers s a = Some m" "ids = mo_id m # ids'"
    "list_all2 (\<lambda>a i. map_option mo_id (iw_mappers s a) = Some i) as ids'"
    by (auto simp: list_all2_Cons1)
  have d: "a \<notin> set as" "distinct as" "mo_id m \<notin> set ids'" "distinct ids'" using Cons.prems(2,3) m(2) by auto
  let ?P = "\<lambda>t. list_all2 (ready t) as ids' \<and> (\<forall>n. n \<notin> poa_names ids \<longrightarrow> iw_poas t n = iw_poas s n)
    \<and> (\<forall>b. b \<notin> set (a # as) \<longrightarrow> iw_mappers t b = iw_mappers s b)"
  have "\<exists>s'. (if mo_generic m then generic_init env a (chain_init env as) else base_init env a (chain_init env as)) s = Some (Ok 1, s')
    \<and> ready s' a (mo_id m) \<and> ?P s'"
  proof (rule first_init_ok [OF assms(1) m(1)])
    show "iw_poas s (mo_id m @ ''_i'') = None" "iw_poas s (mo_id m @ ''_o'') = None" using Cons.prems(4) m(2) by auto
  next
    fix t :: init_world and x cfg
    assume P: "?P t"
    have "list_all2 (ready (t\<lparr>iw_mappers := (iw_mappers t)(a := x), iw_config := cfg\<rparr>)) as ids'"
      using conjunct1 [OF P] by (rule list.rel_mono_strong) (use d(1) in \<open>auto simp: ready_def\<close>)
    then show "?P (t\<lparr>iw_mappers := (iw_mappers t)(a := x), iw_config := cfg\<rparr>)" using P by simp
  next
    fix t :: init_world
    assume t: "iw_poas t = iw_poas (place a m s)" "\<forall>b. b \<noteq> a \<longrightarrow> iw_mappers t b = iw_mappers s b"
    have "list_all2 (\<lambda>a i. map_option mo_id (iw_mappers t a) = Some i) as ids'"
      using m(3) by (rule list.rel_mono_strong) (use t(2) d(1) in auto)
    moreover have "\<forall>n \<in> poa_names ids'. iw_poas t n = None"
      using t(1) Cons.prems(4) m(2) d(3) by (auto simp: place_def)
    ultimately obtain t' where t': "chain_init env as t = Some (Ok 1, t')" "list_all2 (ready t') as ids'"
      "\<forall>n. n \<notin> poa_names ids' \<longrightarrow> iw_poas t' n = iw_poas t n" "\<forall>b. b \<notin> set as \<longrightarrow> iw_mappers t' b = iw_mappers t b"
      using Cons.IH [OF _ d(2,4)] by blast
    then show "\<exists>t'. chain_init env as t = Some (Ok 1, t') \<and> iw_mappers t' a = iw_mappers t a \<and> ?P t'
        \<and> (\<forall>n \<in> {mo_id m @ ''_i'', mo_id m @ ''_o''}. iw_poas t' n = iw_poas t n)"
      using t d(1,3) m(2) by (intro exI [of _ t']) (auto simp: place_def)
  qed
  then show ?case using m by auto
qed

text \<open>A member of a mapper, and the members that setting up the POAs does not touch.\<close>

definition member_is :: "(mapper_object \<Rightarrow> 'v) \<Rightarrow> nat \<Rightarrow> 'v \<Rightarrow> init_world \<Rightarrow> bool" where
  "member_is f a v s \<longleftrightarrow> map_option f (iw_mappers s a) = Some v"

definition setup_keeps :: "(mapper_object \<Rightarrow> 'v) \<Rightarrow> bool" where
  "setup_keeps f \<longleftrightarrow> (\<forall>m. f (m\<lparr>mo_orb := True\<rparr>) = f m \<and> f (m\<lparr>mo_current := True\<rparr>) = f m
     \<and> (\<forall>p. f (m\<lparr>mo_in_poa := p\<rparr>) = f m) \<and> (\<forall>p. f (m\<lparr>mo_out_poa := p\<rparr>) = f m))"

lemma setup_keeps_members [simp]: "setup_keeps mo_ifr" "setup_keeps mo_generic"
  by (simp_all add: setup_keeps_def)

lemma keeps_mo_at [intro, simp]: "keeps P (mo_at b)"
  by (auto simp: keeps_def mo_at_def split: option.splits)

lemma keeps_ask [intro, simp]: "keeps P (ask env c)"
  by (simp add: ask_def)

lemma keeps_mo_mod [intro]: "(\<And>m. b = a \<Longrightarrow> f (g m) = f m) \<Longrightarrow> keeps (member_is f a v) (mo_mod b g)"
  unfolding mo_mod_def keeps_def member_is_def
  by (auto simp: bindA_def mo_at_def split: option.splits)

lemma keeps_ask_all [intro, simp]: "keeps P (ask_all env cs)"
proof (induction cs)
  case Nil
  show ?case unfolding ask_all.simps by (rule keeps_basic)
next
  case (Cons c cs)
  then show ?case unfolding ask_all.simps by (intro keeps_seqA keeps_ask)
qed

lemma keeps_poas [intro, simp]:
  "keeps (member_is f a v) (make_poa env name outward ps)" "keeps (member_is f a v) (put_servant env name b)"
  unfolding make_poa_def put_servant_def
  by (intro keeps_seqA keeps_ask; auto simp: keeps_def member_is_def split: if_splits)+

lemma keeps_base_init:
  assumes "setup_keeps f" and "keeps (member_is f a v) nxt"
  shows "keeps (member_is f a v) (base_init env b nxt)"
  unfolding base_init_def in_poa_setup_def out_poa_setup_def
  by (intro keeps_seqA keeps_bindA keeps_mo_mod keeps_ask keeps_ask_all keeps_mo_at keeps_poas keeps_basic assms(2))
     (use assms(1) in \<open>auto simp: setup_keeps_def\<close>)

lemma keeps_ifr_init: "b \<noteq> a \<or> (\<forall>m x. f (m\<lparr>mo_ifr := x\<rparr>) = f m) \<Longrightarrow> keeps (member_is f a v) (ifr_init env b)"
  unfolding ifr_init_def by (intro keeps_if keeps_seqA keeps_mo_mod keeps_ask keeps_modA keeps_basic) (auto simp: member_is_def)

lemma keeps_generic_init:
  assumes "setup_keeps f" and "keeps (member_is f a v) nxt"
    and "b \<noteq> a \<or> (\<forall>m x. f (m\<lparr>mo_ifr := x\<rparr>) = f m)" and "\<forall>m. f (m\<lparr>mo_optable := True\<rparr>) = f m" and "\<forall>m x. f (m\<lparr>mo_ifr_client := x\<rparr>) = f m"
  shows "keeps (member_is f a v) (generic_init env b nxt)"
  unfolding generic_init_def
  by (intro keeps_bindA keeps_seqA keeps_base_init assms(1,2) keeps_mo_mod keeps_ifr_init assms(3) keeps_ask keeps_basic)
     (use assms(1,4,5) in \<open>auto simp: setup_keeps_def\<close>)

lemma keeps_chain_init: "a \<notin> set as \<Longrightarrow> keeps (member_is mo_ifr a v) (chain_init env as)"
proof (induction as)
  case (Cons b as)
  then show ?case unfolding chain_init.simps
    by (intro keeps_bindA keeps_if keeps_generic_init keeps_base_init keeps_mo_at) auto
qed (unfold chain_init.simps, rule keeps_basic)

lemma keeps_generic: "keeps (member_is mo_generic a v) (chain_init env as)"
proof (induction as)
  case (Cons b as)
  then show ?case unfolding chain_init.simps
    by (intro keeps_bindA keeps_if keeps_generic_init keeps_base_init keeps_mo_at) auto
qed (unfold chain_init.simps, rule keeps_basic)

abbreviation ifr_unset :: "nat \<Rightarrow> init_world \<Rightarrow> bool" where
  "ifr_unset a \<equiv> member_is mo_ifr a Unset"

text \<open>The generic mapper's own steps after the chain behind it is initialised do not throw when the repository is there.\<close>

lemma generic_tail_quiet:
  assumes "\<not> ie_throws env Ifr_init" and "ie_ifr_client env"
  shows "throw_keeps (ifr_unset a) (bindA (ifr_init env a) (\<lambda>ignored. seqA (mo_mod a (\<lambda>m. m\<lparr>mo_ifr_client := ie_ifr_client env\<rparr>))
    (seqA (orA (ie_ifr_client env) (Thrown ''INTF_REPOS'')) (retA result))))"
  using assms by (auto simp: throw_keeps_def member_is_def ifr_init_def)

lemma generic_init_unset:
  assumes "\<not> ie_throws env Ifr_init" and "ie_ifr_client env" and "keeps (ifr_unset a) nxt"
  shows "throw_keeps (ifr_unset a) (generic_init env a nxt)"
  unfolding generic_init_def
  by (intro throw_keeps_seqA throw_keeps_bindA keeps_ask keeps_mo_mod keeps_base_init setup_keeps_members assms(3) generic_tail_quiet assms(1,2)) auto

text \<open>The host id is that of the first address that is not a loopback address, if there is one.\<close>

lemma host_id_loop_done [simp]: "host_id_loop addrs False hid = hid"
  by (cases addrs) auto

lemma host_id_first:
  "host_id_loop addrs True hid = (case find (\<lambda>(inet, h, loopback). inet \<and> \<not> loopback) addrs of
      Some (inet, h, loopback) \<Rightarrow> h
    | None \<Rightarrow> last (hid # map (\<lambda>(inet, h, loopback). h) (filter fst addrs)))"
proof (induction addrs arbitrary: hid)
  case (Cons x addrs)
  obtain inet h loopback where x: "x = (inet, h, loopback)" by (cases x)
  consider "\<not> inet" | "inet" "\<not> loopback" | "inet" "loopback" by blast
  then show ?case
  proof cases
    case 1
    with x Cons.IH [of hid] show ?thesis by (simp split: option.splits)
  next
    case 2
    with x show ?thesis by simp
  next
    case 3
    with x Cons.IH [of h] show ?thesis by (simp split: option.splits)
  qed
qed simp

subsection \<open>Properties\<close>

text \<open>
  C22: The initialisation of a chain of mappers with different names gives every mapper of it a POA that faces inward and one that faces outward:
  below the manager of its side, with the mapper as its default servant, and with bidirectional connections outward only. The generic mapper also has its
  table of operations and the interface repository. Other POAs and other mappers stay as they are.
\<close>

theorem mapper_chain_initialised:
  assumes "calm env" and "list_all2 (\<lambda>a i. map_option mo_id (iw_mappers s a) = Some i) as ids" and "distinct as" and "distinct ids"
    and "\<forall>n \<in> poa_names ids. iw_poas s n = None"
  shows "\<exists>s'. chain_init env as s = Some (Ok 1, s') \<and> list_all2 (ready s') as ids
    \<and> (\<forall>n. n \<notin> poa_names ids \<longrightarrow> iw_poas s' n = iw_poas s n) \<and> (\<forall>b. b \<notin> set as \<longrightarrow> iw_mappers s' b = iw_mappers s b)"
  using assms by (rule chain_init_ok)

text \<open>
  A generic mapper whose initialisation an exception leaves before the interface repository is set up, be it an exception of a mapper behind it
  in the chain, cannot be destroyed: its destructor looks at a pointer that never got a value.
\<close>

theorem failed_init_bad_pointer:
  assumes "iw_mappers s a = Some m" and "mo_generic m" and "mo_ifr m = Unset" and "a \<notin> set as"
    and "\<not> ie_throws env Ifr_init" and "ie_ifr_client env" and "chain_init env (a # as) s = Some (Fault (Thrown ex), s')"
  shows "\<exists>s''. generic_dtor env a s' = Some (Fault Uninitialised, s'')"
proof -
  have "generic_init env a (chain_init env as) s = Some (Fault (Thrown ex), s')" using assms(1,2,7) by simp
  moreover have "ifr_unset a s" using assms(1,3) by (simp add: member_is_def)
  ultimately have "ifr_unset a s'"
    using generic_init_unset [OF assms(5,6) keeps_chain_init [OF assms(4)], of env] by (auto simp: throw_keeps_def)
  then obtain m' where "iw_mappers s' a = Some m'" "mo_ifr m' = Unset" by (auto simp: member_is_def)
  then show ?thesis by (simp add: generic_dtor_def ifr_fini_def)
qed

subsection \<open>Samples\<close>

definition sample_init_env :: "(init_call \<Rightarrow> bool) \<Rightarrow> init_env" where
  "sample_init_env ths = \<lparr>ie_throws = ths, ie_root_nil = False,
     ie_src = \<lparr>cs_value = (\<lambda>t d. d), cs_long = (\<lambda>t d. d), cs_bool = (\<lambda>t d. d), cs_debug = 0\<rparr>, ie_ifr_result = 0, ie_ifr_client = True\<rparr>"

definition sample_init_world :: init_world where
  "sample_init_world = \<lparr>iw_mappers = [1 \<mapsto> new_generic_mapper, 2 \<mapsto> new_null_mapper], iw_poas = Map.empty, iw_config = fresh_config\<rparr>"

theorem mapper_chain_initialised_witness:
  "\<exists>s'. chain_init (sample_init_env (\<lambda>c. False)) [1, 2] sample_init_world = Some (Ok 1, s')
    \<and> ready s' 1 ''_lorica_generic'' \<and> ready s' 2 ''_lorica_null''"
proof -
  have "calm (sample_init_env (\<lambda>c. False))" by (simp add: calm_def sample_init_env_def)
  moreover have "list_all2 (\<lambda>a i. map_option mo_id (iw_mappers sample_init_world a) = Some i) [1, 2] [''_lorica_generic'', ''_lorica_null'']"
    by (simp add: sample_init_world_def new_generic_mapper_def new_null_mapper_def new_mapper_object_def)
  moreover have "distinct [1 :: nat, 2]" "distinct [''_lorica_generic'', ''_lorica_null'']" by simp_all
  moreover have "\<forall>n \<in> poa_names [''_lorica_generic'', ''_lorica_null'']. iw_poas sample_init_world n = None"
    by (simp add: sample_init_world_def)
  ultimately obtain s' where "chain_init (sample_init_env (\<lambda>c. False)) [1, 2] sample_init_world = Some (Ok 1, s')"
    "list_all2 (ready s') [1, 2] [''_lorica_generic'', ''_lorica_null'']"
    using mapper_chain_initialised by blast
  then show ?thesis by (intro exI [of _ s']) (simp del: chain_init.simps)
qed

text \<open>The POA of the null mapper, which is behind the generic mapper, cannot be created.\<close>

theorem failed_init_bad_pointer_witness:
  "\<exists>s' s''. chain_init (sample_init_env (\<lambda>c. c = Make_POA ''_lorica_null_o'')) [1, 2] sample_init_world = Some (Fault (Thrown ''CORBA''), s')
    \<and> generic_dtor (sample_init_env (\<lambda>c. c = Make_POA ''_lorica_null_o'')) 1 s' = Some (Fault Uninitialised, s'')"
proof -
  let ?env = "sample_init_env (\<lambda>c. c = Make_POA ''_lorica_null_o'')"
  obtain s' where r: "chain_init ?env [1, 2] sample_init_world = Some (Fault (Thrown ''CORBA''), s')"
    by (simp add: sample_init_world_def new_generic_mapper_def new_null_mapper_def new_mapper_object_def generic_init_def base_init_def
        in_poa_setup_def out_poa_setup_def make_poa_def put_servant_def ask_def sample_init_env_def base_policies_def)
  have m: "iw_mappers sample_init_world 1 = Some new_generic_mapper" "mo_generic new_generic_mapper" "mo_ifr new_generic_mapper = Unset"
    by (simp_all add: sample_init_world_def new_generic_mapper_def new_mapper_object_def)
  have "(1 :: nat) \<notin> set [2]" "\<not> ie_throws ?env Ifr_init" "ie_ifr_client ?env" by (simp_all add: sample_init_env_def)
  from failed_init_bad_pointer [OF m this r] r show ?thesis by blast
qed

end
