(* ===== verification/Startup.thy ===== *)
theory Startup
  imports MapperInit ProxyRequest
begin

text \<open>
  From the start of the mappers to the first request: a chain of mappers is initialised (\<open>MapperInit\<close>), the reference mapper works on it
  (\<open>ReferenceMapper\<close>), and a request to a reference that it gave out arrives (\<open>ProxyRequest\<close>). \<open>mapper_view\<close> is the mapper that the last two see of
  a mapper object: its POAs by their names, its evaluators as its constructor leaves them and its table as the configuration asks for it.
\<close>

definition mapper_view :: "config_src \<Rightarrow> string list \<Rightarrow> mapper_object \<Rightarrow> string mapper" where
  "mapper_view src types m = \<lparr>mkind = (if mo_generic m then GenericMapper else NullMapper types),
     evaluators = (if mo_generic m then [] else [[]]), mapped_values = new_mapped_values src,
     in_facing_poa = the (mo_in_poa m), out_facing_poa = the (mo_out_poa m)\<rparr>"

text \<open>A new table is empty, and there is room in it.\<close>

lemma new_table_store:
  assumes "sz \<noteq> 0"
  shows "store_ok {} (\<lambda>_. 0) (new_table gc sz, \<lambda>_. None)" and "room (new_table gc sz)"
proof -
  show "store_ok {} (\<lambda>_. 0) (new_table gc sz, \<lambda>_. None)"
    using new_table_ok [OF assms] by (simp add: store_ok_def counted_def)
  show "room (new_table gc sz)" using assms by (simp add: room_def new_table_def limit_def word_gt_0)
qed

text \<open>A null mapper that is initialised is ready for a server of any type that it takes.\<close>

lemma started_ready:
  assumes "ready s a nm" and "iw_mappers s a = Some m" and "\<not> mo_generic m" and "types = [] \<or> type_of br orig \<in> set types"
    and "cs_bool src ''CacheProxyReferences'' False"
    and "fst (already_mapped br (mapper_view src types m) orig True) = NOT_MAPPED"
  shows "server_ready br ifr (\<lambda>_. 0) b orig (mapper_view src types m) ms (new_table (cs_long src ''GC_Period_Seconds'' 60) 1024)
      (new_ref_mapper found iort sec (mapper_view src types m # ms) (\<lambda>_. None))"
    and "out_facing_poa (mapper_view src types m) = nm @ ''_o''"
proof -
  have "fst (evaluator_for ifr (mapper_view src types m) (type_of br orig)) \<noteq> None"
    using assms(3,4) by (auto simp: mapper_view_def evaluator_for_def null_evaluator_for_def evaluator_head_def)
  then show "server_ready br ifr (\<lambda>_. 0) b orig (mapper_view src types m) ms (new_table (cs_long src ''GC_Period_Seconds'' 60) 1024)
      (new_ref_mapper found iort sec (mapper_view src types m # ms) (\<lambda>_. None))"
    using assms(5,6) new_table_store [of 1024]
    by (simp add: server_ready_def new_ref_mapper_def) (simp add: mapper_view_def new_mapped_values_def)
  show "out_facing_poa (mapper_view src types m) = nm @ ''_o''" using assms(1,2) by (auto simp: ready_def mapper_view_def)
qed

text \<open>
  C7: From a fresh start to a request. A chain whose first mapper is the null mapper is initialised, with the caching of proxy references switched on; a server that
  is mapped then gets a reference at the mapper's outward POA, which has the outward manager and the mapper as default servant, and a request to the reference's object id comes out
  of the dispatch as one request with the same operation to the server.
\<close>

theorem started_mapper_serves:
  assumes "calm env" and "iw_mappers s a = Some new_null_mapper"
    and "list_all2 (\<lambda>a i. map_option mo_id (iw_mappers s a) = Some i) as ids" and "distinct (a # as)" and "distinct (''_lorica_null'' # ids)"
    and "\<forall>n \<in> poa_names (''_lorica_null'' # ids). iw_poas s n = None"
    and "cs_bool (ie_src env) ''CacheProxyReferences'' False" and "types = [] \<or> type_of br orig \<in> set types"
    and "broker_ok br" and "\<forall>m. mapped_values m \<noteq> None \<longrightarrow> fst (already_mapped br m orig True) = NOT_MAPPED"
    and "type_of br (original_ref br orig) = type_of br orig" and "secure \<longrightarrow> sec"
    and "\<not> interface_query strcmp request" and "response_expected request \<longrightarrow> \<not> forwarded request \<and> \<not> sync_with_server request"
  shows "\<exists>s' m st1 oid. chain_init env (a # as) s = Some (Ok 1, s') \<and> iw_mappers s' a = Some m
    \<and> serve br ifr b secure orig name agnt (new_ref_mapper found iort sec (mapper_view (ie_src env) types m # ms) (\<lambda>_. None))
        = Ok (Some (make_ref br ''_lorica_null_o'' oid (type_of br orig)), st1)
    \<and> iw_poas s' ''_lorica_null_o'' = Some \<lparr>po_outward = True, po_policies = base_policies @ [BIDIRECTIONAL_BOTH], po_servant = Some a\<rparr>
    \<and> (\<forall>ps poa arguments. ps_chain ps = chain_of st1 \<and> ps_heap ps = rmvs st1 \<longrightarrow>
        (\<exists>ps' rh. dispatch view br ifr idef strcmp 0 poa oid request arguments ps
           = Some ([if response_expected request then Sendc (original_ref br orig) (sr_operation request) [] rh
                    else SendOneway (original_ref br orig) (sr_operation request) []], Ok (Some ps'))))"
proof -
  have "list_all2 (\<lambda>a i. map_option mo_id (iw_mappers s a) = Some i) (a # as) (''_lorica_null'' # ids)"
    using assms(2,3) by (simp add: new_null_mapper_def new_mapper_object_def)
  from chain_init_ok [OF assms(1) this assms(4-6)] obtain s' where i: "chain_init env (a # as) s = Some (Ok 1, s')" "ready s' a ''_lorica_null''"
    by (auto simp del: chain_init.simps)
  obtain m where m: "iw_mappers s' a = Some m" "iw_poas s' ''_lorica_null_o'' = Some (out_poa a)" using i(2) by (auto simp: ready_def)
  have "member_is mo_generic a False s" using assms(2) by (simp add: member_is_def new_null_mapper_def new_mapper_object_def)
  then have "member_is mo_generic a False s'" by (rule keepsD [OF keeps_generic i(1)])
  then have g: "\<not> mo_generic m" using m(1) by (simp add: member_is_def)
  let ?m = "mapper_view (ie_src env) types m"
  let ?st = "new_ref_mapper found iort sec (?m # ms) (\<lambda>_. None)" and ?t = "new_table (cs_long (ie_src env) ''GC_Period_Seconds'' 60) 1024"
  have "fst (already_mapped br ?m orig True) = NOT_MAPPED"
    using assms(7,10) by (simp add: mapper_view_def new_mapped_values_def)
  note r = started_ready [OF i(2) m(1) g assms(8,7) this]
  have k: "mkind ?m \<noteq> GenericMapper" using g by (simp add: mapper_view_def)
  have o: "out_facing_poa ?m = ''_lorica_null_o''" using r(2) by simp
  obtain st1 oid where "as_server_i br ifr b secure orig name agnt ?st = Ok (Some (make_ref br ''_lorica_null_o'' oid (type_of br orig)), st1)"
    "\<forall>ps poa arguments. ps_chain ps = chain_of st1 \<and> ps_heap ps = rmvs st1 \<longrightarrow>
        (\<exists>ps' rh. dispatch view br ifr idef strcmp 0 poa oid request arguments ps
           = Some ([if response_expected request then Sendc (original_ref br orig) (sr_operation request) [] rh
                    else SendOneway (original_ref br orig) (sr_operation request) []], Ok (Some ps')))"
    using served_request [where ifr = ifr and a = b and st = ?st and secure = secure and name = name and agnt = agnt and view = view and idef = idef,
        OF assms(9) r(1) assms(11) k assms(13,14), unfolded o] by blast
  moreover have "serve br ifr b secure orig name agnt ?st = as_server_i br ifr b secure orig name agnt ?st"
    using assms(12) by (intro serve_i) (simp add: new_ref_mapper_def)
  ultimately show ?thesis using i(1) m by (intro exI [of _ s'] exI [of _ m] exI [of _ st1] exI [of _ oid]) (simp add: out_poa_def del: chain_init.simps)
qed

subsection \<open>A sample\<close>

text \<open>The sample broker with POAs by name.\<close>

definition poa_number :: "string \<Rightarrow> nat" where
  "poa_number nm = (if nm = ''_lorica_null_o'' then 2 else 1)"

definition named_broker :: "(string, string) broker" where
  "named_broker = \<lparr>big_endian = False, br_pid = 4711, br_hostid = 77, key_of = key_of sample_broker, type_of = type_of sample_broker,
     make_ref = (\<lambda>p. make_ref sample_broker (poa_number p)), ref_id = (\<lambda>p. ref_id sample_broker (poa_number p)), poa_id = (\<lambda>p. poa_id sample_broker (poa_number p)),
     to_ior = to_ior sample_broker, of_ior = of_ior sample_broker, id_of_string = id_of_string sample_broker,
     string_of_id = string_of_id sample_broker, br_security = False, has_ssl = (\<lambda>r. False), with_policies = id\<rparr>"

lemma named_broker_ok: "broker_ok named_broker"
  using sample_broker_ok by (simp add: broker_ok_def named_broker_def)

definition caching_env :: init_env where
  "caching_env = (sample_init_env (\<lambda>c. False))\<lparr>ie_src := (ie_src (sample_init_env (\<lambda>c. False)))\<lparr>cs_bool := (\<lambda>t d. True)\<rparr>\<rparr>"

theorem started_mapper_serves_witness:
  "\<exists>s' m st1 oid ps ps' rh. chain_init caching_env [2] sample_init_world = Some (Ok 1, s') \<and> iw_mappers s' 2 = Some m
    \<and> serve named_broker (\<lambda>_. NilInterface) 5 False ''..|IDnative'' [] None
         (new_ref_mapper False None False [mapper_view (ie_src caching_env) [] m] (\<lambda>_. None))
       = Ok (Some (make_ref named_broker ''_lorica_null_o'' oid ''ID''), st1)
    \<and> dispatch sample_view named_broker (\<lambda>_. NilInterface) (\<lambda>_. sample_evaluator) strcmp_sign 0 ''p'' oid sample_request
        (\<lambda>nvs. Ok []) ps = Some ([Sendc ''..|IDnative'' ''op'' [] rh], Ok (Some ps'))"
proof -
  have o: "original_ref named_broker ''..|IDnative'' = ''..|IDnative''" "type_of named_broker ''..|IDnative'' = ''ID''"
    by (simp_all add: original_ref_def supports_secure_def named_broker_def sample_broker_def dots_def ref_body_def)
  have env: "calm caching_env" "cs_bool (ie_src caching_env) ''CacheProxyReferences'' False"
    by (simp_all add: calm_def caching_env_def sample_init_env_def)
  have w: "iw_mappers sample_init_world 2 = Some new_null_mapper" "\<forall>n \<in> poa_names [''_lorica_null'']. iw_poas sample_init_world n = None"
    by (simp_all add: sample_init_world_def)
  have nm: "\<forall>m. mapped_values m \<noteq> None \<longrightarrow> fst (already_mapped named_broker m ''..|IDnative'' True) = NOT_MAPPED"
    by (simp add: already_mapped_def named_broker_def sample_broker_def ref_body_def dots_def id_size_def)
  have d: "list_all2 (\<lambda>a i. map_option mo_id (iw_mappers sample_init_world a) = Some i) [] []" "distinct [2 :: nat]" "distinct [''_lorica_null'']"
    "[] = [] \<or> type_of named_broker ''..|IDnative'' \<in> set []" "False \<longrightarrow> False"
    "type_of named_broker (original_ref named_broker ''..|IDnative'') = type_of named_broker ''..|IDnative''"
    "response_expected sample_request \<longrightarrow> \<not> forwarded sample_request \<and> \<not> sync_with_server sample_request"
    by (simp_all add: o sample_request_def)
  obtain s' m st1 oid where s: "chain_init caching_env [2] sample_init_world = Some (Ok 1, s')" "iw_mappers s' 2 = Some m"
    "serve named_broker (\<lambda>_. NilInterface) 5 False ''..|IDnative'' [] None
         (new_ref_mapper False None False [mapper_view (ie_src caching_env) [] m] (\<lambda>_. None))
       = Ok (Some (make_ref named_broker ''_lorica_null_o'' oid ''ID''), st1)"
    "\<forall>ps poa arguments. ps_chain ps = chain_of st1 \<and> ps_heap ps = rmvs st1 \<longrightarrow>
        (\<exists>ps' rh. dispatch sample_view named_broker (\<lambda>_. NilInterface) (\<lambda>_. sample_evaluator) strcmp_sign 0 poa oid sample_request arguments ps
           = Some ([if response_expected sample_request then Sendc ''..|IDnative'' (sr_operation sample_request) [] rh
                    else SendOneway ''..|IDnative'' (sr_operation sample_request) []], Ok (Some ps')))"
    using started_mapper_serves [OF env(1) w(1) d(1,2,3) w(2) env(2) d(4) named_broker_ok nm d(6,5) sample_not_query d(7), unfolded o,
        of "\<lambda>_. NilInterface" 5 "[]" None False None "[]" sample_view "\<lambda>_. sample_evaluator"] by (elim exE conjE) blast
  let ?ps = "\<lparr>ps_chain = chain_of st1, ps_heap = rmvs st1, ps_next = 6, ps_optab = sample_optab\<rparr>"
  obtain ps' rh where "dispatch sample_view named_broker (\<lambda>_. NilInterface) (\<lambda>_. sample_evaluator) strcmp_sign 0 ''p'' oid sample_request
      (\<lambda>nvs. Ok []) ?ps = Some ([Sendc ''..|IDnative'' ''op'' [] rh], Ok (Some ps'))"
    using s(4) [rule_format, of ?ps "''p''" "\<lambda>nvs. Ok []"] by (auto simp: sample_request_def)
  with s(1-3) show ?thesis by blast
qed

end
