(* ===== verification/IorMapper.thy ===== *)
theory IorMapper
  imports ProxyRequest
begin

text \<open>
  The command line tool that maps one reference (src/utils/ior_mapper/ior_mapper.cpp): it reads a target's reference, has
  the reference mapper map it for use outside and writes the mapped reference to a file.

  The four settings are pointers, null after an option without an argument. The broker of the tool, the reference mapper
  that it reaches and the file system are the environment \<open>tool_env\<close>; \<open>'s\<close> is the state of the reference mapper. An exception of
  a call is a fault of it, and a fault of the remote mapper reaches the tool as an exception. The tool looks at the result of \<open>fopen\<close> only: what a file that could be opened
  has in it after the text was printed to it and it was closed is \<open>te_stored\<close>, the text itself when the system stores all of it.
\<close>

subsection \<open>The tool\<close>

record settings =
  target_ior :: "string option"
  ior_table_key :: "string option"
  mapped_file :: "string option"
  lorica_ior :: "string option"

definition default_settings :: settings where
  "default_settings = \<lparr>target_ior = Some ''file://target.ior'', ior_table_key = Some ''IORTableKey'', mapped_file = Some ''mapped.ior'',
     lorica_ior = Some ''corbaloc::localhost:4080/LORICA_REFERENCE_MAPPER''\<rparr>"

fun im_parse_args :: "(char \<times> string option) list \<Rightarrow> settings \<Rightarrow> int \<times> settings" where
  "im_parse_args [] stg = (0, stg)"
| "im_parse_args ((c, arg) # opts) stg =
     (if c = CHR ''i'' then im_parse_args opts (stg\<lparr>target_ior := arg\<rparr>)
      else if c = CHR ''l'' then im_parse_args opts (stg\<lparr>lorica_ior := arg\<rparr>)
      else if c = CHR ''m'' then im_parse_args opts (stg\<lparr>mapped_file := arg\<rparr>)
      else if c = CHR ''n'' then im_parse_args opts (stg\<lparr>ior_table_key := arg\<rparr>)
      else (-1, stg))"

record ('o, 's) tool_env =
  te_orb_init :: bool
  te_to_object :: "string option \<Rightarrow> 'o option result"
  te_non_existent :: "'o \<Rightarrow> bool result"
  te_is_mapper :: "'o option \<Rightarrow> bool result"
  te_as_server :: "'o \<Rightarrow> string option \<Rightarrow> 's \<Rightarrow> ('o option \<times> 's) result"
  te_to_string :: "'o \<Rightarrow> string result"
  te_may_write :: "string option \<Rightarrow> bool"
  te_stored :: "string option \<Rightarrow> string \<Rightarrow> string"

record 's tool_world =
  tw_files :: "string option \<rightharpoonup> string"
  tw_mapper :: 's

text \<open>The target, when it can be reached.\<close>

definition find_target :: "('o, 's) tool_env \<Rightarrow> settings \<Rightarrow> 'o option" where
  "find_target env stg = (case te_to_object env (target_ior stg) of
       Inl e \<Rightarrow> None
     | Inr None \<Rightarrow> None
     | Inr (Some target) \<Rightarrow> (case te_non_existent env target of
           Inl e \<Rightarrow> None
         | Inr gone \<Rightarrow> if gone then None else Some target))"

text \<open>The second half: the mapper is found, the target mapped, and the file written. Every failure gives 1.\<close>

definition write_ior :: "('o, 's) tool_env \<Rightarrow> settings \<Rightarrow> string \<Rightarrow> 's tool_world \<Rightarrow> int \<times> 's tool_world" where
  "write_ior env stg mapped_ior w = (if te_may_write env (mapped_file stg)
     then (0, w\<lparr>tw_files := (tw_files w)(mapped_file stg \<mapsto> te_stored env (mapped_file stg) mapped_ior)\<rparr>) else (1, w))"

definition map_target :: "('o, 's) tool_env \<Rightarrow> settings \<Rightarrow> 'o \<Rightarrow> 's tool_world \<Rightarrow> int \<times> 's tool_world" where
  "map_target env stg target w =
     (case bindR (te_to_object env (lorica_ior stg)) (te_is_mapper env) of
        Inl e \<Rightarrow> (1, w)
      | Inr False \<Rightarrow> (1, w)
      | Inr True \<Rightarrow> (case te_as_server env target (ior_table_key stg) (tw_mapper w) of
            Inl e \<Rightarrow> (1, w)
          | Inr (None, st) \<Rightarrow> (1, w\<lparr>tw_mapper := st\<rparr>)
          | Inr (Some obj, st) \<Rightarrow> (case te_to_string env obj of
                Inl e \<Rightarrow> (1, w\<lparr>tw_mapper := st\<rparr>)
              | Inr mapped_ior \<Rightarrow> write_ior env stg mapped_ior (w\<lparr>tw_mapper := st\<rparr>))))"

definition im_main :: "('o, 's) tool_env \<Rightarrow> (char \<times> string option) list \<Rightarrow> 's tool_world \<Rightarrow> int \<times> 's tool_world" where
  "im_main env opts w =
     (if \<not> te_orb_init env then (1, w)
      else case im_parse_args opts default_settings of (r, stg) \<Rightarrow>
        if r \<noteq> 0 then (1, w)
        else case find_target env stg of None \<Rightarrow> (1, w) | Some target \<Rightarrow> map_target env stg target w)"

subsection \<open>The tool and the reference mapper\<close>

text \<open>The environment in which the mapper is the one of Lorica; a null key cannot be sent.\<close>

definition lorica_call ::
    "('o, 'p) broker \<Rightarrow> (string \<Rightarrow> ifr_answer) \<Rightarrow> nat \<Rightarrow> 'o \<Rightarrow> string option \<Rightarrow> ('o, 'p) ref_mapper \<Rightarrow> ('o option \<times> ('o, 'p) ref_mapper) result" where
  "lorica_call br ifr a target key st = (case key of
       None \<Rightarrow> Fault (Thrown ''BAD_PARAM'')
     | Some name \<Rightarrow> as_server br ifr a (Some target) name None st)"

lemma im_main_zero:
  assumes "im_main env opts w = (0, w')"
  shows "\<exists>stg target obj ior. im_parse_args opts default_settings = (0, stg) \<and> find_target env stg = Some target
    \<and> te_as_server env target (ior_table_key stg) (tw_mapper w) = Ok (Some obj, tw_mapper w')
    \<and> te_to_string env obj = Ok ior \<and> te_may_write env (mapped_file stg) \<and> tw_files w' = (tw_files w)(mapped_file stg \<mapsto> te_stored env (mapped_file stg) ior)"
  using assms
  by (auto simp: im_main_def map_target_def write_ior_def split: prod.splits if_splits option.splits sum.splits bool.splits)

lemma im_main_failed:
  assumes "im_main env opts w = (r, w')" and "r \<noteq> 0"
  shows "r = 1 \<and> tw_files w' = tw_files w"
  using assms
  by (auto simp: im_main_def map_target_def write_ior_def split: prod.splits if_splits option.splits sum.splits bool.splits)

subsection \<open>Properties\<close>

text \<open>
  C21: What the exit status tells. With 0, the target was reached and mapped under the key, the reference that came back was not nil, and the file could be opened; it
  has what the system stored of the reference's text, and no other file changed. Whether that is the whole text the status does not tell, since the results of \<open>fprintf\<close> and \<open>fclose\<close> are not
  looked at. Otherwise the status is 1 and no file changed, although the mapper may keep a mapping that nobody was told of.
\<close>

theorem ior_mapper_status:
  assumes "im_main env opts w = (r, w')"
  shows "r = 0 \<and> (\<exists>stg target obj ior. im_parse_args opts default_settings = (0, stg) \<and> find_target env stg = Some target
      \<and> te_as_server env target (ior_table_key stg) (tw_mapper w) = Ok (Some obj, tw_mapper w')
      \<and> te_to_string env obj = Ok ior \<and> te_may_write env (mapped_file stg) \<and> tw_files w' = (tw_files w)(mapped_file stg \<mapsto> te_stored env (mapped_file stg) ior))
    \<or> r = 1 \<and> tw_files w' = tw_files w"
proof (cases "r = 0")
  case True
  with assms im_main_zero show ?thesis by (intro disjI1) simp
next
  case False
  with assms im_main_failed [OF assms] show ?thesis by simp
qed

text \<open>
  C18: The tool makes a target reachable when Lorica's first mapper takes the target's type, is not the generic one (with it the operation has to be known to the interface repository) and keeps
  a table (\<open>CacheProxyReferences\<close>, off by default) with room, and the target's reference is not itself a mapped one. Then, when the target and the mapper can be reached and the file can be opened
  and stores what is printed to it, the tool ends with 0 and the file has the text of a reference whose requests Lorica sends on to the target: a request to its object id, other than the two queries about the
  interface, comes out of the dispatch as one request with the same operation to the target. Its arguments are dropped, as the null evaluator does with them. The key of the command
  line is bound to that reference in the IOR table when it is free.
\<close>

theorem tool_makes_reachable:
  assumes "broker_ok br" and "server_ready br ifr own a orig m ms t (tw_mapper w)"
    and "type_of br (original_ref br orig) = type_of br orig" and "mkind m \<noteq> GenericMapper"
    and "\<not> interface_query strcmp request" and "response_expected request \<longrightarrow> \<not> forwarded request \<and> \<not> sync_with_server request"
    and "im_parse_args opts default_settings = (0, stg)" and "ior_table_key stg = Some name"
    and "te_orb_init env" and "te_to_object env (target_ior stg) = Ok (Some orig)" and "te_non_existent env orig = Ok False"
    and "te_to_object env (lorica_ior stg) = Ok obj" and "te_is_mapper env obj = Ok True" and "te_may_write env (mapped_file stg)"
    and "te_as_server env = lorica_call br ifr a" and "te_to_string env = (\<lambda>r. Ok (to_ior br r))" and "\<forall>text. te_stored env (mapped_file stg) text = text"
  shows "\<exists>w' r oid. im_main env opts w = (0, w') \<and> tw_files w' (mapped_file stg) = Some (to_ior br r)
    \<and> ior_table (tw_mapper w') = published br name r (tw_mapper w) \<and> ref_id br (out_facing_poa m) r = Some oid
    \<and> (\<forall>ps poa arguments. ps_chain ps = chain_of (tw_mapper w') \<and> ps_heap ps = rmvs (tw_mapper w') \<longrightarrow>
        (\<exists>ps' rh. dispatch view br ifr idef strcmp 0 poa oid request arguments ps
           = Some ([if response_expected request then Sendc (original_ref br orig) (sr_operation request) [] rh
                    else SendOneway (original_ref br orig) (sr_operation request) []], Ok (Some ps'))))"
proof -
  obtain r st oid where s: "as_server_i br ifr a False orig name None (tw_mapper w) = Ok (Some r, st)"
    "ior_table st = published br name r (tw_mapper w)" "ref_id br (out_facing_poa m) r = Some oid"
    "\<forall>ps poa arguments. ps_chain ps = chain_of st \<and> ps_heap ps = rmvs st \<longrightarrow>
        (\<exists>ps' rh. dispatch view br ifr idef strcmp 0 poa oid request arguments ps
           = Some ([if response_expected request then Sendc (original_ref br orig) (sr_operation request) [] rh
                    else SendOneway (original_ref br orig) (sr_operation request) []], Ok (Some ps')))"
    using served_request [OF assms(1-6), of False name None view idef] by blast
  let ?w = "w\<lparr>tw_mapper := st, tw_files := (tw_files w)(mapped_file stg \<mapsto> to_ior br r)\<rparr>"
  have "find_target env stg = Some orig" using assms(10,11) by (simp add: find_target_def)
  moreover have "te_as_server env orig (ior_table_key stg) (tw_mapper w) = Ok (Some r, st)"
    using s(1) assms(8,15) by (simp add: lorica_call_def as_server_def)
  ultimately have "im_main env opts w = (0, ?w)"
    using assms(7,9,12-14,16,17) by (simp add: im_main_def map_target_def write_ior_def)
  then show ?thesis using s(2-4) by (intro exI [of _ ?w] exI [of _ r] exI [of _ oid]) simp
qed

subsection \<open>Samples\<close>

definition sample_tool :: "(string, (string, nat) ref_mapper) tool_env" where
  "sample_tool = \<lparr>te_orb_init = True, te_to_object = (\<lambda>t. Ok (Some ''..|IDnative'')), te_non_existent = (\<lambda>r. Ok False), te_is_mapper = (\<lambda>r. Ok True),
     te_as_server = lorica_call sample_broker (\<lambda>_. NilInterface) 5, te_to_string = (\<lambda>r. Ok (to_ior sample_broker r)), te_may_write = (\<lambda>f. True),
     te_stored = (\<lambda>f text. text)\<rparr>"

definition sample_tool_world :: "(string, nat) ref_mapper tool_world" where
  "sample_tool_world = \<lparr>tw_files = Map.empty, tw_mapper = sample_ref_mapper\<rparr>"

text \<open>A run that succeeds, one with a full disk, which ends with 0 as well, and one with an option that does not exist.\<close>

lemma sample_served: "\<exists>r st. lorica_call sample_broker (\<lambda>_. NilInterface) 5 ''..|IDnative'' (Some ''IORTableKey'') sample_ref_mapper = Ok (Some r, st)"
  using as_server_i_fresh [OF sample_broker_ok sample_ready [OF insertI1] refl, of False "''IORTableKey''" None]
  by (auto simp: lorica_call_def as_server_def)

lemma sample_run:
  "\<exists>w'. im_main (sample_tool\<lparr>te_stored := f\<rparr>) [] sample_tool_world = (0, w')"
proof -
  obtain r st where "lorica_call sample_broker (\<lambda>_. NilInterface) 5 ''..|IDnative'' (Some ''IORTableKey'') sample_ref_mapper = Ok (Some r, st)"
    using sample_served by blast
  then show ?thesis
    by (simp add: im_main_def sample_tool_def default_settings_def find_target_def map_target_def write_ior_def sample_tool_world_def)
qed

theorem ior_mapper_status_witness:
  "(\<exists>w' ior. im_main sample_tool [] sample_tool_world = (0, w') \<and> tw_files w' = [Some ''mapped.ior'' \<mapsto> ior])
   \<and> (\<exists>w'. im_main (sample_tool\<lparr>te_stored := \<lambda>f text. []\<rparr>) [] sample_tool_world = (0, w') \<and> tw_files w' = [Some ''mapped.ior'' \<mapsto> []])
   \<and> (\<exists>w'. im_main sample_tool [(CHR ''x'', None)] sample_tool_world = (1, w') \<and> tw_files w' = Map.empty)"
proof (intro conjI)
  have files: "tw_files sample_tool_world = Map.empty" by (simp add: sample_tool_world_def)
  have stored: "te_stored sample_tool = (\<lambda>f text. text)" "sample_tool\<lparr>te_stored := \<lambda>f text. text\<rparr> = sample_tool" by (simp_all add: sample_tool_def)
  obtain w' where "im_main sample_tool [] sample_tool_world = (0, w')" using sample_run [of "\<lambda>f text. text"] unfolding stored(2) by blast
  with ior_mapper_status [OF this] show "\<exists>w' ior. im_main sample_tool [] sample_tool_world = (0, w') \<and> tw_files w' = [Some ''mapped.ior'' \<mapsto> ior]"
    by (auto simp: files default_settings_def)
  obtain w2 where "im_main (sample_tool\<lparr>te_stored := \<lambda>f text. []\<rparr>) [] sample_tool_world = (0, w2)" using sample_run [of "\<lambda>f text. []"] by blast
  with ior_mapper_status [OF this] show "\<exists>w'. im_main (sample_tool\<lparr>te_stored := \<lambda>f text. []\<rparr>) [] sample_tool_world = (0, w') \<and> tw_files w' = [Some ''mapped.ior'' \<mapsto> []]"
    by (auto simp: files default_settings_def)
  obtain r w3 where r: "im_main sample_tool [(CHR ''x'', None)] sample_tool_world = (r, w3)" by fastforce
  have "im_parse_args [(CHR ''x'', None)] default_settings = (-1, default_settings)" by simp
  with ior_mapper_status [OF r] r show "\<exists>w'. im_main sample_tool [(CHR ''x'', None)] sample_tool_world = (1, w') \<and> tw_files w' = Map.empty"
    by (auto simp: files)
qed

theorem tool_makes_reachable_witness:
  "\<exists>w' r oid. im_main sample_tool [(CHR ''n'', Some ''name''), (CHR ''m'', Some ''out.ior'')] sample_tool_world = (0, w')
    \<and> tw_files w' (Some ''out.ior'') = Some (to_ior sample_broker r) \<and> ref_id sample_broker 2 r = Some oid"
proof -
  let ?opts = "[(CHR ''n'', Some ''name''), (CHR ''m'', Some ''out.ior'')]"
  let ?stg = "default_settings\<lparr>ior_table_key := Some ''name'', mapped_file := Some ''out.ior''\<rparr>"
  have o: "original_ref sample_broker ''..|IDnative'' = ''..|IDnative''"
    by (simp add: original_ref_def supports_secure_def sample_broker_def)
  have w: "tw_mapper sample_tool_world = sample_ref_mapper" by (simp add: sample_tool_world_def)
  have a: "mkind sample_mapper \<noteq> GenericMapper" "out_facing_poa sample_mapper = 2"
    "response_expected sample_request \<longrightarrow> \<not> forwarded sample_request \<and> \<not> sync_with_server sample_request"
    "type_of sample_broker (original_ref sample_broker ''..|IDnative'') = type_of sample_broker ''..|IDnative''"
    by (simp_all add: sample_mapper_def sample_request_def o)
  have b: "im_parse_args ?opts default_settings = (0, ?stg)" "ior_table_key ?stg = Some ''name''" "mapped_file ?stg = Some ''out.ior''" by simp_all
  have c: "te_orb_init sample_tool" "te_to_object sample_tool t = Ok (Some ''..|IDnative'')" "te_non_existent sample_tool ''..|IDnative'' = Ok False"
    "te_is_mapper sample_tool x = Ok True" "te_may_write sample_tool t" "te_as_server sample_tool = lorica_call sample_broker (\<lambda>_. NilInterface) 5"
    "te_to_string sample_tool = (\<lambda>r. Ok (to_ior sample_broker r))" "\<forall>text. te_stored sample_tool t text = text" for t x
    by (simp_all add: sample_tool_def)
  from tool_makes_reachable [OF sample_broker_ok sample_ready [OF insertI1, folded w] a(4,1) sample_not_query a(3) b(1,2) c(1,2,3,2,4,5,6,7,8),
      of sample_view "\<lambda>_. sample_evaluator"]
  show ?thesis unfolding a(2) b(3) by blast
qed

end
