(* ===== verification/Posix.thy ===== *)
theory Posix
  imports Prelude
begin

text \<open>
  The operating system calls that the UNIX service loader makes, as POSIX specifies them: file descriptors, files
  by name, and advisory record locks. A descriptor is the lowest one that is free; a write lock belongs to the process and the
  file, is refused while another process has it, and goes when the process closes any descriptor of the file.
  What the specification leaves to the system, such as permissions and failing devices, is the record \<open>system\<close>.
\<close>

subsection \<open>State\<close>

record file_system =
  fs_names :: "string \<rightharpoonup> nat"
  fs_data :: "nat \<Rightarrow> string"
  fs_locks :: "nat \<rightharpoonup> nat"
  fs_next :: nat

record process =
  pr_pid :: nat
  pr_cwd :: string
  pr_fds :: "nat \<rightharpoonup> nat"

type_synonym os_state = "process \<times> file_system"

record system =
  may_open :: "string \<Rightarrow> bool"
  max_handles :: nat
  close_fails :: "nat \<Rightarrow> bool"
  setsid_ok :: bool
  sigaction_ok :: bool
  chdir_ok :: bool
  mkdir_ok :: bool
  truncate_ok :: bool
  write_ok :: bool
  fsync_ok :: bool

subsection \<open>Files and descriptors\<close>

definition resolve :: "string \<Rightarrow> string \<Rightarrow> string" where
  "resolve cwd path = (if take 1 path = ''/'' then path else if cwd = ''/'' then ''/'' @ path else cwd @ ''/'' @ path)"

fun first_free :: "(nat \<rightharpoonup> nat) \<Rightarrow> nat \<Rightarrow> nat \<Rightarrow> nat option" where
  "first_free fds n 0 = None"
| "first_free fds n (Suc k) = (if fds n = None then Some n else first_free fds (Suc n) k)"

text \<open>
  \<open>open\<close>, by whether it creates and whether it truncates the file; \<open>fopen\<close> for writing does both. The descriptor, or
  none for -1.
\<close>

definition os_open :: "system \<Rightarrow> bool \<Rightarrow> bool \<Rightarrow> string \<Rightarrow> os_state \<Rightarrow> nat option \<times> os_state" where
  "os_open sys creat trunc path s = (case s of (p, fs) \<Rightarrow>
     let name = resolve (pr_cwd p) path in
     if \<not> may_open sys name \<or> \<not> creat \<and> fs_names fs name = None then (None, s)
     else case first_free (pr_fds p) 0 (max_handles sys) of
       None \<Rightarrow> (None, s)
     | Some fd \<Rightarrow>
         let i = (case fs_names fs name of None \<Rightarrow> fs_next fs | Some i \<Rightarrow> i);
             fs = (if fs_names fs name = None
                   then fs\<lparr>fs_names := (fs_names fs)(name \<mapsto> i), fs_data := (fs_data fs)(i := []), fs_next := i + 1\<rparr> else fs);
             fs = (if trunc then fs\<lparr>fs_data := (fs_data fs)(i := [])\<rparr> else fs)
         in (Some fd, (p\<lparr>pr_fds := (pr_fds p)(fd \<mapsto> i)\<rparr>, fs)))"

definition drop_lock :: "nat \<Rightarrow> nat \<Rightarrow> file_system \<Rightarrow> file_system" where
  "drop_lock i q fs = (if fs_locks fs i = Some q then fs\<lparr>fs_locks := (fs_locks fs)(i := None)\<rparr> else fs)"

text \<open>\<open>close\<close>: whether it fails with an error other than \<open>EBADF\<close>.\<close>

definition os_close :: "system \<Rightarrow> nat \<Rightarrow> os_state \<Rightarrow> bool \<times> os_state" where
  "os_close sys fd s = (case s of (p, fs) \<Rightarrow> case pr_fds p fd of
       None \<Rightarrow> (False, s)
     | Some i \<Rightarrow> (close_fails sys fd, (p\<lparr>pr_fds := (pr_fds p)(fd := None)\<rparr>, drop_lock i (pr_pid p) fs)))"

definition os_dup2 :: "nat \<Rightarrow> nat \<Rightarrow> os_state \<Rightarrow> os_state" where
  "os_dup2 fd n s = (case s of (p, fs) \<Rightarrow> case pr_fds p fd of
       None \<Rightarrow> s
     | Some i \<Rightarrow> if n = fd then s else (p\<lparr>pr_fds := (pr_fds p)(n \<mapsto> i)\<rparr>,
         case pr_fds p n of None \<Rightarrow> fs | Some j \<Rightarrow> drop_lock j (pr_pid p) fs))"

subsection \<open>Locks\<close>

text \<open>\<open>fcntl\<close> with \<open>F_SETLK\<close> on the whole file, to lock for writing and to unlock: whether it succeeds.\<close>

definition os_setlk :: "nat \<Rightarrow> os_state \<Rightarrow> bool \<times> os_state" where
  "os_setlk fd s = (case s of (p, fs) \<Rightarrow> case pr_fds p fd of
       None \<Rightarrow> (False, s)
     | Some i \<Rightarrow> (case fs_locks fs i of
           None \<Rightarrow> (True, (p, fs\<lparr>fs_locks := (fs_locks fs)(i \<mapsto> pr_pid p)\<rparr>))
         | Some q \<Rightarrow> (q = pr_pid p, s)))"

definition os_unlk :: "nat \<Rightarrow> os_state \<Rightarrow> bool \<times> os_state" where
  "os_unlk fd s = (case s of (p, fs) \<Rightarrow> case pr_fds p fd of
       None \<Rightarrow> (False, s)
     | Some i \<Rightarrow> (True, (p, drop_lock i (pr_pid p) fs)))"

text \<open>Text goes to the end of the file, where a descriptor stands that was opened for writing or has truncated the file.\<close>

definition os_put :: "nat \<Rightarrow> string \<Rightarrow> os_state \<Rightarrow> os_state" where
  "os_put fd text s = (case s of (p, fs) \<Rightarrow> case pr_fds p fd of
       None \<Rightarrow> s
     | Some i \<Rightarrow> (p, fs\<lparr>fs_data := (fs_data fs)(i := fs_data fs i @ text)\<rparr>))"

definition os_truncate :: "nat \<Rightarrow> os_state \<Rightarrow> os_state" where
  "os_truncate fd s = (case s of (p, fs) \<Rightarrow> case pr_fds p fd of
       None \<Rightarrow> s
     | Some i \<Rightarrow> (p, fs\<lparr>fs_data := (fs_data fs)(i := [])\<rparr>))"

definition os_unlink :: "string \<Rightarrow> os_state \<Rightarrow> os_state" where
  "os_unlink path s = (case s of (p, fs) \<Rightarrow> (p, fs\<lparr>fs_names := (fs_names fs)(resolve (pr_cwd p) path := None)\<rparr>))"

text \<open>The end of a process closes its descriptors and gives up its locks.\<close>

definition os_exit :: "os_state \<Rightarrow> file_system" where
  "os_exit s = (case s of (p, fs) \<Rightarrow> fs\<lparr>fs_locks := (\<lambda>i. if fs_locks fs i = Some (pr_pid p) then None else fs_locks fs i)\<rparr>)"

subsection \<open>Facts\<close>

lemma first_free_Some:
  "first_free fds n k = Some m \<Longrightarrow> fds m = None \<and> n \<le> m \<and> m < n + k \<and> (\<forall>j. n \<le> j \<and> j < m \<longrightarrow> fds j \<noteq> None)"
proof (induction k arbitrary: n)
  case (Suc k)
  show ?case
  proof (cases "fds n")
    case None
    with Suc.prems show ?thesis by auto
  next
    case (Some i)
    with Suc.prems Suc.IH [of "Suc n"] show ?thesis by (auto dest: Suc_leI le_neq_implies_less)
  qed
qed simp

lemma first_free_ex: "fds m = None \<Longrightarrow> n \<le> m \<Longrightarrow> m < n + k \<Longrightarrow> \<exists>j. first_free fds n k = Some j"
proof (induction k arbitrary: n)
  case (Suc k)
  then show ?case by (cases "n = m") auto
qed simp

lemma first_free_zero: "fds 0 = None \<Longrightarrow> 0 < k \<Longrightarrow> first_free fds 0 k = Some 0"
  by (cases k) auto

lemma drop_lock_simps [simp]:
  "fs_names (drop_lock i q fs) = fs_names fs" "fs_data (drop_lock i q fs) = fs_data fs" "fs_next (drop_lock i q fs) = fs_next fs"
  "fs_locks (drop_lock i q fs) j = (if j = i \<and> fs_locks fs i = Some q then None else fs_locks fs j)"
  by (simp_all add: drop_lock_def)

lemma resolve_absolute [simp]: "resolve cwd (CHR ''/'' # path) = CHR ''/'' # path"
  by (simp add: resolve_def)

lemma os_open_Some:
  assumes "os_open sys creat trunc path (p, fs) = (Some fd, s)"
  shows "\<exists>i fs'. s = (p\<lparr>pr_fds := (pr_fds p)(fd \<mapsto> i)\<rparr>, fs') \<and> pr_fds p fd = None
    \<and> fs_names fs' (resolve (pr_cwd p) path) = Some i \<and> fs_locks fs' = fs_locks fs
    \<and> (trunc \<longrightarrow> fs_data fs' i = []) \<and> (fs_names fs (resolve (pr_cwd p) path) = Some i \<longrightarrow> fs_names fs' = fs_names fs
          \<and> (\<not> trunc \<longrightarrow> fs_data fs' = fs_data fs))
    \<and> (\<forall>j. fs_names fs (resolve (pr_cwd p) path) = Some j \<longrightarrow> i = j)"
  using assms first_free_Some [of "pr_fds p" 0 "max_handles sys" fd]
  by (auto simp: os_open_def Let_def split: if_splits option.splits)

lemma os_open_file:
  assumes "may_open sys (resolve (pr_cwd p) path)" and "fs_names fs (resolve (pr_cwd p) path) = Some i"
    and "first_free (pr_fds p) 0 (max_handles sys) = Some fd"
  shows "os_open sys creat trunc path (p, fs) = (Some fd, (p\<lparr>pr_fds := (pr_fds p)(fd \<mapsto> i)\<rparr>,
    if trunc then fs\<lparr>fs_data := (fs_data fs)(i := [])\<rparr> else fs))"
  using assms by (simp add: os_open_def)

definition inode_at :: "file_system \<Rightarrow> string \<Rightarrow> nat" where
  "inode_at fs name = (case fs_names fs name of None \<Rightarrow> fs_next fs | Some i \<Rightarrow> i)"

lemma os_open_creat:
  assumes "may_open sys (resolve (pr_cwd p) path)" and "first_free (pr_fds p) 0 (max_handles sys) = Some fd"
    and "i = inode_at fs (resolve (pr_cwd p) path)"
  shows "\<exists>fs'. os_open sys True trunc path (p, fs) = (Some fd, (p\<lparr>pr_fds := (pr_fds p)(fd \<mapsto> i)\<rparr>, fs'))
    \<and> fs_names fs' (resolve (pr_cwd p) path) = Some i \<and> fs_locks fs' = fs_locks fs"
  using assms by (simp add: os_open_def inode_at_def Let_def split: option.splits)

text \<open>Two descriptors below the limit are free.\<close>

definition two_free :: "system \<Rightarrow> process \<Rightarrow> bool" where
  "two_free sys p \<longleftrightarrow> (\<exists>m n. m < n \<and> n < max_handles sys \<and> pr_fds p m = None \<and> pr_fds p n = None)"

lemma two_free_first:
  assumes "two_free sys p"
  shows "\<exists>fd fd'. first_free (pr_fds p) 0 (max_handles sys) = Some fd
    \<and> first_free ((pr_fds p)(fd \<mapsto> i)) 0 (max_handles sys) = Some fd' \<and> fd' \<noteq> fd"
proof -
  obtain m n where mn: "m < n" "n < max_handles sys" "pr_fds p m = None" "pr_fds p n = None"
    using assms by (auto simp: two_free_def)
  obtain fd where fd: "first_free (pr_fds p) 0 (max_handles sys) = Some fd"
    using first_free_ex [of "pr_fds p" m 0 "max_handles sys"] mn by auto
  obtain k where k: "((pr_fds p)(fd \<mapsto> i)) k = None" "k < max_handles sys"
    using mn by (cases "fd = n") (auto intro: that [of m] that [of n])
  obtain fd' where fd': "first_free ((pr_fds p)(fd \<mapsto> i)) 0 (max_handles sys) = Some fd'"
    using first_free_ex [of "(pr_fds p)(fd \<mapsto> i)" k 0 "max_handles sys"] k by auto
  have "fd' \<noteq> fd" using first_free_Some [OF fd'] by (auto split: if_splits)
  with fd fd' show ?thesis by blast
qed

end
