(* ===== verification/SvcLoader.thy ===== *)
theory SvcLoader
  imports Proxy
begin

text \<open>
  What the service loaders share (src/src/proxy/svc_loader_base.h and svc_loader_base.cpp): the state of the base class, the ways in which a
  call ends, and the creation of the proxy, which the two implementations of \<open>init_proxy\<close> have in common.
\<close>

text \<open>
  The names of the files, as \<open>hardcoded-defs.h\<close> has them where the build does not define others; the automake build defines absolute paths in
  \<open>pathdefs.h\<close>, such as \<open>/var/run/lorica.pid\<close>. No lemma but those about the samples depends on which they are.
\<close>

definition LORICA_CONF_FILE :: string where
  "LORICA_CONF_FILE = ''lorica.conf''"

definition LORICA_PID_FILE :: string where
  "LORICA_PID_FILE = ''lorica.pid''"

definition LORICA_IOR_FILE :: string where
  "LORICA_IOR_FILE = ''lorica.ior''"

datatype thr_flag = THR_NEW_LWP | THR_JOINABLE | THR_INHERIT_SCHED

record loader_base =
  ld_lock_fd :: "nat option"
  pid_file :: string
  config_file :: string
  corba_debug_level :: int
  ld_debug :: bool
  proxy_thr_flags :: "thr_flag list"
  num_threads :: int

text \<open>The constructor leaves \<open>lock_fd_\<close> with whatever value \<open>fd\<close> is there.\<close>

definition new_loader_base :: "nat option \<Rightarrow> loader_base" where
  "new_loader_base fd = \<lparr>ld_lock_fd = fd, pid_file = [], config_file = LORICA_CONF_FILE, corba_debug_level = 0, ld_debug = False,
     proxy_thr_flags = [THR_NEW_LWP, THR_JOINABLE, THR_INHERIT_SCHED], num_threads = 1\<rparr>"

definition is_service :: "'a loader_base_scheme \<Rightarrow> bool" where
  "is_service l \<longleftrightarrow> \<not> ld_debug l"

text \<open>The service command of the base class, which the UNIX loader does not override, does nothing.\<close>

definition base_run_service_command :: int where
  "base_run_service_command = 0"

text \<open>A call that returns, or ends the process with an exit code.\<close>

datatype 'a ended = Exit int | Ret 'a

text \<open>How the main program ends after a step that gave \<open>result\<close>, or whether it goes on.\<close>

definition main_step :: "int \<Rightarrow> unit ended" where
  "main_step result = (if result < 0 then Exit 1 else if 0 < result then Exit 0 else Ret ())"

lemma main_step_simps [simp]: "main_step 0 = Ret ()" "main_step 1 = Exit 0" "main_step (-1) = Exit 1"
  by (simp_all add: main_step_def)

definition atoi :: "string \<Rightarrow> int" where
  "atoi s = int_cast (fst (strtol10 s))"

text \<open>
  A new proxy at address \<open>self\<close> that is configured from \<open>src\<close>: its address, or null when the configuration fails, with the
  proxy deleted.
\<close>

definition create_proxy :: "proxy_env \<Rightarrow> os_env \<Rightarrow> config_src \<Rightarrow> string \<Rightarrow> bool \<Rightarrow> nat \<Rightarrow> (proxy_world, nat option) act" where
  "create_proxy env os src ior_file Debug self =
     seqA (modA (\<lambda>w. w\<lparr>pw_proxies := (pw_proxies w)(self \<mapsto> new_proxy Debug)\<rparr>))
       (catchA (seqA (configure env os src ior_file self) (retA (Some self)))
          (\<lambda>ex. seqA (delete_proxy env self) (retA None)))"

subsection \<open>A proxy or nothing\<close>

text \<open>Once the ORB runs, the rest of the configuration leaves the proxy there with it.\<close>

definition orb_up :: "nat \<Rightarrow> proxy_world \<Rightarrow> bool" where
  "orb_up self w \<longleftrightarrow> map_option px_orb (pw_proxies w self) = Some True"

lemma keeps_call_broker [intro, simp]: "keeps P (call_broker env c)" "keeps P (not_nil env n)"
  by (simp_all add: call_broker_def not_nil_def)

lemma keeps_px_at [intro, simp]: "keeps P (px_at self)"
  by (auto simp: keeps_def px_at_def split: option.splits)

lemma keeps_px_mod [intro]: "(\<And>p. px_orb (f p) = px_orb p) \<Longrightarrow> keeps (orb_up self) (px_mod a f)"
  unfolding px_mod_def keeps_def orb_up_def by (auto simp: bindA_def px_at_def split: option.splits)

lemma keeps_on_registry [intro, simp]: "keeps (orb_up self) (on_registry m)"
  unfolding keeps_def orb_up_def using on_registry_frame by fastforce

lemma keeps_liftR: "(\<And>w x w'. m w = Ok (x, w') \<Longrightarrow> pw_proxies w' = pw_proxies w) \<Longrightarrow> keeps (orb_up self) (liftR m)"
  unfolding keeps_def orb_up_def liftR_def by (auto split: sum.splits)

lemma keeps_resolve_again [simp]: "keeps (orb_up self) (resolve_again env k n)"
proof -
  have "resolve_again env k n w = Some (r, w') \<Longrightarrow> pw_proxies w' = pw_proxies w" for w r w'
    by (induction env k n w arbitrary: r w' rule: resolve_again.induct) (auto simp: orA_def split: if_splits)
  then show ?thesis by (fastforce simp: keeps_def orb_up_def)
qed

lemma keeps_create_manager [simp]: "keeps (orb_up self) (create_manager env os src ext)"
  unfolding create_manager_def Let_def
  by (intro keeps_bindA keeps_seqA keeps_liftR keeps_call_broker keeps_modA)
     (auto simp: bindR_eq_Ok orb_up_def split: prod.splits)

lemma keeps_later_stages:
  "keeps (orb_up self) (find_services env)" "keeps (orb_up self) (publish_mapper env src d self)"
  "keeps (orb_up self) setup_shutdown_handler" "keeps (orb_up self) (register_mappers env src)"
  "keeps (orb_up self) (activate_managers env)"
proof -
  show "keeps (orb_up self) (find_services env)"
    unfolding find_services_def by (intro keeps_seqA keeps_resolve_again keeps_call_broker)
  show "keeps (orb_up self) (publish_mapper env src d self)"
    unfolding publish_mapper_def Let_def
    by (intro keeps_seqA keeps_catchA keeps_call_broker keeps_px_mod keeps_basic keeps_modA) (auto simp: orb_up_def)
  show "keeps (orb_up self) setup_shutdown_handler"
    unfolding setup_shutdown_handler_def by (rule keeps_modA) (simp add: orb_up_def)
  show "keeps (orb_up self) (register_mappers env src)"
    unfolding register_mappers_def add_null_types_def add_generic_mapper_def Let_def
    by (intro keeps_if keeps_seqA keeps_bindA keeps_basic keeps_on_registry) (auto split: option.split bool.split)
  show "keeps (orb_up self) (activate_managers env)"
    unfolding activate_managers_def by (intro keeps_seqA keeps_call_broker keeps_modA) (auto simp: orb_up_def)
qed

lemma start_orb_up: "start_orb env os src self w = Some (Ok (), w') \<Longrightarrow> orb_up self w'"
  unfolding start_orb_def orb_up_def
  by (elim bindA_OkE) (auto split: if_splits simp: seqA_def px_mod_def elim!: bindA_OkE)

lemma configure_up:
  assumes "configure env os src d self w = Some (Ok (), w')"
  shows "orb_up self w'"
proof -
  let ?rest = "seqA (find_services env) (seqA (create_manager env os src True) (seqA (create_manager env os src False)
     (seqA (publish_mapper env src d self) (seqA setup_shutdown_handler (seqA (register_mappers env src) (activate_managers env))))))"
  have k: "keeps (orb_up self) ?rest" by (intro keeps_seqA keeps_later_stages keeps_create_manager)
  have "seqA (start_orb env os src self) ?rest (w\<lparr>pw_this := Some self\<rparr>) = Some (Ok (), w')"
    using assms by (auto simp: configure_def catchA_def split: option.splits sum.splits fault.splits)
  then obtain w1 where "start_orb env os src self (w\<lparr>pw_this := Some self\<rparr>) = Some (Ok (), w1)" "?rest w1 = Some (Ok (), w')"
    unfolding seqA_def by (elim bindA_OkE) auto
  then show ?thesis using keepsD [OF k] start_orb_up by blast
qed

lemma create_proxy_cases:
  assumes "create_proxy env os src ior Debug self w = Some (Ok r, w')"
  shows "r = None \<and> pw_proxies w' self = None \<or> r = Some self \<and> orb_up self w'"
proof -
  let ?w = "w\<lparr>pw_proxies := (pw_proxies w)(self \<mapsto> new_proxy Debug)\<rparr>"
  have run: "catchA (seqA (configure env os src ior self) (retA (Some self)))
      (\<lambda>ex. seqA (delete_proxy env self) (retA None)) ?w = Some (Ok r, w')"
    using assms by (simp add: create_proxy_def)
  obtain c w1 where c: "configure env os src ior self ?w = Some (c, w1)"
    using run by (cases "configure env os src ior self ?w") (auto simp: catchA_def seqA_def bindA_def)
  show ?thesis
  proof (cases c)
    case (Inr u)
    then show ?thesis using run c configure_up by auto
  next
    case (Inl e)
    then obtain ex where "e = Thrown ex" using run c by (cases e) (auto simp: catchA_def seqA_def bindA_def)
    then have "seqA (delete_proxy env self) (retA None) w1 = Some (Ok r, w')" using run c Inl by (simp add: catchA_def seqA_def bindA_def)
    then show ?thesis unfolding seqA_def delete_proxy_def by (auto elim!: bindA_OkE)
  qed
qed

text \<open>
  What the loaders promise of their \<open>init_proxy\<close>: it gives its proxy with a running ORB, or null, and null leaves no
  proxy behind that was not there before.
\<close>

locale proxy_maker =
  fixes make :: "'s \<Rightarrow> (nat option result \<times> 's) option" and world :: "'s \<Rightarrow> proxy_world" and self :: nat
  assumes made: "make s = Some (Ok (Some a), s') \<Longrightarrow> a = self \<and> orb_up self (world s')"
    and not_made: "make s = Some (Ok None, s') \<Longrightarrow> pw_proxies (world s') self = None \<or> world s' = world s"
begin

lemma all_or_nothing:
  assumes "pw_proxies (world s) self = None" and "make s = Some (Ok r, s')"
  shows "r = (if orb_up self (world s') then Some self else None) \<and> (r = None \<longrightarrow> pw_proxies (world s') self = None)"
proof (cases r)
  case None
  with not_made assms have "pw_proxies (world s') self = None" by metis
  with None show ?thesis by (simp add: orb_up_def)
next
  case (Some a)
  with made [of s a s'] assms(2) show ?thesis by auto
qed

end

subsection \<open>An empty configuration file\<close>

definition sample_fcfg :: file_config where
  "sample_fcfg = new_file_config\<lparr>file_name := ''lorica.conf''\<rparr>"

definition sample_gate :: endpoint where
  "sample_gate = \<lparr>ep_external = True, ep_hostname = ''gate'', ep_port = 4082, ep_alias = [], ep_is_ipv6 = False, ep_ssl_port = 0\<rparr>"

lemma sample_default_endpoints:
  defines "src \<equiv> file_source sample_hash sample_fcfg"
  shows "parse_all sample_env True (address_list (endpoint_text sample_env src True)) [] 0 = Ok (True, [sample_gate], 0)"
    and "parse_all sample_env False (address_list (endpoint_text sample_env src False)) [] 0 = Ok (True, [sample_int], 0)"
    and "cs_value src t d = d" and "\<not> generic_evaluator src" and "configured_mappers env src = []"
proof -
  have v: "cs_value src t d = d" for t d
    by (simp add: src_def file_source_def get_value_def cfg_extract_def sample_fcfg_def new_file_config_def)
  have b: "cs_bool src t d = d" for t d
    by (simp add: src_def file_source_def get_bool_value_def get_value_def cfg_extract_def sample_fcfg_def new_file_config_def c_str_def strcase_eq_def)
  have e: "endpoint_text sample_env src True = ''gate:4082''" "endpoint_text sample_env src False = ''localhost:4080''"
    by (simp_all add: endpoint_text_def v sample_env_def)
  show "parse_all sample_env True (address_list (endpoint_text sample_env src True)) [] 0 = Ok (True, [sample_gate], 0)"
    unfolding e(1) by code_simp
  show "parse_all sample_env False (address_list (endpoint_text sample_env src False)) [] 0 = Ok (True, [sample_int], 0)"
    unfolding e(2) by code_simp
  show "cs_value src t d = d" by (rule v)
  show "\<not> generic_evaluator src" "configured_mappers env src = []"
    by (simp_all add: configured_mappers_def generic_evaluator_def null_eval_type_ids_def null_eval_any_def v b)
qed

lemma sample_start_orb:
  "\<exists>args cfg. get_orb_options sample_env (file_source sample_hash sample_fcfg) fresh_config 0 = Ok (Some args, cfg, 0)"
proof -
  have "endpoints_missing sample_env (file_source sample_hash sample_fcfg) (fresh_config\<lparr>orb_args := a\<rparr>) 0
      = Ok (False, fresh_config\<lparr>orb_args := a, cfg_endpoints := [sample_gate] @ [sample_int]\<rparr>, 0)" for a
    using endpoints_present [OF _ sample_default_endpoints(1,2), of "fresh_config\<lparr>orb_args := a\<rparr>"] by (simp add: fresh_config_def)
  then show ?thesis by (simp add: get_orb_options_def Let_def fresh_config_def)
qed

text \<open>The proxy is configured when the broker works, and not when it cannot be started.\<close>

definition start_world :: proxy_world where
  "start_world = sample_world\<lparr>pw_proxies := Map.empty\<rparr>"

lemma sample_create_proxy:
  "\<exists>w'. create_proxy (sample_proxy_env\<lparr>throws := (\<lambda>c. \<not> b \<and> c = ORB_init)\<rparr>) sample_env (file_source sample_hash sample_fcfg)
      ''lorica.ior'' False 7 start_world = Some (Ok (if b then Some 7 else None), w')
    \<and> (b \<longrightarrow> map_option px_orb (pw_proxies w' 7) = Some True \<and> reg_ok {} [] [] [] (pw_registry w'))"
proof -
  let ?src = "file_source sample_hash sample_fcfg" and ?env = "sample_proxy_env\<lparr>throws := (\<lambda>c. \<not> b \<and> c = ORB_init)\<rparr>"
  let ?w = "sample_world\<lparr>pw_proxies := [7 \<mapsto> new_proxy False]\<rparr>"
  have w: "pw_proxies ?w 7 = Some (new_proxy False)" "orb_args (pw_config ?w) = []" "cfg_endpoints (pw_config ?w) = []" "pw_query ?w = 0"
    "pw_config ?w = fresh_config" "reg_ok {} [] [] [] (pw_registry ?w)" "\<not> mappers_ready (fst (pw_registry ?w))"
    by (simp_all add: sample_world_def fresh_config_def reg_ok_def new_registry_def reg_init_def)
  have "\<exists>w'. catchA (seqA (configure ?env sample_env ?src ''lorica.ior'' 7) (retA (Some (7 :: nat))))
        (\<lambda>ex. seqA (delete_proxy ?env 7) (retA None)) ?w = Some (Ok (if b then Some 7 else None), w')
      \<and> (b \<longrightarrow> map_option px_orb (pw_proxies w' 7) = Some True \<and> reg_ok {} [] [] [] (pw_registry w'))"
  proof (cases b)
    case True
    have "writable ?env (c_str (cs_value ?src ''IOR_FILE'' ''lorica.ior''))"
      by (simp add: sample_default_endpoints(3) sample_proxy_env_def c_str_def)
    moreover have "good_env ?env" using True sample_good_env by (simp add: good_env_def)
    ultimately obtain w' where "configure ?env sample_env ?src ''lorica.ior'' 7 ?w = Some (Ok (), w')"
      "map_option px_orb (pw_proxies w' 7) = Some True" "reg_ok {} [] [] [] (pw_registry w')"
      using configure_ok [of ?env ?w 7 "new_proxy False" sample_env ?src "[sample_gate]" 0 "[sample_int]" 0 "''lorica.ior''" "{}"] w
        sample_default_endpoints(1,2,5) by auto
    then show ?thesis using True by simp
  next
    case False
    obtain args cfg where "get_orb_options sample_env ?src fresh_config 0 = Ok (Some args, cfg, 0)" using sample_start_orb by blast
    then have "\<exists>w'. configure ?env sample_env ?src ''lorica.ior'' 7 ?w = Some (Fault (Thrown ''InitError''), w') \<and> pw_proxies w' 7 = Some (new_proxy False)"
      using False w by (simp add: configure_def start_orb_def)
    then show ?thesis using False by (auto simp: delete_proxy_def destroy_def new_proxy_def)
  qed
  then show ?thesis by (simp add: create_proxy_def start_world_def del: if_split)
qed

end
