(* ===== verification/UnixLoader.thy ===== *)
theory UnixLoader
  imports Posix SvcLoader
begin

text \<open>
  The service loader on UNIX (src/src/proxy/UNIX_svc_loader.h and UNIX_svc_loader.cpp with svc_loader_base.cpp) and the
  main program (main.cpp): the command line, becoming a daemon, the lock on the pid file, and the life of the
  proxy from its configuration to its end. The branches for Darwin are not those modelled.

  The options that \<open>ACE_Get_Opt\<close> finds in the command line are an argument, a list of letters with their arguments; so are
  the answers of the two calls of \<open>fork\<close>, and the system and broker environments.
\<close>

subsection \<open>The loader and its options\<close>

record loader = loader_base +
  no_fork :: bool

definition new_loader :: "nat option \<Rightarrow> loader" where
  "new_loader fd = loader_base.extend (new_loader_base fd) \<lparr>no_fork = False\<rparr>"

declare base_run_service_command_def [simp]

lemmas new_loader_simps = new_loader_def new_loader_base_def loader_base.defs

text \<open>\<open>parse_args\<close> returns 1 for the version and goes on with the options otherwise; the second value is the global debug level.\<close>

fun parse_loop :: "(char \<times> string option) list \<Rightarrow> loader \<Rightarrow> 32 word \<Rightarrow> (int \<times> loader \<times> 32 word) ended result" where
  "parse_loop [] l lvl = Ok (Ret (0, l, lvl))"
| "parse_loop ((c, arg) # opts) l lvl =
     (if c = CHR ''n'' then parse_loop opts (l\<lparr>no_fork := True\<rparr>) lvl
      else if c = CHR ''V'' then Ok (Ret (1, l, lvl))
      else if c = CHR ''d'' then parse_loop opts (l\<lparr>ld_debug := True\<rparr>) lvl
      else if c = CHR ''f'' then bindR (deref arg) (\<lambda>name. parse_loop opts (l\<lparr>config_file := name\<rparr>) lvl)
      else if c = CHR ''c'' then
        parse_loop opts (case arg of None \<Rightarrow> l | Some tmp \<Rightarrow> l\<lparr>corba_debug_level := atoi tmp\<rparr>) lvl
      else if c = CHR ''l'' then parse_loop opts l (case arg of None \<Rightarrow> lvl | Some tmp \<Rightarrow> word_of_int (atoi tmp))
      else Ok (Exit 1))"

definition parse_args :: "nat \<Rightarrow> (char \<times> string option) list \<Rightarrow> loader \<Rightarrow> 32 word \<Rightarrow> (int \<times> loader \<times> 32 word) ended result" where
  "parse_args argc opts l lvl = (if argc = 0 then Ok (Ret (0, l, lvl)) else parse_loop opts l lvl)"

subsection \<open>Becoming a daemon\<close>

datatype daemon_exit = EXIT_DAEMON | EXIT_OK | EXIT_ERROR

text \<open>Closing the descriptors below \<open>n\<close>, from the highest down to \<open>lowest\<close>.\<close>

fun close_down :: "system \<Rightarrow> nat \<Rightarrow> nat \<Rightarrow> os_state \<Rightarrow> bool \<times> os_state" where
  "close_down sys 0 lowest s = (True, s)"
| "close_down sys (Suc n) lowest s =
     (if n < lowest then (True, s)
      else case os_close sys n s of (fails, s) \<Rightarrow> if fails then (False, s) else close_down sys n lowest s)"

definition prepare_daemon :: "system \<Rightarrow> bool \<Rightarrow> os_state \<Rightarrow> daemon_exit \<times> os_state" where
  "prepare_daemon sys Debug s =
     (if \<not> Debug \<and> \<not> chdir_ok sys then (EXIT_ERROR, s)
      else let s = (if Debug then s else (fst s\<lparr>pr_cwd := ''/''\<rparr>, snd s)) in
      case close_down sys (max_handles sys) (if Debug then 3 else 0) s of
        (False, s) \<Rightarrow> (EXIT_ERROR, s)
      | (True, s) \<Rightarrow>
          (case os_open sys False False ''/dev/null'' s of (fd0, s) \<Rightarrow>
             if fd0 \<noteq> Some 0 then (EXIT_ERROR, s)
             else let s = (if Debug then s else os_dup2 0 2 (os_dup2 0 1 s)) in
               if \<not> Debug \<and> \<not> mkdir_ok sys then (EXIT_ERROR, s) else (EXIT_DAEMON, s)))"

definition become_daemon :: "system \<Rightarrow> bool \<Rightarrow> bool \<Rightarrow> int \<Rightarrow> int \<Rightarrow> os_state \<Rightarrow> daemon_exit \<times> os_state" where
  "become_daemon sys NoFork Debug fork1 fork2 s =
     (if NoFork then prepare_daemon sys Debug s
      else if fork1 = -1 then (EXIT_ERROR, s)
      else if fork1 \<noteq> 0 then (EXIT_OK, s)
      else if \<not> setsid_ok sys then (EXIT_ERROR, s)
      else if \<not> sigaction_ok sys then (EXIT_ERROR, s)
      else if fork2 = -1 then (EXIT_ERROR, s)
      else if fork2 \<noteq> 0 then (EXIT_OK, s)
      else prepare_daemon sys Debug s)"

subsection \<open>The pid file\<close>

definition lock_fd :: "nat option \<Rightarrow> os_state \<Rightarrow> bool \<times> os_state" where
  "lock_fd fd s = (case fd of None \<Rightarrow> (False, s) | Some n \<Rightarrow> os_setlk n s)"

definition unlock_fd :: "nat option \<Rightarrow> os_state \<Rightarrow> bool \<times> os_state" where
  "unlock_fd fd s = (case fd of None \<Rightarrow> (False, s) | Some n \<Rightarrow> os_unlk n s)"

definition pid_text :: "os_state \<Rightarrow> string" where
  "pid_text s = dec_text (int (pr_pid (fst s)))"

text \<open>Whether the file is locked and holds the pid, and the descriptor, which stays open also when a later step fails.\<close>

definition get_process_lock :: "system \<Rightarrow> string \<Rightarrow> os_state \<Rightarrow> bool \<times> nat option \<times> os_state" where
  "get_process_lock sys path s =
     (if path = [] then (False, None, s)
      else case os_open sys True False path s of
        (None, s) \<Rightarrow> (False, None, s)
      | (Some fd, s) \<Rightarrow>
          (case lock_fd (Some fd) s of
             (False, s) \<Rightarrow> (False, Some fd, s)
           | (True, s) \<Rightarrow>
               if \<not> truncate_ok sys then (False, Some fd, s)
               else let s = os_truncate fd s in
               if \<not> write_ok sys then (False, Some fd, s)
               else let s = os_put fd (pid_text s @ [CHR 0x00]) s in
               (fsync_ok sys, Some fd, s)))"

definition get_lock :: "system \<Rightarrow> string \<Rightarrow> loader \<Rightarrow> os_state \<Rightarrow> bool \<times> loader \<times> os_state" where
  "get_lock sys path l s = (case get_process_lock sys path s of (ok, fd, s) \<Rightarrow>
     if ok then (True, l\<lparr>ld_lock_fd := fd\<rparr>, s)
     else case fd of
       None \<Rightarrow> (False, l\<lparr>ld_lock_fd := None\<rparr>, s)
     | Some n \<Rightarrow> (False, l\<lparr>ld_lock_fd := None\<rparr>, snd (os_close sys n s)))"

text \<open>The second writing of the pid, through a stream of its own: whether the file could be opened.\<close>

definition write_pid :: "system \<Rightarrow> string \<Rightarrow> os_state \<Rightarrow> bool \<times> os_state" where
  "write_pid sys path s = (case os_open sys True True path s of
       (None, s) \<Rightarrow> (False, s)
     | (Some fd, s) \<Rightarrow> (True, snd (os_close sys fd (os_put fd (pid_text s @ [CHR 0x0A]) s))))"

definition release_lock :: "system \<Rightarrow> loader \<Rightarrow> os_state \<Rightarrow> loader \<times> os_state" where
  "release_lock sys l s = (case ld_lock_fd l of
       None \<Rightarrow> (l, s)
     | Some fd \<Rightarrow> (l\<lparr>ld_lock_fd := None\<rparr>, snd (os_close sys fd (snd (unlock_fd (Some fd) s)))))"

subsection \<open>The life of the proxy\<close>

record unix_state =
  us_os :: os_state
  us_loader :: loader
  us_world :: proxy_world
  us_fcfg :: file_config

text \<open>The environments that stay the same while the program runs; \<open>self\<close> is the address of the proxy it creates.\<close>

record surroundings =
  su_sys :: system
  su_env :: proxy_env
  su_os :: os_env
  su_hash :: "string \<Rightarrow> int"
  su_read :: "string \<Rightarrow> string option"
  su_self :: nat

definition on_world :: "(proxy_world, 'a) act \<Rightarrow> (unix_state, 'a) act" where
  "on_world m s = map_option (\<lambda>(r, w). (r, s\<lparr>us_world := w\<rparr>)) (m (us_world s))"

definition on_os :: "(os_state \<Rightarrow> 'a \<times> os_state) \<Rightarrow> (unix_state, 'a) act" where
  "on_os f s = (case f (us_os s) of (x, os) \<Rightarrow> Some (Ok x, s\<lparr>us_os := os\<rparr>))"

definition reset_log :: "surroundings \<Rightarrow> (unix_state, unit) act" where
  "reset_log su = bindA (on_os (os_open (su_sys su) True True ''lorica.log'')) (\<lambda>fd. retA ())"

text \<open>\<open>init_proxy\<close>: the address of the configured proxy, or null.\<close>

definition read_config :: "surroundings \<Rightarrow> (unix_state, bool) act" where
  "read_config su s =
     (let l = us_loader s; def_pid = (if ld_debug l then ''lorica.pid'' else LORICA_PID_FILE) in
      case cfg_init (su_hash su) (su_read su) (config_file l) (corba_debug_level l) (us_fcfg s) of
        (Inl e, cfg) \<Rightarrow> Some (Ok False, s\<lparr>us_fcfg := cfg\<rparr>)
      | (Inr u, cfg) \<Rightarrow> Some (Ok True, s\<lparr>us_fcfg := cfg,
           us_loader := l\<lparr>pid_file := get_value (su_hash su) cfg ''PID_FILE'' def_pid,
             num_threads := int_cast (get_long_value (su_hash su) cfg ''Proxy_Threads'' 1)\<rparr>\<rparr>))"

definition make_proxy :: "surroundings \<Rightarrow> (unix_state, nat option) act" where
  "make_proxy su s =
     (let self = su_self su; l = us_loader s;
          def_ior = (if ld_debug l then ''lorica.ior'' else LORICA_IOR_FILE);
          src = file_source (su_hash su) (us_fcfg s) in
      on_world (create_proxy (su_env su) (su_os su) src def_ior (ld_debug l) self) s)"

definition init_proxy :: "surroundings \<Rightarrow> (unix_state, nat option) act" where
  "init_proxy su = bindA (read_config su) (\<lambda>ok. if ok then make_proxy su else retA None)"

text \<open>A return from \<open>run_i\<close>, at which the proxy that it holds is deleted.\<close>

definition leave_run :: "surroundings \<Rightarrow> nat option \<Rightarrow> int \<Rightarrow> (unix_state, int option) act" where
  "leave_run su proxy code = (case proxy of
       None \<Rightarrow> retA (Some code)
     | Some self \<Rightarrow> seqA (on_world (delete_proxy (su_env su) self)) (retA (Some code)))"

text \<open>
  \<open>run_i\<close> up to the point where the threads of the proxy run, or the code that it returns before; and
  what comes after they have ended.
\<close>

definition take_lock :: "surroundings \<Rightarrow> (unix_state, bool) act" where
  "take_lock su s = (case get_lock (su_sys su) (c_str (pid_file (us_loader s))) (us_loader s) (us_os s) of
     (ok, l, os) \<Rightarrow> Some (Ok ok, s\<lparr>us_loader := l, us_os := os\<rparr>))"

definition output_pid :: "surroundings \<Rightarrow> (unix_state, bool) act" where
  "output_pid su s = on_os (write_pid (su_sys su) (c_str (pid_file (us_loader s)))) s"

definition enter_run :: "surroundings \<Rightarrow> nat option \<Rightarrow> (unix_state, int option) act" where
  "enter_run su proxy =
     bindA (take_lock su) (\<lambda>locked. if \<not> locked then leave_run su proxy 1
     else bindA (output_pid su) (\<lambda>written. if \<not> written then leave_run su proxy 1
     else if proxy = None then leave_run su None 1
     else retA None))"

definition run_start :: "surroundings \<Rightarrow> (unix_state, int option) act" where
  "run_start su =
     seqA (\<lambda>s. if is_service (us_loader s) then retA () s else reset_log su s)
          (bindA (init_proxy su) (enter_run su))"

definition run_finish :: "surroundings \<Rightarrow> (unix_state, int option) act" where
  "run_finish su =
     bindA (catchA (seqA (on_world (destroy (su_env su) (su_self su))) (retA True))
        (\<lambda>ex. retA False)) (\<lambda>ended.
     if \<not> ended then leave_run su (Some (su_self su)) 1
     else seqA (\<lambda>s. case release_lock (su_sys su) (us_loader s) (us_os s) of
           (l, os) \<Rightarrow> Some (Ok (), s\<lparr>us_loader := l, us_os := os_unlink (c_str (pid_file l)) os\<rparr>))
         (leave_run su (Some (su_self su)) 0))"

text \<open>\<open>run_service\<close> up to the point where the proxy runs; the parents exit, and an error ends the process.\<close>

definition run_service :: "surroundings \<Rightarrow> int \<Rightarrow> int \<Rightarrow> (unix_state, int option ended) act" where
  "run_service su fork1 fork2 =
     bindA (\<lambda>s. on_os (become_daemon (su_sys su) (no_fork (us_loader s)) (ld_debug (us_loader s)) fork1 fork2) s) (\<lambda>dstat.
     case dstat of
       EXIT_DAEMON \<Rightarrow> bindA (run_start su) (\<lambda>r. retA (Ret r))
     | EXIT_OK \<Rightarrow> retA (Exit 0)
     | EXIT_ERROR \<Rightarrow> retA (Exit 1))"

definition execute :: "surroundings \<Rightarrow> int \<Rightarrow> int \<Rightarrow> (unix_state, int option ended) act" where
  "execute su fork1 fork2 = run_service su fork1 fork2"

text \<open>The main program up to the point where the proxy runs.\<close>

definition main :: "surroundings \<Rightarrow> nat \<Rightarrow> (char \<times> string option) list \<Rightarrow> 32 word \<Rightarrow> int \<Rightarrow> int \<Rightarrow> (unix_state, int option ended) act" where
  "main su argc opts lvl fork1 fork2 s =
     (case parse_args argc opts (us_loader s) lvl of
        Inl e \<Rightarrow> Some (Inl e, s)
      | Inr (Exit c) \<Rightarrow> Some (Ok (Exit c), s)
      | Inr (Ret (result, l, lvl)) \<Rightarrow>
          let s = s\<lparr>us_loader := l\<rparr> in
          (case main_step result of
             Exit c \<Rightarrow> Some (Ok (Exit c), s)
           | Ret u \<Rightarrow> (case main_step base_run_service_command of
                 Exit c \<Rightarrow> Some (Ok (Exit c), s)
               | Ret u \<Rightarrow> execute su fork1 fork2 s)))"

subsection \<open>The proxy\<close>

text \<open>\<open>init_proxy\<close> keeps the contract of the loaders.\<close>

lemma init_proxy_cases:
  assumes "init_proxy su s = Some (Ok r, s')"
  shows "r = None \<and> (us_world s' = us_world s \<or> pw_proxies (us_world s') (su_self su) = None)
      \<or> r = Some (su_self su) \<and> orb_up (su_self su) (us_world s')"
proof -
  obtain ok s1 where 1: "read_config su s = Some (Ok ok, s1)" "(if ok then make_proxy su else retA None) s1 = Some (Ok r, s')"
    using assms unfolding init_proxy_def by (elim bindA_OkE)
  have "us_world s1 = us_world s" using 1(1) by (auto simp: read_config_def Let_def split: prod.splits sum.splits)
  with 1(2) show ?thesis
    by (cases ok) (auto simp: make_proxy_def on_world_def Let_def dest: create_proxy_cases)
qed

interpretation unix_maker: proxy_maker "init_proxy su" us_world "su_self su" for su
  by unfold_locales (use init_proxy_cases in fastforce)+

subsection \<open>The lock and the descriptors\<close>

text \<open>Taking the lock: the file is there and locked by the process, and the first writing of the pid is in it.\<close>

lemma get_lock_True:
  assumes "get_lock sys path l (p, fs) = (True, l', s)"
  shows "\<exists>fd i fs'. s = (p\<lparr>pr_fds := (pr_fds p)(fd \<mapsto> i)\<rparr>, fs') \<and> fs_names fs' (resolve (pr_cwd p) path) = Some i
    \<and> fs_locks fs' i = Some (pr_pid p) \<and> ld_lock_fd l' = Some fd \<and> pr_fds p fd = None \<and> l' = l\<lparr>ld_lock_fd := Some fd\<rparr>"
proof -
  obtain fd where g: "get_process_lock sys path (p, fs) = (True, fd, s)" "l' = l\<lparr>ld_lock_fd := fd\<rparr>"
    using assms by (auto simp: get_lock_def split: prod.splits if_splits option.splits)
  then obtain n s1 where o: "os_open sys True False path (p, fs) = (Some n, s1)" "fd = Some n"
    by (auto simp: get_process_lock_def Let_def split: prod.splits option.splits if_splits bool.splits)
  obtain i fs1 where 1: "s1 = (p\<lparr>pr_fds := (pr_fds p)(n \<mapsto> i)\<rparr>, fs1)" "pr_fds p n = None"
    "fs_names fs1 (resolve (pr_cwd p) path) = Some i"
    using os_open_Some [OF o(1)] by blast
  show ?thesis using g o 1
    by (auto simp: get_process_lock_def lock_fd_def os_setlk_def os_truncate_def os_put_def Let_def
        split: prod.splits option.splits if_splits bool.splits)
qed

lemma get_lock_refused:
  assumes "fs_names fs (resolve (pr_cwd q) path) = Some i" and "fs_locks fs i = Some r" and "r \<noteq> pr_pid q"
  shows "\<exists>q' fs'. get_lock sys path l (q, fs) = (False, l\<lparr>ld_lock_fd := None\<rparr>, (q', fs'))
    \<and> fs_locks fs' = fs_locks fs \<and> fs_data fs' = fs_data fs \<and> fs_names fs' = fs_names fs \<and> pr_pid q' = pr_pid q"
proof (cases "path = [] \<or> fst (os_open sys True False path (q, fs)) = None")
  case True
  have "snd (os_open sys True False path (q, fs)) = (q, fs)" if "fst (os_open sys True False path (q, fs)) = None"
    using that by (auto simp: os_open_def Let_def split: if_splits option.splits)
  with True show ?thesis
    by (cases "os_open sys True False path (q, fs)") (auto simp: get_lock_def get_process_lock_def)
next
  case False
  then obtain n s1 where o: "os_open sys True False path (q, fs) = (Some n, s1)" "path \<noteq> []"
    by (cases "os_open sys True False path (q, fs)") auto
  obtain fs1 where 1: "s1 = (q\<lparr>pr_fds := (pr_fds q)(n \<mapsto> i)\<rparr>, fs1)" "fs_locks fs1 = fs_locks fs" "fs_names fs1 = fs_names fs"
    "fs_data fs1 = fs_data fs"
    using os_open_Some [OF o(1)] assms(1) by auto
  have "fs_locks (drop_lock i (pr_pid q) fs1) = fs_locks fs1" using 1(2) assms(2,3) by (simp add: drop_lock_def)
  then show ?thesis using o 1 assms(2,3)
    by (simp add: get_lock_def get_process_lock_def lock_fd_def os_setlk_def os_close_def)
qed

text \<open>Writing the pid through a second descriptor gives the lock up.\<close>

lemma write_pid_unlocks:
  assumes "write_pid sys path (p, fs) = (True, s)" and "fs_names fs (resolve (pr_cwd p) path) = Some i"
    and "fs_locks fs i = Some (pr_pid p)"
  shows "\<exists>fs'. s = (p, fs') \<and> fs_names fs' = fs_names fs \<and> fs_locks fs' = (fs_locks fs)(i := None)
    \<and> fs_data fs' i = pid_text (p, fs) @ [CHR 0x0A]"
proof -
  obtain n s1 where o: "os_open sys True True path (p, fs) = (Some n, s1)"
    using assms(1) by (auto simp: write_pid_def split: prod.splits option.splits)
  obtain fs1 where 1: "s1 = (p\<lparr>pr_fds := (pr_fds p)(n \<mapsto> i)\<rparr>, fs1)" "fs_names fs1 = fs_names fs" "fs_locks fs1 = fs_locks fs"
    "fs_data fs1 i = []" "pr_fds p n = None"
    using os_open_Some [OF o] assms(2) by auto
  have "(pr_fds p)(n := None) = pr_fds p" using 1(5) by auto
  then show ?thesis using assms(1,3) o 1
    by (cases p) (auto simp: write_pid_def os_put_def os_close_def pid_text_def fun_eq_iff)
qed

lemma get_lock_free:
  assumes "i = inode_at fs (resolve (pr_cwd q) path)" and "fs_locks fs i = None" and "path \<noteq> []"
    and "may_open sys (resolve (pr_cwd q) path)" and "two_free sys q" and "truncate_ok sys" "write_ok sys" "fsync_ok sys"
  shows "\<exists>fd fs1 s. get_lock sys path l (q, fs) = (True, l\<lparr>ld_lock_fd := Some fd\<rparr>, (q\<lparr>pr_fds := (pr_fds q)(fd \<mapsto> i)\<rparr>, fs1))
    \<and> fs_names fs1 (resolve (pr_cwd q) path) = Some i \<and> fs_locks fs1 i = Some (pr_pid q)
    \<and> write_pid sys path (q\<lparr>pr_fds := (pr_fds q)(fd \<mapsto> i)\<rparr>, fs1) = (True, s)"
proof -
  obtain fd fd' where fd: "first_free (pr_fds q) 0 (max_handles sys) = Some fd"
    "first_free ((pr_fds q)(fd \<mapsto> i)) 0 (max_handles sys) = Some fd'"
    using two_free_first [OF assms(5)] by blast
  let ?q = "q\<lparr>pr_fds := (pr_fds q)(fd \<mapsto> i)\<rparr>"
  obtain fs0 where o: "os_open sys True False path (q, fs) = (Some fd, (?q, fs0))"
    "fs_names fs0 (resolve (pr_cwd q) path) = Some i" "fs_locks fs0 i = None"
    using os_open_creat [OF assms(4) fd(1) assms(1), of False] assms(2) by auto
  let ?fs = "fs0\<lparr>fs_locks := (fs_locks fs0)(i \<mapsto> pr_pid q), fs_data := (fs_data fs0)(i := pid_text (?q, fs0) @ [CHR 0x00])\<rparr>"
  have "get_lock sys path l (q, fs) = (True, l\<lparr>ld_lock_fd := Some fd\<rparr>, (?q, ?fs))"
    using o assms(3,6-8)
    by (simp add: get_lock_def get_process_lock_def lock_fd_def os_setlk_def os_truncate_def os_put_def pid_text_def)
  moreover have "\<exists>s. write_pid sys path (?q, ?fs) = (True, s)"
    using os_open_file [of sys ?q path ?fs i fd' True True] o(2) assms(4) fd(2) by (simp add: write_pid_def)
  ultimately show ?thesis using o(2) by fastforce
qed

lemma close_down_ok:
  assumes "\<forall>n. \<not> close_fails sys n"
  shows "\<exists>fs'. close_down sys n lowest (p, fs) = (True, (p\<lparr>pr_fds := (\<lambda>k. if lowest \<le> k \<and> k < n then None else pr_fds p k)\<rparr>, fs'))
    \<and> fs_names fs' = fs_names fs"
proof (induction n arbitrary: p fs)
  case 0
  show ?case by (cases p) auto
next
  case (Suc n)
  show ?case
  proof (cases "n < lowest")
    case True
    then have "(\<lambda>k. if lowest \<le> k \<and> k < Suc n then None else pr_fds p k) = pr_fds p" by (auto simp: fun_eq_iff)
    with True show ?thesis by (cases p) auto
  next
    case False
    let ?p = "p\<lparr>pr_fds := (pr_fds p)(n := None)\<rparr>"
    obtain fs1 where 1: "os_close sys n (p, fs) = (False, (?p, fs1))" "fs_names fs1 = fs_names fs"
    proof (cases "pr_fds p n")
      case None
      then have "?p = p" by (cases p) auto
      with None that [of fs] show ?thesis by (simp add: os_close_def)
    next
      case (Some i)
      with assms that [of "drop_lock i (pr_pid p) fs"] show ?thesis by (simp add: os_close_def)
    qed
    have "(\<lambda>k. if lowest \<le> k \<and> k < n then None else pr_fds ?p k)
        = (\<lambda>k. if lowest \<le> k \<and> k < Suc n then None else pr_fds p k)"
      using False by (auto simp: fun_eq_iff less_Suc_eq)
    with Suc [of ?p fs1] False 1 show ?thesis by auto
  qed
qed

lemma close_down_low:
  "close_down sys n lowest s = (b, (p', fs')) \<Longrightarrow> k < lowest \<Longrightarrow> pr_fds p' k = pr_fds (fst s) k"
proof (induction n arbitrary: s)
  case (Suc n)
  show ?case
  proof (cases "n < lowest")
    case False
    then have "k \<noteq> n" using Suc.prems(2) by simp
    then have "pr_fds (fst (snd (os_close sys n s))) k = pr_fds (fst s) k"
      by (auto simp: os_close_def split: prod.splits option.splits)
    with Suc False show ?thesis by (auto split: prod.splits if_splits)
  qed (use Suc.prems in auto)
qed auto

subsection \<open>Properties\<close>

text \<open>
  C28: The daemon has the null device as its three standard descriptors, every other descriptor below the limit closed and the
  root as its directory, and of the three processes that two forks make only the last child goes on: its
  parents return to exit successfully.
\<close>

theorem daemon_descriptors:
  assumes "setsid_ok sys" "sigaction_ok sys" "chdir_ok sys" "mkdir_ok sys" "\<forall>n. \<not> close_fails sys n" and "3 \<le> max_handles sys"
    and "may_open sys ''/dev/null''" and "fs_names fs ''/dev/null'' = Some i" and "0 < child" and "0 < grandchild"
  shows "\<exists>p' fs'. become_daemon sys False False 0 0 (p, fs) = (EXIT_DAEMON, (p', fs')) \<and> pr_cwd p' = ''/''
      \<and> pr_fds p' = (\<lambda>n. if n \<le> 2 then Some i else if n < max_handles sys then None else pr_fds p n)
      \<and> become_daemon sys False False child 0 (p, fs) = (EXIT_OK, (p, fs))
      \<and> become_daemon sys False False 0 grandchild (p, fs) = (EXIT_OK, (p, fs))"
proof -
  let ?p0 = "p\<lparr>pr_cwd := ''/''\<rparr>"
  let ?fds = "\<lambda>k. if 0 \<le> k \<and> k < max_handles sys then None else pr_fds ?p0 k"
  obtain fs1 where 1: "close_down sys (max_handles sys) 0 (?p0, fs) = (True, (?p0\<lparr>pr_fds := ?fds\<rparr>, fs1))" "fs_names fs1 = fs_names fs"
    using close_down_ok [OF assms(5)] by blast
  let ?p1 = "?p0\<lparr>pr_fds := ?fds\<rparr>"
  have "first_free (pr_fds ?p1) 0 (max_handles sys) = Some 0" using assms(6) by (intro first_free_zero) auto
  then have 2: "os_open sys False False ''/dev/null'' (?p1, fs1) = (Some 0, (?p1\<lparr>pr_fds := ?fds(0 \<mapsto> i)\<rparr>, fs1))"
    using os_open_file [of sys ?p1 "''/dev/null''" fs1 i 0 False False] assms(7,8) 1(2) by simp
  have fds: "?fds(0 \<mapsto> i, 1 \<mapsto> i, 2 \<mapsto> i) = (\<lambda>n. if n \<le> 2 then Some i else if n < max_handles sys then None else pr_fds p n)"
    by (auto simp: fun_eq_iff)
  have 3: "os_dup2 0 2 (os_dup2 0 1 (?p1\<lparr>pr_fds := ?fds(0 \<mapsto> i)\<rparr>, fs1)) = (?p1\<lparr>pr_fds := ?fds(0 \<mapsto> i, 1 \<mapsto> i, 2 \<mapsto> i)\<rparr>, fs1)"
    using assms(6) by (simp add: os_dup2_def)
  have "prepare_daemon sys False (p, fs) = (EXIT_DAEMON, (?p1\<lparr>pr_fds := ?fds(0 \<mapsto> i, 1 \<mapsto> i, 2 \<mapsto> i)\<rparr>, fs1))"
    using assms(3,4) 1(1) 2 3 by (simp add: prepare_daemon_def Let_def)
  then show ?thesis using assms(1,2,9,10) fds by (simp add: become_daemon_def)
qed

text \<open>
  The debug mode does not start. With the command line of the tests, \<open>-n -d\<close> and a configuration file, the program exits with an
  error whenever its standard input is open: the standard descriptors stay open in debug mode, so the null device cannot get
  descriptor 0, which the code insists on.
\<close>

theorem debug_mode_exits:
  assumes "0 < argc" and "pr_fds (fst (us_os s)) 0 \<noteq> None"
  shows "\<exists>s'. main su argc [(CHR ''n'', None), (CHR ''d'', None), (CHR ''f'', Some conf)] lvl fork1 fork2 s = Some (Ok (Exit 1), s')"
proof -
  let ?l = "us_loader s\<lparr>no_fork := True, ld_debug := True, config_file := conf\<rparr>"
  have "fst (prepare_daemon (su_sys su) True (us_os s)) = EXIT_ERROR"
  proof -
    obtain b p1 fs1 where 1: "close_down (su_sys su) (max_handles (su_sys su)) 3 (us_os s) = (b, (p1, fs1))"
      by (cases "close_down (su_sys su) (max_handles (su_sys su)) 3 (us_os s)") auto
    have "pr_fds p1 0 \<noteq> None" using close_down_low [OF 1, of 0] assms(2) by simp
    then have "fst (os_open (su_sys su) False False ''/dev/null'' (p1, fs1)) \<noteq> Some 0"
      by (cases "os_open (su_sys su) False False ''/dev/null'' (p1, fs1)") (auto dest: os_open_Some)
    with 1 show ?thesis by (auto simp: prepare_daemon_def split: bool.splits prod.splits)
  qed
  then obtain os where "become_daemon (su_sys su) True True fork1 fork2 (us_os s) = (EXIT_ERROR, os)"
    by (cases "prepare_daemon (su_sys su) True (us_os s)") (auto simp: become_daemon_def)
  then show ?thesis using assms(1)
    by (simp add: main_def parse_args_def execute_def run_service_def on_os_def bindA_def)
qed

text \<open>
  C17: The lock on the pid file excludes a second process: while one has it, another that tries to lock the same file is refused,
  whatever its descriptors are, and the lock and the content of the file are unchanged.
\<close>

theorem lock_excludes:
  assumes "get_lock sys path l (p, fs) = (True, l', (p', fs'))"
    and "pr_pid q \<noteq> pr_pid p" and "resolve (pr_cwd q) path2 = resolve (pr_cwd p) path"
  shows "\<exists>q' fs''. get_lock sys2 path2 l2 (q, fs') = (False, l2\<lparr>ld_lock_fd := None\<rparr>, (q', fs''))
    \<and> fs_locks fs'' = fs_locks fs' \<and> fs_data fs'' = fs_data fs'"
proof -
  obtain i where "fs_names fs' (resolve (pr_cwd q) path2) = Some i" "fs_locks fs' i = Some (pr_pid p)"
    using get_lock_True [OF assms(1)] assms(3) by auto
  from get_lock_refused [OF this] assms(2) show ?thesis by fastforce
qed

text \<open>Running means that the lock was taken and the pid written.\<close>

lemma run_start_running:
  assumes "run_start su s = Some (Ok None, s')"
  shows "\<exists>(s0 :: unix_state) l os. get_lock (su_sys su) (c_str (pid_file (us_loader s'))) (us_loader s0) (us_os s0) = (True, l, os)
    \<and> write_pid (su_sys su) (c_str (pid_file (us_loader s'))) os = (True, us_os s')"
proof -
  have leave: "\<not> leave_run su proxy c s1 = Some (Ok None, s2)" for proxy c s1 s2
    by (auto simp: leave_run_def seqA_def bindA_def split: option.splits sum.splits)
  obtain x s1 where "bindA (init_proxy su) (enter_run su) s1 = Some (Ok None, s')"
    using assms unfolding run_start_def seqA_def by (rule bindA_OkE)
  then obtain proxy s0 where run: "enter_run su proxy s0 = Some (Ok None, s')" by (rule bindA_OkE)
  obtain ok l os where g: "get_lock (su_sys su) (c_str (pid_file (us_loader s0))) (us_loader s0) (us_os s0) = (ok, l, os)"
    by (cases "get_lock (su_sys su) (c_str (pid_file (us_loader s0))) (us_loader s0) (us_os s0)")
  then have t: "take_lock su s0 = Some (Ok ok, s0\<lparr>us_loader := l, us_os := os\<rparr>)" by (simp add: take_lock_def)
  with run leave have ok: "ok" by (cases ok) (auto simp: enter_run_def)
  obtain p fs where "us_os s0 = (p, fs)" by (cases "us_os s0")
  with get_lock_True g ok have l: "pid_file l = pid_file (us_loader s0)" by fastforce
  obtain w os' where w: "write_pid (su_sys su) (c_str (pid_file l)) os = (w, os')" by (cases "write_pid (su_sys su) (c_str (pid_file l)) os")
  then have "output_pid su (s0\<lparr>us_loader := l, us_os := os\<rparr>) = Some (Ok w, s0\<lparr>us_loader := l, us_os := os'\<rparr>)"
    by (simp add: output_pid_def on_os_def)
  with run t ok leave have "w \<and> s' = s0\<lparr>us_loader := l, us_os := os'\<rparr>" by (auto simp: enter_run_def split: if_splits)
  with g ok w l show ?thesis by (intro exI [of _ s0] exI [of _ l] exI [of _ os]) simp
qed

lemma running_unlocked:
  assumes "run_start su s = Some (Ok None, s')"
  shows "\<exists>i. fs_names (snd (us_os s')) (resolve (pr_cwd (fst (us_os s'))) (c_str (pid_file (us_loader s')))) = Some i
    \<and> fs_locks (snd (us_os s')) i = None"
proof -
  let ?path = "c_str (pid_file (us_loader s'))"
  obtain s0 :: unix_state and l os where g: "get_lock (su_sys su) ?path (us_loader s0) (us_os s0) = (True, l, os)"
    "write_pid (su_sys su) ?path os = (True, us_os s')"
    using run_start_running [OF assms] by blast
  obtain p fs where "us_os s0 = (p, fs)" by (cases "us_os s0")
  then obtain fd i fs1 where "os = (p\<lparr>pr_fds := (pr_fds p)(fd \<mapsto> i)\<rparr>, fs1)" "fs_names fs1 (resolve (pr_cwd p) ?path) = Some i"
    "fs_locks fs1 i = Some (pr_pid p)"
    using get_lock_True g(1) by fastforce
  with write_pid_unlocks [of "su_sys su" ?path "p\<lparr>pr_fds := (pr_fds p)(fd \<mapsto> i)\<rparr>" fs1 "us_os s'" i] g(2)
  show ?thesis by auto
qed

lemma enter_run_free:
  assumes "us_os s = (q, fs)" and "path = c_str (pid_file (us_loader s))" and "path \<noteq> []"
    and "fs_locks fs (inode_at fs (resolve (pr_cwd q) path)) = None" and "sys = su_sys su" and "may_open sys (resolve (pr_cwd q) path)"
    and "two_free sys q" and "truncate_ok sys" "write_ok sys" "fsync_ok sys"
  shows "\<exists>l os. enter_run su (Some self) s = Some (Ok None, s\<lparr>us_loader := l, us_os := os\<rparr>) \<and> pid_file l = pid_file (us_loader s)
    \<and> pr_cwd (fst os) = pr_cwd q"
proof -
  obtain fd fs1 os where g: "get_lock sys path (us_loader s) (us_os s)
      = (True, us_loader s\<lparr>ld_lock_fd := Some fd\<rparr>, (q\<lparr>pr_fds := (pr_fds q)(fd \<mapsto> inode_at fs (resolve (pr_cwd q) path))\<rparr>, fs1))"
    "fs_names fs1 (resolve (pr_cwd q) path) = Some (inode_at fs (resolve (pr_cwd q) path))"
    "fs_locks fs1 (inode_at fs (resolve (pr_cwd q) path)) = Some (pr_pid q)"
    "write_pid sys path (q\<lparr>pr_fds := (pr_fds q)(fd \<mapsto> inode_at fs (resolve (pr_cwd q) path))\<rparr>, fs1) = (True, os)"
    using get_lock_free [OF refl assms(4,3,6-10), of "us_loader s"] assms(1) by auto
  have "pr_cwd (fst os) = pr_cwd q" using write_pid_unlocks [OF g(4)] g(2,3) by auto
  moreover have "enter_run su (Some self) s = Some (Ok None, s\<lparr>us_loader := us_loader s\<lparr>ld_lock_fd := Some fd\<rparr>, us_os := os\<rparr>)"
    using g(1,4) assms(2,5) by (simp add: enter_run_def take_lock_def output_pid_def on_os_def)
  ultimately show ?thesis by (intro exI [of _ "us_loader s\<lparr>ld_lock_fd := Some fd\<rparr>"] exI [of _ os]) simp
qed

text \<open>
  C36: Two instances run at once. A running instance does not hold the lock any more, since the stream through which it writes
  the pid a second time closes a descriptor of the locked file; a second one with the same pid file whose proxy can
  be configured takes the lock and runs too.
\<close>

theorem two_instances:
  assumes "run_start su s = Some (Ok None, s')"
    and "is_service (us_loader s2)" and "us_os s2 = (q, snd (us_os s'))" and "init_proxy su2 s2 = Some (Ok (Some self), s2')"
    and "us_os s2' = us_os s2" and "path = c_str (pid_file (us_loader s2'))"
    and "resolve (pr_cwd q) path = resolve (pr_cwd (fst (us_os s'))) (c_str (pid_file (us_loader s')))" and "path \<noteq> []"
    and "sys = su_sys su2" and "may_open sys (resolve (pr_cwd q) path)" and "two_free sys q"
    and "truncate_ok sys" "write_ok sys" "fsync_ok sys"
  shows "\<exists>s3. run_start su2 s2 = Some (Ok None, s3)"
proof -
  obtain i where i: "fs_names (snd (us_os s')) (resolve (pr_cwd q) path) = Some i" "fs_locks (snd (us_os s')) i = None"
    using running_unlocked [OF assms(1)] assms(7) by auto
  have "fs_locks (snd (us_os s')) (inode_at (snd (us_os s')) (resolve (pr_cwd q) path)) = None"
    using i by (simp add: inode_at_def)
  from enter_run_free [where s = s2' and su = su2, OF _ assms(6,8) this assms(9-14)] assms(3,5)
  obtain s3 where "enter_run su2 (Some self) s2' = Some (Ok None, s3)" by auto
  then show ?thesis using assms(2,4) by (simp add: run_start_def)
qed

text \<open>
  A start that fails leaves a pid file. When the proxy cannot be configured, the loader still takes the lock and writes its
  pid, and then returns with an error: the file with the pid of the process that is about to end stays.
\<close>

theorem failed_start_leaves_pid:
  assumes "is_service (us_loader s)" and "init_proxy su s = Some (Ok None, s')" and "us_os s' = (p, fs)"
    and "path = c_str (pid_file (us_loader s'))" and "path \<noteq> []" and "i = inode_at fs (resolve (pr_cwd p) path)"
    and "fs_locks fs i = None" and "sys = su_sys su" and "may_open sys (resolve (pr_cwd p) path)" and "two_free sys p"
    and "truncate_ok sys" "write_ok sys" "fsync_ok sys"
  shows "\<exists>s1 p1 fs1. run_start su s = Some (Ok (Some 1), s1) \<and> us_os s1 = (p1, fs1)
    \<and> fs_names fs1 (resolve (pr_cwd p) path) = Some i \<and> fs_data fs1 i = dec_text (int (pr_pid p)) @ [CHR 0x0A]"
proof -
  obtain fd fs1 os where g: "get_lock sys path (us_loader s') (p, fs)
      = (True, us_loader s'\<lparr>ld_lock_fd := Some fd\<rparr>, (p\<lparr>pr_fds := (pr_fds p)(fd \<mapsto> i)\<rparr>, fs1))"
    "fs_names fs1 (resolve (pr_cwd p) path) = Some i" "fs_locks fs1 i = Some (pr_pid p)"
    "write_pid sys path (p\<lparr>pr_fds := (pr_fds p)(fd \<mapsto> i)\<rparr>, fs1) = (True, os)"
    using get_lock_free [OF assms(6,7,5,9-13), of "us_loader s'"] by blast
  let ?p = "p\<lparr>pr_fds := (pr_fds p)(fd \<mapsto> i)\<rparr>"
  obtain fs2 where w: "os = (?p, fs2)" "fs_names fs2 = fs_names fs1" "fs_data fs2 i = pid_text (?p, fs1) @ [CHR 0x0A]"
    using write_pid_unlocks [OF g(4)] g(2,3) by auto
  have "enter_run su None s' = Some (Ok (Some 1), s'\<lparr>us_loader := us_loader s'\<lparr>ld_lock_fd := Some fd\<rparr>, us_os := os\<rparr>)"
    using g(1,4) assms(3,4,8) by (simp add: enter_run_def take_lock_def output_pid_def on_os_def leave_run_def)
  then show ?thesis using assms(1,2) g(2) w by (simp add: run_start_def pid_text_def)
qed

subsection \<open>Samples\<close>

definition sample_sys :: system where
  "sample_sys = \<lparr>may_open = (\<lambda>_. True), max_handles = 8, close_fails = (\<lambda>_. False), setsid_ok = True, sigaction_ok = True,
     chdir_ok = True, mkdir_ok = True, truncate_ok = True, write_ok = True, fsync_ok = True\<rparr>"

definition sample_fs :: file_system where
  "sample_fs = \<lparr>fs_names = [''/dev/null'' \<mapsto> 0], fs_data = (\<lambda>_. []), fs_locks = Map.empty, fs_next = 1\<rparr>"

definition sample_process :: "nat \<Rightarrow> process" where
  "sample_process n = \<lparr>pr_pid = n, pr_cwd = ''/'', pr_fds = [0 \<mapsto> 0, 1 \<mapsto> 0, 2 \<mapsto> 0]\<rparr>"

theorem daemon_descriptors_witness:
  "\<exists>p' fs'. become_daemon sample_sys False False 0 0 (sample_process 7, sample_fs) = (EXIT_DAEMON, (p', fs'))
     \<and> pr_fds p' 0 = Some 0 \<and> pr_fds p' 3 = None"
proof -
  have "setsid_ok sample_sys" "sigaction_ok sample_sys" "chdir_ok sample_sys" "mkdir_ok sample_sys" "\<forall>n. \<not> close_fails sample_sys n"
    "3 \<le> max_handles sample_sys" "may_open sample_sys ''/dev/null''" "fs_names sample_fs ''/dev/null'' = Some 0" "(0::int) < 11" "(0::int) < 12"
    by (simp_all add: sample_sys_def sample_fs_def)
  from daemon_descriptors [OF this, of "sample_process 7"] show ?thesis by (auto simp: sample_sys_def)
qed

text \<open>An empty configuration file: the proxy listens on its default addresses.\<close>

definition sample_surroundings :: "bool \<Rightarrow> surroundings" where
  "sample_surroundings works = \<lparr>su_sys = sample_sys, su_env = sample_proxy_env\<lparr>throws := (\<lambda>c. \<not> works \<and> c = ORB_init)\<rparr>, su_os = sample_env,
     su_hash = sample_hash, su_read = (\<lambda>f. Some []), su_self = 7\<rparr>"

definition sample_unix :: "os_state \<Rightarrow> unix_state" where
  "sample_unix os = \<lparr>us_os = os, us_loader = new_loader None, us_world = start_world, us_fcfg = new_file_config\<rparr>"

theorem debug_mode_exits_witness:
  "\<exists>s'. main (sample_surroundings True) 5 [(CHR ''n'', None), (CHR ''d'', None), (CHR ''f'', Some ''test.conf'')] 0 0 0
     (sample_unix (sample_process 7, sample_fs)) = Some (Ok (Exit 1), s')"
  by (rule debug_mode_exits) (simp_all add: sample_unix_def sample_process_def)

lemma sample_two_free: "two_free sample_sys (sample_process n)"
  unfolding two_free_def by (intro exI [of _ 3] exI [of _ 4]) (simp add: sample_sys_def sample_process_def)

lemma sample_inode: "inode_at sample_fs ''/lorica.pid'' = 1" "fs_locks sample_fs 1 = None"
  by (simp_all add: inode_at_def sample_fs_def)

theorem lock_excludes_witness:
  "\<exists>l' p' fs' q' fs''. get_lock sample_sys ''/lorica.pid'' (new_loader None) (sample_process 7, sample_fs) = (True, l', (p', fs'))
     \<and> get_lock sample_sys ''/lorica.pid'' (new_loader None) (sample_process 8, fs') = (False, (new_loader None), (q', fs''))"
proof -
  have "truncate_ok sample_sys" "write_ok sample_sys" "fsync_ok sample_sys" "may_open sample_sys ''/lorica.pid''" by (simp_all add: sample_sys_def)
  with get_lock_free [of 1 sample_fs "sample_process 7" "''/lorica.pid''" sample_sys "new_loader None"] sample_two_free sample_inode
  obtain l' p' fs' where g: "get_lock sample_sys ''/lorica.pid'' (new_loader None) (sample_process 7, sample_fs) = (True, l', (p', fs'))"
    by auto
  have "pr_pid (sample_process 8) \<noteq> pr_pid (sample_process 7)"
    "resolve (pr_cwd (sample_process 8)) ''/lorica.pid'' = resolve (pr_cwd (sample_process 7)) ''/lorica.pid''"
    by (simp_all add: sample_process_def)
  from lock_excludes [OF g this, of sample_sys "new_loader None"] g show ?thesis by (auto simp: new_loader_simps)
qed

lemma sample_read_config:
  "read_config (sample_surroundings b) (sample_unix os) = Some (Ok True, (sample_unix os)\<lparr>us_fcfg := sample_fcfg,
     us_loader := (new_loader None)\<lparr>pid_file := ''lorica.pid''\<rparr>\<rparr>)"
proof -
  have c: "cfg_init sample_hash (\<lambda>f. Some []) ''lorica.conf'' 0 new_file_config = (Ok (), sample_fcfg)"
    by (simp add: cfg_init_def load_def load_line_def new_file_config_def sample_fcfg_def unload_def)
  have "get_value sample_hash sample_fcfg t d = d" "get_long_value sample_hash sample_fcfg t n = n" for t d n
    by (simp_all add: get_value_def get_long_value_def cfg_extract_def sample_fcfg_def new_file_config_def)
  moreover have "int_cast 1 = 1" by (simp add: int_cast_def)
  ultimately show ?thesis using c
    by (simp add: read_config_def sample_surroundings_def sample_unix_def new_loader_simps LORICA_PID_FILE_def LORICA_CONF_FILE_def Let_def)
qed

lemma sample_init_proxy:
  "\<exists>s'. init_proxy (sample_surroundings b) (sample_unix os) = Some (Ok (if b then Some 7 else None), s')
    \<and> us_os s' = os \<and> pid_file (us_loader s') = ''lorica.pid''"
proof -
  let ?s = "(sample_unix os)\<lparr>us_fcfg := sample_fcfg, us_loader := (new_loader None)\<lparr>pid_file := ''lorica.pid''\<rparr>\<rparr>"
  obtain w' where "create_proxy (sample_proxy_env\<lparr>throws := (\<lambda>c. \<not> b \<and> c = ORB_init)\<rparr>) sample_env (file_source sample_hash sample_fcfg)
      ''lorica.ior'' False 7 start_world = Some (Ok (if b then Some 7 else None), w')"
    using sample_create_proxy [of b] by blast
  then have "make_proxy (sample_surroundings b) ?s = Some (Ok (if b then Some 7 else None), ?s\<lparr>us_world := w'\<rparr>)"
    by (simp add: make_proxy_def on_world_def sample_surroundings_def sample_unix_def LORICA_IOR_FILE_def new_loader_simps Let_def del: if_split)
  then show ?thesis by (simp add: init_proxy_def sample_read_config) (simp add: sample_unix_def)
qed

lemma sample_sys_ok:
  "su_sys (sample_surroundings b) = sample_sys" "may_open sample_sys f" "truncate_ok sample_sys" "write_ok sample_sys" "fsync_ok sample_sys"
  "is_service (us_loader (sample_unix os))" "us_os (sample_unix os) = os" "c_str ''lorica.pid'' = ''lorica.pid''"
  "resolve (pr_cwd (sample_process n)) ''lorica.pid'' = ''/lorica.pid''"
  by (simp_all add: sample_surroundings_def sample_sys_def sample_unix_def new_loader_simps is_service_def c_str_def resolve_def sample_process_def)

theorem two_instances_witness:
  "\<exists>s' s3. run_start (sample_surroundings True) (sample_unix (sample_process 7, sample_fs)) = Some (Ok None, s')
    \<and> run_start (sample_surroundings True) (sample_unix (sample_process 8, snd (us_os s'))) = Some (Ok None, s3)"
proof -
  note ok = sample_sys_ok and free = sample_two_free
  obtain s1 where i1: "init_proxy (sample_surroundings True) (sample_unix (sample_process 7, sample_fs)) = Some (Ok (Some 7), s1)"
    "us_os s1 = (sample_process 7, sample_fs)" "pid_file (us_loader s1) = ''lorica.pid''"
    using sample_init_proxy [of True] by auto
  have "fs_locks sample_fs (inode_at sample_fs ''/lorica.pid'') = None" unfolding sample_inode(1) by (rule sample_inode(2))
  then obtain l os where e: "enter_run (sample_surroundings True) (Some 7) s1 = Some (Ok None, s1\<lparr>us_loader := l, us_os := os\<rparr>)"
    "pid_file l = ''lorica.pid''" "pr_cwd (fst os) = pr_cwd (sample_process 7)"
    using enter_run_free [OF i1(2), of "''lorica.pid''" sample_sys "sample_surroundings True" 7] i1(3) free by (auto simp: ok)
  let ?s' = "s1\<lparr>us_loader := l, us_os := os\<rparr>"
  have r: "run_start (sample_surroundings True) (sample_unix (sample_process 7, sample_fs)) = Some (Ok None, ?s')"
    using i1(1) e(1) by (simp add: run_start_def ok)
  let ?q = "sample_process 8"
  obtain s2 where i2: "init_proxy (sample_surroundings True) (sample_unix (?q, snd (us_os ?s'))) = Some (Ok (Some 7), s2)"
    "us_os s2 = us_os (sample_unix (?q, snd (us_os ?s')))" "''lorica.pid'' = c_str (pid_file (us_loader s2))"
    using sample_init_proxy [of True "(?q, snd (us_os ?s'))"] by (auto simp: ok)
  have res: "resolve (pr_cwd ?q) ''lorica.pid'' = resolve (pr_cwd (fst (us_os ?s'))) (c_str (pid_file (us_loader ?s')))"
    using e(2,3) by (simp add: ok)
  have "sample_sys = su_sys (sample_surroundings True)" "''lorica.pid'' \<noteq> []" by (simp_all add: ok)
  from two_instances [OF r ok(6,7) i2 res this(2,1) ok(2) free ok(3-5)] r show ?thesis by blast
qed

theorem failed_start_leaves_pid_witness:
  "\<exists>s1 p1 fs1. run_start (sample_surroundings False) (sample_unix (sample_process 7, sample_fs)) = Some (Ok (Some 1), s1)
    \<and> us_os s1 = (p1, fs1) \<and> fs_names fs1 ''/lorica.pid'' = Some 1 \<and> fs_data fs1 1 = ''7'' @ [CHR 0x0A]"
proof -
  note ok = sample_sys_ok
  obtain s' where i: "init_proxy (sample_surroundings False) (sample_unix (sample_process 7, sample_fs)) = Some (Ok None, s')"
    "us_os s' = (sample_process 7, sample_fs)" "''lorica.pid'' = c_str (pid_file (us_loader s'))"
    using sample_init_proxy [of False "(sample_process 7, sample_fs)"] by (auto simp: ok)
  have h: "''lorica.pid'' \<noteq> []" "1 = inode_at sample_fs (resolve (pr_cwd (sample_process 7)) ''lorica.pid'')"
    "sample_sys = su_sys (sample_surroundings False)"
    by (simp_all add: ok sample_inode)
  have "dec_text (int (pr_pid (sample_process 7))) = ''7''" by (simp add: sample_process_def) code_simp
  with failed_start_leaves_pid [OF ok(6) i h(1,2) sample_inode(2) h(3) ok(2) sample_two_free ok(3-5)]
  show ?thesis unfolding ok by auto
qed

end
