(* ===== verification/Win32Loader.thy ===== *)
theory Win32Loader
  imports SvcLoader
begin

text \<open>
  The service loader on Windows (src/src/proxy/Win32_svc_loader.h and Win32_svc_loader.cpp) and the service that it runs
  (ntsvc.h and ntsvc.cpp): the command line, the commands for the service manager, the working directory, and the life of the
  proxy as a service and as an application of its own, with the control requests that reach it meanwhile.

  The answers of the system and of the service manager are the environment \<open>win_env\<close>; so is \<open>ACE_Get_Opt\<close>, which gives the options of a
  command line by their letters, what \<open>wait\<close> of the proxy's threads throws, and \<open>handle_control\<close> of the class that the service inherits from, by the statuses that it reports. The control requests that
  are handled from start to end while the program waits for the threads of the proxy are an argument, a list of their codes; a request that is still under way when the wait ends is the subject of a step relation of its own.
\<close>

subsection \<open>State\<close>

datatype service_command = SC_NONE | SC_INSTALL | SC_REMOVE | SC_START | SC_STOP

datatype service_status = SERVICE_RUNNING | SERVICE_STOP_PENDING | SERVICE_STOPPED

definition SERVICE_CONTROL_STOP :: nat where
  "SERVICE_CONTROL_STOP = 1"

definition SERVICE_CONTROL_SHUTDOWN :: nat where
  "SERVICE_CONTROL_SHUTDOWN = 5"

definition MAX_PATH :: nat where
  "MAX_PATH = 260"

record win_loader = loader_base +
  wl_command :: service_command

definition new_win_loader :: "nat option \<Rightarrow> win_loader" where
  "new_win_loader fd = loader_base.extend (new_loader_base fd) \<lparr>wl_command = SC_NONE\<rparr>"

text \<open>The service; its thread flags and number of threads have no value before they are set. What it reports is kept in order.\<close>

record nt_service =
  svc_names :: "(string \<times> string) option"
  svc_proxy :: "nat option"
  svc_thr_flags :: "thr_flag list"
  svc_num_threads :: int
  svc_reported :: "service_status list"

definition new_nt_service :: "thr_flag list \<Rightarrow> int \<Rightarrow> nt_service" where
  "new_nt_service flags n = \<lparr>svc_names = None, svc_proxy = None, svc_thr_flags = flags, svc_num_threads = n, svc_reported = []\<rparr>"

text \<open>The state of the program, with what the service manager has registered, and the proxies whose threads were started.\<close>

record win_state =
  ws_loader :: win_loader
  ws_service :: nt_service
  ws_world :: proxy_world
  ws_fcfg :: file_config
  ws_level :: "32 word"
  ws_cwd :: string
  ws_registered :: "string option"
  ws_log :: bool
  ws_activated :: "(nat \<times> thr_flag list \<times> int) list"

record win_env =
  we_env :: proxy_env
  we_os :: os_env
  we_hash :: "string \<Rightarrow> int"
  we_read :: "string \<Rightarrow> string option"
  we_self :: nat
  get_opt :: "string \<Rightarrow> string list \<Rightarrow> (char \<times> string option) list"
  full_path_name :: "string option \<Rightarrow> string option"
  may_enter :: "string \<Rightarrow> bool"
  module_file_name :: string
  scm_ok :: "service_command \<Rightarrow> bool"
  dispatcher_result :: int
  inherited_control :: "nat \<Rightarrow> service_status list"
  wait_throws :: "string option"

definition on_proxy :: "(proxy_world, 'a) act \<Rightarrow> (win_state, 'a) act" where
  "on_proxy m s = map_option (\<lambda>(r, w). (r, s\<lparr>ws_world := w\<rparr>)) (m (ws_world s))"

definition on_service :: "(nt_service \<Rightarrow> nt_service) \<Rightarrow> (win_state, unit) act" where
  "on_service f = modA (\<lambda>s. s\<lparr>ws_service := f (ws_service s)\<rparr>)"

subsection \<open>The service\<close>

definition report_status :: "service_status \<Rightarrow> (win_state, unit) act" where
  "report_status st = on_service (\<lambda>v. v\<lparr>svc_reported := svc_reported v @ [st]\<rparr>)"

definition set_proxy :: "nat option \<Rightarrow> (win_state, unit) act" where
  "set_proxy p = on_service (\<lambda>v. v\<lparr>svc_proxy := p\<rparr>)"

definition proxy_activate_args :: "thr_flag list \<Rightarrow> int \<Rightarrow> (win_state, unit) act" where
  "proxy_activate_args flags n = on_service (\<lambda>v. v\<lparr>svc_thr_flags := flags, svc_num_threads := n\<rparr>)"

definition handle_control :: "win_env \<Rightarrow> nat \<Rightarrow> (win_state, unit) act" where
  "handle_control env code =
     (if code = SERVICE_CONTROL_SHUTDOWN \<or> code = SERVICE_CONTROL_STOP
      then seqA (report_status SERVICE_STOP_PENDING)
        (bindA (readA (\<lambda>s. svc_proxy (ws_service s))) (\<lambda>p. case p of
             None \<Rightarrow> retA ()
           | Some self \<Rightarrow> on_proxy (shutdown (we_env env) self)))
      else on_service (\<lambda>v. v\<lparr>svc_reported := svc_reported v @ inherited_control env code\<rparr>))"

text \<open>Requests that are handled one after the other, each from start to end, while the program waits.\<close>

fun handle_controls :: "win_env \<Rightarrow> nat list \<Rightarrow> (win_state, unit) act" where
  "handle_controls env [] = retA ()"
| "handle_controls env (c # cs) = seqA (handle_control env c) (handle_controls env cs)"

definition ConsoleHandler :: "win_env \<Rightarrow> nat \<Rightarrow> (win_state, bool) act" where
  "ConsoleHandler env ctrlType = seqA (handle_control env SERVICE_CONTROL_STOP) (retA True)"

text \<open>Starting the threads of a proxy.\<close>

definition activate_proxy :: "nat option \<Rightarrow> thr_flag list \<Rightarrow> int \<Rightarrow> (win_state, unit) act" where
  "activate_proxy p flags n = (case p of
       None \<Rightarrow> failA NullDeref
     | Some self \<Rightarrow> modA (\<lambda>s. s\<lparr>ws_activated := ws_activated s @ [(self, flags, n)]\<rparr>))"

definition wait_proxy :: "win_env \<Rightarrow> (win_state, unit) act" where
  "wait_proxy env = (case wait_throws env of None \<Rightarrow> retA () | Some ex \<Rightarrow> failA (Thrown ex))"

text \<open>
  \<open>svc\<close>, with the control requests that are handled while it waits for the threads. The status \<open>SERVICE_STOPPED\<close> is reported at the end of the block, also when an exception
  leaves it, which makes the result -1; a null pointer ends the program before.
\<close>

definition nt_svc :: "win_env \<Rightarrow> nat list \<Rightarrow> (win_state, int) act" where
  "nt_svc env codes =
     seqA (report_status SERVICE_RUNNING)
    (bindA (readA ws_service) (\<lambda>v.
     seqA (activate_proxy (svc_proxy v) (svc_thr_flags v) (svc_num_threads v))
    (seqA (handle_controls env codes)
    (bindA (catchA (seqA (wait_proxy env) (retA 0)) (\<lambda>ex. retA (-1))) (\<lambda>result.
     seqA (report_status SERVICE_STOPPED) (retA result))))))"

definition delete_service :: "win_env \<Rightarrow> (win_state, unit) act" where
  "delete_service env = bindA (readA (\<lambda>s. svc_proxy (ws_service s))) (\<lambda>p. case p of
       None \<Rightarrow> retA ()
     | Some self \<Rightarrow> on_proxy (delete_proxy (we_env env) self))"

subsection \<open>The command line\<close>

definition WIN_OPTIONS :: string where
  "WIN_OPTIONS = ''Virtkdf:c:l:''"

fun win_parse_loop ::
    "(char \<times> string option) list \<Rightarrow> win_loader \<Rightarrow> 32 word \<Rightarrow> (int \<times> win_loader \<times> 32 word) ended result" where
  "win_parse_loop [] l lvl = Ok (Ret (0, l, lvl))"
| "win_parse_loop ((c, arg) # opts) l lvl =
     (if c = CHR ''i'' then win_parse_loop opts (l\<lparr>wl_command := SC_INSTALL\<rparr>) lvl
      else if c = CHR ''r'' then win_parse_loop opts (l\<lparr>wl_command := SC_REMOVE\<rparr>) lvl
      else if c = CHR ''t'' then win_parse_loop opts (l\<lparr>wl_command := SC_START\<rparr>) lvl
      else if c = CHR ''k'' then win_parse_loop opts (l\<lparr>wl_command := SC_STOP\<rparr>) lvl
      else if c = CHR ''V'' then Ok (Ret (1, l, lvl))
      else if c = CHR ''d'' then win_parse_loop opts (l\<lparr>ld_debug := True\<rparr>) lvl
      else if c = CHR ''f'' then bindR (deref arg) (\<lambda>name. win_parse_loop opts (l\<lparr>config_file := name\<rparr>) lvl)
      else if c = CHR ''c'' then
        win_parse_loop opts (case arg of None \<Rightarrow> l | Some tmp \<Rightarrow> l\<lparr>corba_debug_level := atoi tmp\<rparr>) lvl
      else if c = CHR ''l'' then win_parse_loop opts l (case arg of None \<Rightarrow> lvl | Some tmp \<Rightarrow> word_of_int (atoi tmp))
      else Ok (Exit 1))"

definition win_parse_args :: "win_env \<Rightarrow> string list \<Rightarrow> (win_state, int ended) act" where
  "win_parse_args env argv s =
     (if argv = [] then Some (Ok (Ret 0), s)
      else case win_parse_loop (get_opt env WIN_OPTIONS argv) (ws_loader s) (ws_level s) of
        Inl e \<Rightarrow> Some (Inl e, s)
      | Inr (Exit c) \<Rightarrow> Some (Ok (Exit c), s)
      | Inr (Ret (result, l, lvl)) \<Rightarrow> Some (Ok (Ret result), s\<lparr>ws_loader := l, ws_level := lvl\<rparr>))"

text \<open>The command line that an installation registers: \<open>strcat\<close> appends to a buffer of fixed size.\<close>

definition service_command_line :: "win_env \<Rightarrow> string result" where
  "service_command_line env =
     (if length (module_file_name env) + length '' -s'' < MAX_PATH then Ok (module_file_name env @ '' -s'') else Fault BadSubscript)"

definition ask_scm :: "win_env \<Rightarrow> service_command \<Rightarrow> (win_state \<Rightarrow> win_state) \<Rightarrow> (win_state, int) act" where
  "ask_scm env cmd f = (if scm_ok env cmd then seqA (modA f) (retA 1) else retA (-1))"

definition win_run_service_command :: "win_env \<Rightarrow> (win_state, int) act" where
  "win_run_service_command env =
     seqA (modA (\<lambda>s. if is_service (ws_loader s) then s else s\<lparr>ws_log := True\<rparr>))
    (seqA (on_service (\<lambda>v. v\<lparr>svc_names := Some (''Lorica'', ''Lorica IIOP Firewall'')\<rparr>))
    (bindA (readA (\<lambda>s. wl_command (ws_loader s))) (\<lambda>cmd. case cmd of
         SC_NONE \<Rightarrow> retA 0
       | SC_INSTALL \<Rightarrow> bindA (liftR (\<lambda>s. bindR (service_command_line env) (\<lambda>line. Ok (line, s)))) (\<lambda>line.
           ask_scm env SC_INSTALL (\<lambda>s. s\<lparr>ws_registered := Some line\<rparr>))
       | SC_REMOVE \<Rightarrow> ask_scm env SC_REMOVE (\<lambda>s. s\<lparr>ws_registered := None\<rparr>)
       | SC_START \<Rightarrow> ask_scm env SC_START id
       | SC_STOP \<Rightarrow> ask_scm env SC_STOP id)))"

text \<open>The loop from the last character back to a backslash, which it does not stop before the start of the buffer.\<close>

fun strip_back :: "nat \<Rightarrow> string \<Rightarrow> string result" where
  "strip_back 0 cwd = Fault BadSubscript"
| "strip_back (Suc n) cwd =
     (if cwd ! n = CHR 0x5C then Ok (cwd[n := CHR 0x00]) else strip_back n (cwd[n := CHR 0x00]))"

definition win_set_working_directory :: "win_env \<Rightarrow> string option \<Rightarrow> (win_state, unit ended) act" where
  "win_set_working_directory env progname s = (case full_path_name env progname of
       None \<Rightarrow> Some (Ok (Exit 1), s)
     | Some cwd \<Rightarrow> (case strip_back (length cwd) cwd of
           Inl e \<Rightarrow> Some (Inl e, s)
         | Inr cwd \<Rightarrow> Some (Ok (Ret ()), if may_enter env (c_str cwd) then s\<lparr>ws_cwd := c_str cwd\<rparr> else s)))"

subsection \<open>The life of the proxy\<close>

definition win_read_config :: "win_env \<Rightarrow> (win_state, bool) act" where
  "win_read_config env s =
     (let l = ws_loader s in
      case cfg_init (we_hash env) (we_read env) (config_file l) (corba_debug_level l) (ws_fcfg s) of
        (Inl e, cfg) \<Rightarrow> Some (Ok False, s\<lparr>ws_fcfg := cfg\<rparr>)
      | (Inr u, cfg) \<Rightarrow> Some (Ok True, s\<lparr>ws_fcfg := cfg,
           ws_loader := l\<lparr>num_threads := int_cast (get_long_value (we_hash env) cfg ''Proxy_Threads'' 1)\<rparr>\<rparr>))"

definition win_init_proxy :: "win_env \<Rightarrow> (win_state, nat option) act" where
  "win_init_proxy env = bindA (win_read_config env) (\<lambda>ok. if \<not> ok then retA None
     else (\<lambda>s. on_proxy (create_proxy (we_env env) (we_os env) (file_source (we_hash env) (ws_fcfg s)) LORICA_IOR_FILE
             (ld_debug (ws_loader s)) (we_self env)) s))"

text \<open>
  \<open>run_service\<close>: the dispatcher of the service manager runs \<open>svc\<close> and comes back with its result when the
  service has stopped, or with 0 at once.
\<close>

definition prepare_service :: "win_env \<Rightarrow> (win_state, bool) act" where
  "prepare_service env = catchA
     (bindA (win_init_proxy env) (\<lambda>p. seqA (set_proxy p)
       (bindA (readA ws_loader) (\<lambda>l. seqA (proxy_activate_args (proxy_thr_flags l) (num_threads l)) (retA True)))))
     (\<lambda>ex. retA False)"

definition win_run_service :: "win_env \<Rightarrow> nat list \<Rightarrow> (win_state, int) act" where
  "win_run_service env codes = bindA (prepare_service env) (\<lambda>ok.
     if \<not> ok then retA (-1)
     else if dispatcher_result env = 0 then retA 0
     else bindA (nt_svc env codes) (\<lambda>r. retA (dispatcher_result env)))"

text \<open>The end of the proxy that \<open>run_standalone\<close> owns, also when \<open>destroy\<close> throws.\<close>

definition end_standalone :: "win_env \<Rightarrow> nat \<Rightarrow> (win_state, unit) act" where
  "end_standalone env self =
     seqA (catchA (on_proxy (destroy (we_env env) self))
        (\<lambda>ex. seqA (on_proxy (delete_proxy (we_env env) self)) (failA (Thrown ex))))
      (on_proxy (delete_proxy (we_env env) self))"

definition win_run_standalone :: "win_env \<Rightarrow> nat list \<Rightarrow> (win_state, int) act" where
  "win_run_standalone env codes = bindA (win_init_proxy env) (\<lambda>p.
     seqA (set_proxy p)
    (bindA (readA ws_loader) (\<lambda>l.
     seqA (activate_proxy p (proxy_thr_flags l) (num_threads l))
    (seqA (handle_controls env codes)
    (seqA (catchA (wait_proxy env) (\<lambda>ex. seqA (on_proxy (delete_proxy (we_env env) (the p))) (failA (Thrown ex))))
    (seqA (set_proxy None)
    (seqA (end_standalone env (the p)) (retA 0))))))))"

definition win_execute :: "win_env \<Rightarrow> nat list \<Rightarrow> (win_state, int) act" where
  "win_execute env codes s = (if is_service (ws_loader s) then win_run_service env codes s else win_run_standalone env codes s)"

text \<open>The main program. A program that was started without arguments passes null for its name.\<close>

definition or_exit :: "(win_state, 'a ended) act \<Rightarrow> ('a \<Rightarrow> (win_state, int ended) act) \<Rightarrow> (win_state, int ended) act" where
  "or_exit m f = bindA m (\<lambda>r. case r of Exit c \<Rightarrow> retA (Exit c) | Ret x \<Rightarrow> f x)"

definition win_main :: "win_env \<Rightarrow> string list \<Rightarrow> nat list \<Rightarrow> (win_state, int ended) act" where
  "win_main env argv codes =
     or_exit (win_set_working_directory env (case argv of [] \<Rightarrow> None | prog # args \<Rightarrow> Some prog)) (\<lambda>u.
     or_exit (win_parse_args env argv) (\<lambda>result.
     or_exit (retA (main_step result)) (\<lambda>u.
     or_exit (bindA (win_run_service_command env) (\<lambda>result. retA (main_step result))) (\<lambda>u.
     bindA (win_execute env codes) (\<lambda>result. retA (Ret result))))))"

subsection \<open>Control requests\<close>

text \<open>What a control request reports.\<close>

definition control_statuses :: "win_env \<Rightarrow> nat \<Rightarrow> service_status list" where
  "control_statuses env code = (if code = SERVICE_CONTROL_SHUTDOWN \<or> code = SERVICE_CONTROL_STOP then [SERVICE_STOP_PENDING]
     else inherited_control env code)"

lemma on_proxy_ok [simp]: "m (ws_world s) = Some (Ok x, w) \<Longrightarrow> on_proxy m s = Some (Ok x, s\<lparr>ws_world := w\<rparr>)"
  by (simp add: on_proxy_def)

lemma on_service_run [simp]: "on_service f s = Some (Ok (), s\<lparr>ws_service := f (ws_service s)\<rparr>)"
  by (simp add: on_service_def)

lemmas service_ops = report_status_def set_proxy_def proxy_activate_args_def

lemma shutdown_ok:
  assumes "pw_proxies w self = Some p" and "px_orb p" and "\<not> throws env ORB_shutdown"
  shows "shutdown env self w = Some (Ok (), w\<lparr>pw_proxies := (pw_proxies w)(self \<mapsto> p\<lparr>must_shutdown := True\<rparr>)\<rparr>)"
  using assms by (simp add: shutdown_def)

text \<open>The service has a proxy whose broker is running; control requests leave that so.\<close>

definition serving :: "nat \<Rightarrow> win_state \<Rightarrow> bool" where
  "serving self s \<longleftrightarrow> svc_proxy (ws_service s) = Some self \<and> map_option px_orb (pw_proxies (ws_world s) self) = Some True"

lemma handle_control_serving:
  assumes "serving self s" and "\<not> throws (we_env env) ORB_shutdown"
  shows "\<exists>w. handle_control env code s = Some (Ok (), s\<lparr>ws_world := w,
      ws_service := ws_service s\<lparr>svc_reported := svc_reported (ws_service s) @ control_statuses env code\<rparr>\<rparr>)
    \<and> map_option px_orb (pw_proxies w self) = Some True \<and> pw_registry w = pw_registry (ws_world s)"
proof -
  obtain p where p: "pw_proxies (ws_world s) self = Some p" "px_orb p" using assms(1) by (auto simp: serving_def)
  let ?w = "if code = SERVICE_CONTROL_SHUTDOWN \<or> code = SERVICE_CONTROL_STOP
    then ws_world s\<lparr>pw_proxies := (pw_proxies (ws_world s))(self \<mapsto> p\<lparr>must_shutdown := True\<rparr>)\<rparr> else ws_world s"
  show ?thesis using p assms
    by (intro exI [of _ ?w]) (simp add: handle_control_def control_statuses_def serving_def report_status_def shutdown_ok)
qed

lemma handle_control_idle:
  assumes "svc_proxy (ws_service s) = None"
  shows "handle_control env code s = Some (Ok (), s\<lparr>ws_service := ws_service s
    \<lparr>svc_reported := svc_reported (ws_service s) @ control_statuses env code\<rparr>\<rparr>)"
  using assms by (simp add: handle_control_def control_statuses_def report_status_def)

lemma handle_controls_serving:
  assumes "serving self s" and "\<not> throws (we_env env) ORB_shutdown"
  shows "\<exists>w. handle_controls env codes s = Some (Ok (), s\<lparr>ws_world := w,
      ws_service := ws_service s\<lparr>svc_reported := svc_reported (ws_service s) @ concat (map (control_statuses env) codes)\<rparr>\<rparr>)
    \<and> map_option px_orb (pw_proxies w self) = Some True \<and> pw_registry w = pw_registry (ws_world s)"
  using assms(1)
proof (induction codes arbitrary: s)
  case Nil
  then show ?case by (intro exI [of _ "ws_world s"]) (simp add: serving_def)
next
  case (Cons c codes)
  obtain w where 1: "handle_control env c s = Some (Ok (), s\<lparr>ws_world := w,
      ws_service := ws_service s\<lparr>svc_reported := svc_reported (ws_service s) @ control_statuses env c\<rparr>\<rparr>)"
    "map_option px_orb (pw_proxies w self) = Some True" "pw_registry w = pw_registry (ws_world s)"
    using handle_control_serving [OF Cons.prems assms(2)] by blast
  let ?s = "s\<lparr>ws_world := w, ws_service := ws_service s\<lparr>svc_reported := svc_reported (ws_service s) @ control_statuses env c\<rparr>\<rparr>"
  have "serving self ?s" using Cons.prems 1(2) by (simp add: serving_def)
  from Cons.IH [OF this] show ?case using 1 by auto
qed

text \<open>Destroying the proxy and then deleting it.\<close>

lemma destroy_delete:
  assumes "map_option px_orb (pw_proxies w self) = Some True" and "reg_ok others ns [] [] (pw_registry w)" and "length ns \<le> 1"
    and "mreg_loaded env" and "\<not> throws env ORB_destroy"
  shows "\<exists>w1 w2. destroy env self w = Some (Ok (), w1) \<and> delete_proxy env self w1 = Some (Ok (), w2)
    \<and> delete_proxy env self w = Some (Ok (), w2) \<and> pw_proxies w2 self = None \<and> dom (snd (pw_registry w2)) = others"
proof -
  obtain r h where reg: "pw_registry w = (r, h)" by (cases "pw_registry w")
  obtain p where p: "pw_proxies w self = Some p" "px_orb p" using assms(1) by auto
  obtain r' h' where d: "reg_destroy (pw_registry w) = Some (Ok (r', h'))" "dom h' = others"
    using reg_destroy_chain [OF assms(2) [unfolded reg]] assms(3) reg by auto
  let ?w1 = "w\<lparr>pw_registry := (r', h'), pw_proxies := (pw_proxies w)(self \<mapsto> p\<lparr>px_orb := False\<rparr>)\<rparr>"
  have 1: "destroy env self w = Some (Ok (), ?w1)" using p d(1) assms(4,5) by (simp add: destroy_def)
  have 2: "destroy env self ?w1 = Some (Ok (), ?w1)" by (simp add: destroy_def)
  from 1 2 d(2) show ?thesis by (simp add: delete_proxy_def)
qed

subsection \<open>The proxy\<close>

text \<open>\<open>init_proxy\<close> keeps the contract of the loaders.\<close>

lemma win_init_proxy_cases:
  assumes "win_init_proxy env s = Some (Ok r, s')"
  shows "r = None \<and> (ws_world s' = ws_world s \<or> pw_proxies (ws_world s') (we_self env) = None)
      \<or> r = Some (we_self env) \<and> orb_up (we_self env) (ws_world s')"
proof -
  obtain ok s1 where 1: "win_read_config env s = Some (Ok ok, s1)"
    "(if \<not> ok then retA None else (\<lambda>s. on_proxy (create_proxy (we_env env) (we_os env) (file_source (we_hash env) (ws_fcfg s)) LORICA_IOR_FILE
         (ld_debug (ws_loader s)) (we_self env)) s)) s1 = Some (Ok r, s')"
    using assms unfolding win_init_proxy_def by (elim bindA_OkE)
  have "ws_world s1 = ws_world s" using 1(1) by (auto simp: win_read_config_def Let_def split: prod.splits sum.splits)
  with 1(2) show ?thesis
    by (cases ok) (auto simp: on_proxy_def dest: create_proxy_cases)
qed

interpretation win_maker: proxy_maker "win_init_proxy env" ws_world "we_self env" for env
  by unfold_locales (use win_init_proxy_cases in fastforce)+

subsection \<open>The working directory\<close>

lemma strip_back_run:
  "CHR 0x5C \<notin> set f \<Longrightarrow> strip_back (length d + 1 + length f) (d @ CHR 0x5C # f @ zs)
    = Ok (d @ CHR 0x00 # replicate (length f) (CHR 0x00) @ zs)"
proof (induction f arbitrary: zs rule: rev_induct)
  case Nil
  show ?case by (simp add: nth_append list_update_append)
next
  case (snoc x f)
  have "(d @ CHR 0x5C # (f @ [x]) @ zs) ! (length d + 1 + length f) = x"
    "(d @ CHR 0x5C # (f @ [x]) @ zs)[length d + 1 + length f := CHR 0x00] = d @ CHR 0x5C # f @ CHR 0x00 # zs"
    by (simp_all add: nth_append list_update_append)
  moreover have "x \<noteq> CHR 0x5C" using snoc.prems by auto
  ultimately have "strip_back (length d + 1 + length (f @ [x])) (d @ CHR 0x5C # (f @ [x]) @ zs)
      = strip_back (length d + 1 + length f) (d @ CHR 0x5C # f @ CHR 0x00 # zs)"
    by simp
  also have "\<dots> = Ok (d @ CHR 0x00 # replicate (length f) (CHR 0x00) @ CHR 0x00 # zs)" using snoc by (intro snoc.IH) simp
  finally show ?case by (simp only: length_append_singleton replicate_Suc replicate_app_Cons_same append_Cons)
qed

lemma strip_back_fails: "n \<le> length cwd \<Longrightarrow> CHR 0x5C \<notin> set (take n cwd) \<Longrightarrow> strip_back n cwd = Fault BadSubscript"
  by (induction n arbitrary: cwd) (auto simp: take_Suc_conv_app_nth)

lemma c_str_ends: "CHR 0x00 \<notin> set d \<Longrightarrow> c_str (d @ CHR 0x00 # zs) = d"
  unfolding c_str_def by (induction d) auto

subsection \<open>The control thread\<close>

text \<open>
  A control request for the end arrives in a thread of its own, and no lock keeps the thread of \<open>run_standalone\<close> from taking steps between those of \<open>handle_control\<close>: the
  test of the pointer, the call through it, which reads it again, and in \<open>shutdown\<close> the write to the proxy and the call of its broker. When its wait is over, the other
  thread resets the pointer, destroys the proxy and deletes it.
\<close>

datatype control_pc = Idle | Tested | Entered nat | Marked nat

fun control_step :: "win_env \<Rightarrow> control_pc \<Rightarrow> (win_state, control_pc) act" where
  "control_step env Idle = bindA (readA (\<lambda>s. svc_proxy (ws_service s))) (\<lambda>p. retA (if p = None then Idle else Tested))"
| "control_step env Tested = bindA (readA (\<lambda>s. svc_proxy (ws_service s))) (\<lambda>p. case p of
       None \<Rightarrow> failA NullDeref
     | Some self \<Rightarrow> retA (Entered self))"
| "control_step env (Entered self) = seqA (on_proxy (px_mod self (\<lambda>p. p\<lparr>must_shutdown := True\<rparr>))) (retA (Marked self))"
| "control_step env (Marked self) = seqA
     (on_proxy (bindA (px_at self) (\<lambda>p. if px_orb p then call_broker (we_env env) ORB_shutdown else failA NullDeref))) (retA Idle)"

datatype main_pc = Waiting | Ended | Destroyed | Gone

fun end_step :: "win_env \<Rightarrow> main_pc \<Rightarrow> (win_state, main_pc) act" where
  "end_step env Waiting = seqA (set_proxy None) (retA Ended)"
| "end_step env Ended = seqA (on_proxy (destroy (we_env env) (we_self env))) (retA Destroyed)"
| "end_step env Destroyed = seqA (on_proxy (delete_proxy (we_env env) (we_self env))) (retA Gone)"
| "end_step env Gone = retA Gone"

inductive win_step :: "win_env \<Rightarrow> main_pc \<times> control_pc \<times> win_state \<Rightarrow> main_pc \<times> control_pc \<times> win_state \<Rightarrow> bool" for env where
  Control: "control_step env k s = Some (Ok k', s') \<Longrightarrow> win_step env (m, k, s) (m, k', s')"
| Main: "end_step env m s = Some (Ok m', s') \<Longrightarrow> win_step env (m, k, s) (m', k, s')"

inductive_cases win_stepE: "win_step env (m, k, s) (m', k', s')"

text \<open>Without interruption the four steps are what \<open>handle_control\<close> does after its report.\<close>

lemma control_steps_whole:
  "bindA (control_step env Idle) (\<lambda>k. if k = Idle then retA () else
     bindA (control_step env k) (\<lambda>k. bindA (control_step env k) (\<lambda>k. bindA (control_step env k) (\<lambda>k. retA ())))) s
   = bindA (readA (\<lambda>s. svc_proxy (ws_service s))) (\<lambda>p. case p of None \<Rightarrow> retA () | Some self \<Rightarrow> on_proxy (shutdown (we_env env) self)) s"
proof (cases "svc_proxy (ws_service s)")
  case (Some self)
  then show ?thesis
    by (cases "pw_proxies (ws_world s) self")
      (auto simp: bindA_def seqA_def readA_def retA_def failA_def modA_def on_proxy_def shutdown_def px_mod_def px_at_def call_broker_def orA_def)
qed (simp add: bindA_def readA_def retA_def)

text \<open>While the program waits the service points to its proxy, afterwards to none; a request that has the pointer has that to this proxy.\<close>

definition pointer_ok :: "nat \<Rightarrow> main_pc \<times> control_pc \<times> win_state \<Rightarrow> bool" where
  "pointer_ok self c = (case c of (m, k, s) \<Rightarrow>
     (if m = Waiting then serving self s else svc_proxy (ws_service s) = None) \<and> (case k of Entered p \<Rightarrow> p = self | Marked p \<Rightarrow> p = self | _ \<Rightarrow> True))"

lemma control_step_serving:
  assumes "serving self s" and "case k of Entered p \<Rightarrow> p = self | Marked p \<Rightarrow> p = self | _ \<Rightarrow> True" and "\<not> throws (we_env env) ORB_shutdown"
  shows "\<exists>k' s'. control_step env k s = Some (Ok k', s') \<and> serving self s' \<and> (case k' of Entered p \<Rightarrow> p = self | Marked p \<Rightarrow> p = self | _ \<Rightarrow> True)"
proof -
  obtain p where p: "pw_proxies (ws_world s) self = Some p" "px_orb p" "svc_proxy (ws_service s) = Some self" using assms(1) by (auto simp: serving_def)
  then show ?thesis using assms
    by (cases k) (auto simp: serving_def px_mod_def px_at_def call_broker_def orA_def bindA_def seqA_def readA_def retA_def modA_def on_proxy_def)
qed

lemma on_proxy_then:
  "seqA (on_proxy m) (retA x) s = Some (Ok y, s') \<Longrightarrow> y = x \<and> ws_service s' = ws_service s"
  by (auto simp: seqA_def on_proxy_def elim!: bindA_OkE)

lemma control_step_frame:
  assumes "control_step env k s = Some (Ok k', s')"
  shows "ws_service s' = ws_service s \<and> (\<forall>p. k' = Entered p \<longrightarrow> svc_proxy (ws_service s) \<noteq> None) \<and> (\<forall>p. k' = Marked p \<longrightarrow> k = Entered p)"
proof (cases k)
  case Idle
  with assms show ?thesis by (auto split: if_splits)
next
  case Tested
  with assms show ?thesis by (auto split: option.splits)
next
  case (Entered self)
  with assms on_proxy_then [of _ "Marked self" s k' s'] show ?thesis by auto
next
  case (Marked self)
  with assms on_proxy_then [of _ Idle s k' s'] show ?thesis by auto
qed

lemma end_step_frame:
  assumes "end_step env m s = Some (Ok m', s')"
  shows "m' \<noteq> Waiting \<and> svc_proxy (ws_service s') = (if m = Waiting then None else svc_proxy (ws_service s))"
proof (cases m)
  case Waiting
  with assms show ?thesis by (auto simp: set_proxy_def)
next
  case Ended
  with assms on_proxy_then [of _ Destroyed s m' s'] show ?thesis by auto
next
  case Destroyed
  with assms on_proxy_then [of _ Gone s m' s'] show ?thesis by auto
qed (use assms in auto)

lemma win_step_pointer_ok:
  assumes "win_step env c c'" and "\<not> throws (we_env env) ORB_shutdown" and "pointer_ok self c"
  shows "pointer_ok self c'"
  using assms(1,3)
proof (induction rule: win_step.induct)
  case (Control k s k' s' m)
  show ?case
  proof (cases "m = Waiting")
    case True
    then have "serving self s" "case k of Entered p \<Rightarrow> p = self | Marked p \<Rightarrow> p = self | _ \<Rightarrow> True" using Control.prems by (simp_all add: pointer_ok_def)
    from control_step_serving [OF this assms(2)] Control.hyps True show ?thesis by (auto simp: pointer_ok_def)
  next
    case False
    with Control.prems have "svc_proxy (ws_service s) = None" by (simp add: pointer_ok_def)
    with control_step_frame [OF Control.hyps] Control.prems False show ?thesis by (auto simp: pointer_ok_def split: control_pc.splits)
  qed
next
  case (Main m s m' s' k)
  from end_step_frame [OF Main.hyps] Main.prems show ?case by (auto simp: pointer_ok_def)
qed

lemma win_steps_pointer_ok:
  assumes "(win_step env)\<^sup>*\<^sup>* c c'" and "\<not> throws (we_env env) ORB_shutdown" and "pointer_ok self c"
  shows "pointer_ok self c'"
  using assms(1,3) by (induction rule: rtranclp_induct) (auto dest: win_step_pointer_ok [OF _ assms(2)])

text \<open>A request that has tested the pointer, or has it already, when the program ends.\<close>

lemma ends_after_test:
  assumes "serving (we_self env) s"
  shows "\<exists>s'. (win_step env)\<^sup>*\<^sup>* (Waiting, Idle, s) (Ended, Tested, s') \<and> control_step env Tested s' = Some (Fault NullDeref, s')"
proof -
  let ?s = "s\<lparr>ws_service := ws_service s\<lparr>svc_proxy := None\<rparr>\<rparr>"
  have "win_step env (Waiting, Idle, s) (Waiting, Tested, s)" by (rule Control) (use assms in \<open>simp add: serving_def\<close>)
  moreover have "win_step env (Waiting, Tested, s) (Ended, Tested, ?s)" by (rule Main) (simp add: set_proxy_def)
  ultimately have "(win_step env)\<^sup>*\<^sup>* (Waiting, Idle, s) (Ended, Tested, ?s)" by auto
  then show ?thesis by (intro exI [of _ ?s]) simp
qed

lemma ends_after_read:
  assumes "serving (we_self env) s" and "destroy (we_env env) (we_self env) (ws_world s) = Some (Ok (), w1)"
    and "delete_proxy (we_env env) (we_self env) w1 = Some (Ok (), w2)" and "pw_proxies w2 (we_self env) = None"
  shows "\<exists>s'. (win_step env)\<^sup>*\<^sup>* (Waiting, Idle, s) (Gone, Entered (we_self env), s')
    \<and> control_step env (Entered (we_self env)) s' = Some (Fault UseAfterFree, s')"
proof -
  let ?k = "Entered (we_self env)" and ?s = "s\<lparr>ws_service := ws_service s\<lparr>svc_proxy := None\<rparr>\<rparr>"
  have "win_step env (Waiting, Idle, s) (Waiting, Tested, s)" "win_step env (Waiting, Tested, s) (Waiting, ?k, s)"
    by (rule Control, use assms(1) in \<open>simp add: serving_def\<close>)+
  moreover have "win_step env (Waiting, ?k, s) (Ended, ?k, ?s)" by (rule Main) (simp add: set_proxy_def)
  moreover have "win_step env (Ended, ?k, ?s) (Destroyed, ?k, ?s\<lparr>ws_world := w1\<rparr>)" by (rule Main) (use assms(2) in simp)
  moreover have "win_step env (Destroyed, ?k, ?s\<lparr>ws_world := w1\<rparr>) (Gone, ?k, ?s\<lparr>ws_world := w2\<rparr>)" by (rule Main) (use assms(3) in simp)
  ultimately have "(win_step env)\<^sup>*\<^sup>* (Waiting, Idle, s) (Gone, ?k, ?s\<lparr>ws_world := w2\<rparr>)"
    by (meson converse_rtranclp_into_rtranclp rtranclp.rtrancl_refl)
  moreover have "control_step env ?k (?s\<lparr>ws_world := w2\<rparr>) = Some (Fault UseAfterFree, ?s\<lparr>ws_world := w2\<rparr>)"
    using assms(4) by (simp add: px_mod_def px_at_def on_proxy_def seqA_def bindA_def)
  ultimately show ?thesis by blast
qed

subsection \<open>Properties\<close>

text \<open>
  C23: Run as an application, the proxy is owned by the loader and lent to the service. After a successful initialisation with at most one mapper (for more than one see
  \<open>configured_destroy\<close> of theory Proxy) and when no call throws: whatever control requests are handled from start to end while the program waits for the threads,
  the program ends with 0; by then the service has no proxy any more, so that the destructor of the service does not delete
  the proxy a second time, and a control request that arrives only then does nothing to it. A request that is under way when the wait ends is another
  matter: \<open>control_while_ending\<close>.
\<close>

theorem standalone_ends_clean:
  assumes "win_init_proxy env s = Some (Ok (Some self), s1)" and "map_option px_orb (pw_proxies (ws_world s1) self) = Some True"
    and "reg_ok others ns [] [] (pw_registry (ws_world s1))" and "length ns \<le> 1"
    and "mreg_loaded (we_env env)" and "\<forall>c. \<not> throws (we_env env) c" and "wait_throws env = None"
  shows "\<exists>s'. win_run_standalone env codes s = Some (Ok 0, s')
    \<and> pw_proxies (ws_world s') self = None \<and> dom (snd (pw_registry (ws_world s'))) = others
    \<and> delete_service env s' = Some (Ok (), s')
    \<and> (\<forall>c. handle_control env c s' = Some (Ok (), s'\<lparr>ws_service := ws_service s'
          \<lparr>svc_reported := svc_reported (ws_service s') @ control_statuses env c\<rparr>\<rparr>))"
proof -
  let ?l = "ws_loader s1"
  let ?s2 = "s1\<lparr>ws_service := ws_service s1\<lparr>svc_proxy := Some self\<rparr>,
    ws_activated := ws_activated s1 @ [(self, proxy_thr_flags ?l, num_threads ?l)]\<rparr>"
  have "serving self ?s2" using assms(2) by (simp add: serving_def)
  then obtain s3 where 3: "handle_controls env codes ?s2 = Some (Ok (), s3)"
    "map_option px_orb (pw_proxies (ws_world s3) self) = Some True" "pw_registry (ws_world s3) = pw_registry (ws_world s1)"
    using handle_controls_serving [of self ?s2 env codes] assms(6) by auto
  let ?s4 = "s3\<lparr>ws_service := ws_service s3\<lparr>svc_proxy := None\<rparr>\<rparr>"
  obtain w1 w2 where d: "destroy (we_env env) self (ws_world s3) = Some (Ok (), w1)"
    "delete_proxy (we_env env) self w1 = Some (Ok (), w2)" "pw_proxies w2 self = None" "dom (snd (pw_registry w2)) = others"
    using destroy_delete [OF 3(2) assms(3) [folded 3(3)] assms(4,5)] assms(6) by blast
  let ?s' = "?s4\<lparr>ws_world := w2\<rparr>"
  have "end_standalone env self ?s4 = Some (Ok (), ?s')" using d(1,2) by (simp add: end_standalone_def)
  then have "win_run_standalone env codes s = Some (Ok 0, ?s')"
    using assms(1,7) 3(1) by (simp add: win_run_standalone_def set_proxy_def activate_proxy_def wait_proxy_def)
  moreover have "delete_service env ?s' = Some (Ok (), ?s')" by (simp add: delete_service_def)
  moreover have "svc_proxy (ws_service ?s') = None" by simp
  ultimately show ?thesis using d(3,4) handle_control_idle [of ?s' env] by (intro exI [of _ ?s']) simp
qed

text \<open>
  C25: Run as a service, after a successful initialisation with at most one mapper and when no call of the broker throws (a failed initialisation crashes the service after it has reported that it
  runs, \<open>failed_init_crashes\<close>; for more than one mapper see \<open>configured_destroy\<close> of theory Proxy): the proxy is started with the thread flags and the number of threads of the
  loader; the service reports that it runs, then what the control requests report that are handled while it waits, and at the end that it has stopped, also when the wait throws. The destructor of the
  service deletes the proxy. What the program returns is the result of the dispatcher, which is not 0 on success.
\<close>

theorem service_runs_and_stops:
  assumes "win_init_proxy env s = Some (Ok (Some self), s1)" and "map_option px_orb (pw_proxies (ws_world s1) self) = Some True"
    and "reg_ok others ns [] [] (pw_registry (ws_world s1))" and "length ns \<le> 1"
    and "mreg_loaded (we_env env)" and "\<forall>c. \<not> throws (we_env env) c" and "dispatcher_result env \<noteq> 0"
  shows "\<exists>s' s''. win_run_service env codes s = Some (Ok (dispatcher_result env), s')
    \<and> svc_reported (ws_service s') = svc_reported (ws_service s1) @ SERVICE_RUNNING # concat (map (control_statuses env) codes) @ [SERVICE_STOPPED]
    \<and> ws_activated s' = ws_activated s1 @ [(self, proxy_thr_flags (ws_loader s1), num_threads (ws_loader s1))]
    \<and> delete_service env s' = Some (Ok (), s'') \<and> pw_proxies (ws_world s'') self = None"
proof -
  let ?l = "ws_loader s1"
  let ?v = "ws_service s1\<lparr>svc_proxy := Some self, svc_thr_flags := proxy_thr_flags ?l, svc_num_threads := num_threads ?l\<rparr>"
  have p: "prepare_service env s = Some (Ok True, s1\<lparr>ws_service := ?v\<rparr>)"
    using assms(1) by (simp add: prepare_service_def service_ops)
  let ?s2 = "s1\<lparr>ws_service := ?v\<lparr>svc_reported := svc_reported (ws_service s1) @ [SERVICE_RUNNING]\<rparr>,
    ws_activated := ws_activated s1 @ [(self, proxy_thr_flags ?l, num_threads ?l)]\<rparr>"
  have "serving self ?s2" using assms(2) by (simp add: serving_def)
  then obtain w where 3: "handle_controls env codes ?s2 = Some (Ok (), ?s2\<lparr>ws_world := w, ws_service := ws_service ?s2
      \<lparr>svc_reported := svc_reported (ws_service ?s2) @ concat (map (control_statuses env) codes)\<rparr>\<rparr>)"
    "map_option px_orb (pw_proxies w self) = Some True" "pw_registry w = pw_registry (ws_world s1)"
    using handle_controls_serving [of self ?s2 env codes] assms(6) by auto
  obtain w2 where d: "delete_proxy (we_env env) self w = Some (Ok (), w2)" "pw_proxies w2 self = None"
    using destroy_delete [OF 3(2) assms(3) [folded 3(3)] assms(4,5)] assms(6) by blast
  show ?thesis using p 3(1) assms(7) d
    by (cases "wait_throws env") (simp_all add: win_run_service_def nt_svc_def service_ops activate_proxy_def delete_service_def wait_proxy_def)
qed

text \<open>
  A proxy that cannot be configured crashes the program: neither way of running it looks at whether there is a proxy before its threads are
  started. The service has then reported that it runs, and never reports that it has stopped.
\<close>

theorem failed_init_crashes:
  assumes "win_init_proxy env s = Some (Ok None, s1)" and "dispatcher_result env \<noteq> 0"
  shows "\<exists>s'. win_execute env codes s = Some (Fault NullDeref, s')
    \<and> svc_reported (ws_service s') = svc_reported (ws_service s1) @ (if is_service (ws_loader s) then [SERVICE_RUNNING] else [])"
  using assms by (simp add: win_execute_def win_run_service_def prepare_service_def win_run_standalone_def nt_svc_def service_ops activate_proxy_def)

text \<open>
  C34: An installed service cannot be started. The command line that the installation registers ends in \<open>-s\<close>, which is not among the
  options, so that the program that is started with it prints its usage and exits with 1.
\<close>

theorem installed_service_exits:
  assumes "wl_command (ws_loader s) = SC_INSTALL" and "win_run_service_command env s = Some (Ok 1, s1)"
    and "\<forall>prog c. c \<notin> set WIN_OPTIONS \<longrightarrow> get_opt env WIN_OPTIONS [prog, [CHR ''-'', c]] = [(CHR ''?'', None)]"
    and "win_set_working_directory env (Some prog) s2 = Some (Ok (Ret ()), s3)"
  shows "ws_registered s1 = Some (module_file_name env @ '' -s'')
    \<and> win_main env [prog, ''-s''] codes s2 = Some (Ok (Exit 1), s3)"
proof
  show "ws_registered s1 = Some (module_file_name env @ '' -s'')"
    using assms(1,2) by (auto simp: win_run_service_command_def service_command_line_def ask_scm_def liftR_def bindA_def seqA_def split: if_splits)
  have "get_opt env WIN_OPTIONS [prog, ''-s''] = [(CHR ''?'', None)]" using assms(3) by (simp add: WIN_OPTIONS_def)
  then have "win_parse_args env [prog, ''-s''] s3 = Some (Ok (Exit 1), s3)" by (simp add: win_parse_args_def)
  then show "win_main env [prog, ''-s''] codes s2 = Some (Ok (Exit 1), s3)"
    using assms(4) by (simp add: win_main_def or_exit_def)
qed

text \<open>
  The working directory is that of the program: the part of its full path before the last backslash. A path without
  a backslash makes the loop run off the start of the buffer.
\<close>

theorem working_directory:
  assumes "full_path_name env prog = Some path"
  shows "(\<forall>d f. path = d @ CHR 0x5C # f \<and> CHR 0x5C \<notin> set f \<and> CHR 0x00 \<notin> set d \<longrightarrow>
      win_set_working_directory env prog s = Some (Ok (Ret ()), if may_enter env d then s\<lparr>ws_cwd := d\<rparr> else s))
    \<and> (CHR 0x5C \<notin> set path \<longrightarrow> win_set_working_directory env prog s = Some (Fault BadSubscript, s))"
proof (intro conjI allI impI)
  fix d f
  assume a: "path = d @ CHR 0x5C # f \<and> CHR 0x5C \<notin> set f \<and> CHR 0x00 \<notin> set d"
  then have "strip_back (length path) path = Ok (d @ CHR 0x00 # replicate (length f) (CHR 0x00))"
    using strip_back_run [of f d "[]"] by simp
  moreover have "c_str (d @ CHR 0x00 # zs) = d" for zs using a by (simp add: c_str_ends)
  ultimately show "win_set_working_directory env prog s = Some (Ok (Ret ()), if may_enter env d then s\<lparr>ws_cwd := d\<rparr> else s)"
    using assms by (simp add: win_set_working_directory_def)
next
  assume "CHR 0x5C \<notin> set path"
  then show "win_set_working_directory env prog s = Some (Fault BadSubscript, s)"
    using assms by (simp add: win_set_working_directory_def strip_back_fails)
qed

text \<open>
  C24: A control request for the end, in every interleaving of its steps with the end of the application. The service points to the proxy as long as the program waits, and to none afterwards; and as long as it
  waits no step of the request fails. Nothing protects the request when the wait ends between two of its steps: after the test of the pointer it calls through null, and when it has
  read the pointer already, it writes to a proxy that has been deleted.
\<close>

theorem control_while_ending:
  assumes "serving (we_self env) s" and "\<forall>c. \<not> throws (we_env env) c" and "mreg_loaded (we_env env)"
    and "reg_ok others ns [] [] (pw_registry (ws_world s))" and "length ns \<le> 1"
  shows "(\<forall>m k s'. (win_step env)\<^sup>*\<^sup>* (Waiting, Idle, s) (m, k, s') \<longrightarrow>
        svc_proxy (ws_service s') = (if m = Waiting then Some (we_self env) else None)
        \<and> (m = Waiting \<longrightarrow> (\<exists>k' s''. control_step env k s' = Some (Ok k', s''))))
    \<and> (\<exists>s'. (win_step env)\<^sup>*\<^sup>* (Waiting, Idle, s) (Ended, Tested, s') \<and> control_step env Tested s' = Some (Fault NullDeref, s'))
    \<and> (\<exists>s'. (win_step env)\<^sup>*\<^sup>* (Waiting, Idle, s) (Gone, Entered (we_self env), s')
        \<and> control_step env (Entered (we_self env)) s' = Some (Fault UseAfterFree, s'))"
proof (intro conjI allI impI)
  fix m k s' assume "(win_step env)\<^sup>*\<^sup>* (Waiting, Idle, s) (m, k, s')"
  then have ok: "pointer_ok (we_self env) (m, k, s')" using win_steps_pointer_ok assms(1,2) by (fastforce simp: pointer_ok_def)
  then show "svc_proxy (ws_service s') = (if m = Waiting then Some (we_self env) else None)" by (cases m) (simp_all add: pointer_ok_def serving_def)
  show "\<exists>k' s''. control_step env k s' = Some (Ok k', s'')" if "m = Waiting"
    using ok that control_step_serving [of "we_self env" s' k env] assms(2) by (auto simp: pointer_ok_def)
next
  show "\<exists>s'. (win_step env)\<^sup>*\<^sup>* (Waiting, Idle, s) (Ended, Tested, s') \<and> control_step env Tested s' = Some (Fault NullDeref, s')"
    by (rule ends_after_test [OF assms(1)])
  have "map_option px_orb (pw_proxies (ws_world s) (we_self env)) = Some True" using assms(1) by (simp add: serving_def)
  from destroy_delete [OF this assms(4,5,3)] assms(2) obtain w1 w2 where
    "destroy (we_env env) (we_self env) (ws_world s) = Some (Ok (), w1)" "delete_proxy (we_env env) (we_self env) w1 = Some (Ok (), w2)"
    "pw_proxies w2 (we_self env) = None" by blast
  from ends_after_read [OF assms(1) this] show "\<exists>s'. (win_step env)\<^sup>*\<^sup>* (Waiting, Idle, s) (Gone, Entered (we_self env), s')
      \<and> control_step env (Entered (we_self env)) s' = Some (Fault UseAfterFree, s')" .
qed

subsection \<open>Samples\<close>

text \<open>Options are single letters that follow a dash, and an unknown one is a question mark.\<close>

definition sample_get_opt :: "string \<Rightarrow> string list \<Rightarrow> (char \<times> string option) list" where
  "sample_get_opt spec argv = map (\<lambda>a. (if a ! 1 \<in> set spec then a ! 1 else CHR ''?'', None)) (tl argv)"

definition sample_win_env :: "bool \<Rightarrow> win_env" where
  "sample_win_env works = \<lparr>we_env = sample_proxy_env\<lparr>throws := (\<lambda>c. \<not> works \<and> c = ORB_init)\<rparr>, we_os = sample_env, we_hash = sample_hash,
     we_read = (\<lambda>f. Some []), we_self = 7, get_opt = sample_get_opt,
     full_path_name = map_option (\<lambda>f. ''C:'' @ CHR 0x5C # ''Lorica'' @ CHR 0x5C # f), may_enter = (\<lambda>d. True),
     module_file_name = ''lorica.exe'', scm_ok = (\<lambda>c. True), dispatcher_result = 1, inherited_control = (\<lambda>c. []),
     wait_throws = None\<rparr>"

definition sample_win :: win_state where
  "sample_win = \<lparr>ws_loader = new_win_loader None, ws_service = new_nt_service [] 0, ws_world = start_world, ws_fcfg = new_file_config,
     ws_level = 0, ws_cwd = [], ws_registered = None, ws_log = False, ws_activated = []\<rparr>"

lemmas sample_win_simps = sample_win_env_def sample_win_def new_win_loader_def new_loader_base_def loader_base.defs new_nt_service_def

lemma sample_win_init:
  "\<exists>w. win_init_proxy (sample_win_env b) sample_win
      = Some (Ok (if b then Some 7 else None), sample_win\<lparr>ws_fcfg := sample_fcfg, ws_world := w\<rparr>)
    \<and> (b \<longrightarrow> map_option px_orb (pw_proxies w 7) = Some True \<and> reg_ok {} [] [] [] (pw_registry w))"
proof -
  have c: "cfg_init sample_hash (\<lambda>f. Some []) ''lorica.conf'' 0 new_file_config = (Ok (), sample_fcfg)"
    by (simp add: cfg_init_def load_def load_line_def new_file_config_def sample_fcfg_def unload_def)
  have "get_long_value sample_hash sample_fcfg t n = n" for t n
    by (simp add: get_value_def get_long_value_def cfg_extract_def sample_fcfg_def new_file_config_def)
  moreover have "int_cast 1 = 1" by (simp add: int_cast_def)
  ultimately have r: "win_read_config (sample_win_env b) sample_win = Some (Ok True, sample_win\<lparr>ws_fcfg := sample_fcfg\<rparr>)"
    using c by (simp add: win_read_config_def sample_win_simps LORICA_CONF_FILE_def Let_def)
  obtain w where "create_proxy (sample_proxy_env\<lparr>throws := (\<lambda>c. \<not> b \<and> c = ORB_init)\<rparr>) sample_env (file_source sample_hash sample_fcfg)
      ''lorica.ior'' False 7 start_world = Some (Ok (if b then Some 7 else None), w)"
    "b \<longrightarrow> map_option px_orb (pw_proxies w 7) = Some True \<and> reg_ok {} [] [] [] (pw_registry w)"
    using sample_create_proxy [of b] by blast
  then show ?thesis using r
    by (intro exI [of _ w]) (simp add: win_init_proxy_def on_proxy_def sample_win_simps LORICA_IOR_FILE_def del: if_split)
qed

lemma sample_win_ok: "mreg_loaded (we_env (sample_win_env True))" "\<forall>c. \<not> throws (we_env (sample_win_env True)) c"
  "dispatcher_result (sample_win_env b) \<noteq> 0" "length ([] :: nat list) \<le> 1" "wait_throws (sample_win_env b) = None"
  by (simp_all add: sample_win_env_def sample_proxy_env_def)

theorem standalone_ends_clean_witness:
  "\<exists>s'. win_run_standalone (sample_win_env True) [1, 5] sample_win = Some (Ok 0, s') \<and> pw_proxies (ws_world s') 7 = None
    \<and> delete_service (sample_win_env True) s' = Some (Ok (), s')"
proof -
  obtain w where i: "win_init_proxy (sample_win_env True) sample_win = Some (Ok (Some 7), sample_win\<lparr>ws_fcfg := sample_fcfg, ws_world := w\<rparr>)"
    "map_option px_orb (pw_proxies w 7) = Some True" "reg_ok {} [] [] [] (pw_registry w)"
    using sample_win_init [of True] by (simp only: if_True) blast
  from standalone_ends_clean [OF i(1) _ _ sample_win_ok(4,1,2,5), of "{}" "[1, 5]"] i(2,3) show ?thesis by auto
qed

theorem service_runs_and_stops_witness:
  "\<exists>s' s''. win_run_service (sample_win_env True) [1] sample_win = Some (Ok 1, s')
    \<and> svc_reported (ws_service s') = [SERVICE_RUNNING, SERVICE_STOP_PENDING, SERVICE_STOPPED]
    \<and> delete_service (sample_win_env True) s' = Some (Ok (), s'') \<and> pw_proxies (ws_world s'') 7 = None"
proof -
  obtain w where i: "win_init_proxy (sample_win_env True) sample_win = Some (Ok (Some 7), sample_win\<lparr>ws_fcfg := sample_fcfg, ws_world := w\<rparr>)"
    "map_option px_orb (pw_proxies w 7) = Some True" "reg_ok {} [] [] [] (pw_registry w)"
    using sample_win_init [of True] by (simp only: if_True) blast
  have "dispatcher_result (sample_win_env True) = 1" "svc_reported (ws_service sample_win) = []"
    "control_statuses (sample_win_env True) 1 = [SERVICE_STOP_PENDING]"
    by (simp_all add: sample_win_simps control_statuses_def SERVICE_CONTROL_STOP_def)
  with service_runs_and_stops [OF i(1) _ _ sample_win_ok(4,1,2,3), of "{}" "[1]"] i(2,3) show ?thesis by auto
qed

theorem failed_init_crashes_witness:
  "\<exists>s'. win_execute (sample_win_env False) [] sample_win = Some (Fault NullDeref, s') \<and> svc_reported (ws_service s') = [SERVICE_RUNNING]"
proof -
  obtain w where "win_init_proxy (sample_win_env False) sample_win = Some (Ok None, sample_win\<lparr>ws_fcfg := sample_fcfg, ws_world := w\<rparr>)"
    using sample_win_init [of False] by (simp only: if_False) blast
  from failed_init_crashes [OF this sample_win_ok(3), of "[]"] show ?thesis by (simp add: sample_win_simps is_service_def)
qed

theorem installed_service_exits_witness:
  "\<exists>s1. win_run_service_command (sample_win_env True) (sample_win\<lparr>ws_loader := (new_win_loader None)\<lparr>wl_command := SC_INSTALL\<rparr>\<rparr>) = Some (Ok 1, s1)
    \<and> ws_registered s1 = Some ''lorica.exe -s''
    \<and> win_main (sample_win_env True) [''lorica.exe'', ''-s''] [] sample_win
      = Some (Ok (Exit 1), sample_win\<lparr>ws_cwd := ''C:'' @ CHR 0x5C # ''Lorica''\<rparr>)"
proof -
  let ?s = "sample_win\<lparr>ws_loader := (new_win_loader None)\<lparr>wl_command := SC_INSTALL\<rparr>\<rparr>"
  obtain s1 where "win_run_service_command (sample_win_env True) ?s = Some (Ok 1, s1)"
    by (simp add: win_run_service_command_def service_command_line_def ask_scm_def sample_win_simps is_service_def MAX_PATH_def liftR_def bindA_def seqA_def)
  moreover have "wl_command (ws_loader ?s) = SC_INSTALL" by (simp add: sample_win_simps)
  moreover have "\<forall>prog c. c \<notin> set WIN_OPTIONS \<longrightarrow> get_opt (sample_win_env True) WIN_OPTIONS [prog, [CHR ''-'', c]] = [(CHR ''?'', None)]"
    by (simp add: sample_win_env_def sample_get_opt_def)
  moreover have "win_set_working_directory (sample_win_env True) (Some ''lorica.exe'') sample_win
      = Some (Ok (Ret ()), sample_win\<lparr>ws_cwd := ''C:'' @ CHR 0x5C # ''Lorica''\<rparr>)"
    by (simp add: win_set_working_directory_def sample_win_env_def c_str_def)
  moreover have "module_file_name (sample_win_env True) = ''lorica.exe''" by (simp add: sample_win_env_def)
  ultimately show ?thesis
    using installed_service_exits [of ?s "sample_win_env True" s1 "''lorica.exe''" sample_win _ "[]"] by auto
qed

theorem working_directory_witness:
  "win_set_working_directory (sample_win_env True) (Some ''lorica.exe'') sample_win
     = Some (Ok (Ret ()), sample_win\<lparr>ws_cwd := ''C:'' @ CHR 0x5C # ''Lorica''\<rparr>)"
proof -
  have "full_path_name (sample_win_env True) (Some ''lorica.exe'') = Some ((''C:'' @ CHR 0x5C # ''Lorica'') @ CHR 0x5C # ''lorica.exe'')"
    "CHR 0x5C \<notin> set ''lorica.exe''" "CHR 0x00 \<notin> set (''C:'' @ CHR 0x5C # ''Lorica'')" "may_enter (sample_win_env True) d" for d
    by (simp_all add: sample_win_env_def)
  then show ?thesis
    using working_directory [of "sample_win_env True" "Some ''lorica.exe''" _ sample_win, THEN conjunct1, rule_format,
        of _ "''C:'' @ CHR 0x5C # ''Lorica''" "''lorica.exe''"] by simp
qed

theorem control_while_ending_witness:
  "\<exists>s s'. serving 7 s \<and> (win_step (sample_win_env True))\<^sup>*\<^sup>* (Waiting, Idle, s) (Gone, Entered 7, s')
    \<and> control_step (sample_win_env True) (Entered 7) s' = Some (Fault UseAfterFree, s')"
proof -
  obtain w where "win_init_proxy (sample_win_env True) sample_win = Some (Ok (Some 7), sample_win\<lparr>ws_fcfg := sample_fcfg, ws_world := w\<rparr>)"
    and i: "map_option px_orb (pw_proxies w 7) = Some True" "reg_ok {} [] [] [] (pw_registry w)"
    using sample_win_init [of True] by (simp only: if_True) blast
  let ?s = "sample_win\<lparr>ws_world := w, ws_service := (new_nt_service [] 0)\<lparr>svc_proxy := Some 7\<rparr>\<rparr>"
  have self: "we_self (sample_win_env True) = 7" by (simp add: sample_win_env_def)
  have s: "serving (we_self (sample_win_env True)) ?s" using i(1) by (simp add: self serving_def)
  have r: "reg_ok {} [] [] [] (pw_registry (ws_world ?s))" using i(2) by simp
  from control_while_ending [OF s sample_win_ok(2,1) r sample_win_ok(4)] s show ?thesis unfolding self by blast
qed

end
