(* ===== verification/Spec2Isabelle.thy ===== *)
theory Spec2Isabelle
  imports ConfigFlow OperationTable Sessions DefaultMode Startup IorMapper UnixLoader Win32Loader
begin

text \<open>
  \<^bold>\<open>Lorica\<close>

  Lorica is a proxy (an IIOP firewall) for CORBA. Applications inside an enclave hand it the references of their servers; it gives
  out references of its own, which clients outside use, and passes every request and reply on, replacing the references in their arguments on the way. This
  development models the program's own code in src/src, with the tool src/utils/ior_mapper, and proves what its parts promise each other.

  \<^bold>\<open>The parts and how they interact\<close>

  The main program runs a service loader (UNIX or Windows), which reads the configuration file and creates the proxy. The proxy starts the broker, creates a
  POA manager for each side from the configured endpoints, publishes the reference mapper and sets up the registry of mappers. A mapper keeps a table of
  values that tie an original reference to a mapped one (the option \<open>CacheProxyReferences\<close>), or, by default, codes the original reference into the object id. A request for a mapped
  reference reaches the default servant of a mapper's POA, is evaluated (the generic evaluator knows operations and types from the interface repository
  through its table of operations) and sent on; the reply goes the same way back.

  \<^bold>\<open>Theories\<close>

  \<^item> \<open>Prelude\<close>: the faults of C++ code as values and the result type. \<open>Action\<close>: computations on a state that keep what was done when an exception
    leaves them. \<open>Cpp_String\<close>: what the code uses of \<open>std::string\<close>, C strings and number conversions. \<open>Posix\<close>: descriptors, files and record locks as POSIX specifies them.
  \<^item> \<open>FileConfig\<close> (FileConfig.cpp), \<open>Endpoint\<close> and \<open>ConfigBase\<close> (ConfigBase.cpp): the configuration file, endpoints and their text, the argument vectors of the broker
    and the repository. Shown: what a lookup gives after a file was read; the shape of the endpoints that parsing accepts, and that plain addresses are read as they are written; the vectors, in order.
  \<^item> \<open>ReferenceMapValue\<close> (ReferenceMapValue.cpp), \<open>RMVByMapped\<close> and \<open>RMVStore\<close> (RMVByMapped.cpp): counted values, the paged table of 32 bit indices with its free stack, and its
    collector, also as a thread in steps between which others use the table. Shown: the counts are the owners; the table refines a finite map with counted values; in every such interleaving the collector spares
    mappings that were there before and whose objects are alive; where locks do not protect the free stack or the collector, the interleaving that goes wrong; the size that wraps at \<open>2^32\<close>.
  \<^item> \<open>MapperRegistry\<close> (MapperRegistry.cpp, GenericLoader.cpp and the chain of ProxyMapper.cpp), \<open>ProxyMapper\<close> (ProxyMapper.cpp, NullProxyMapper.cpp, GenericMapper.cpp), \<open>MapperInit\<close>
    (construction and initialisation of the mappers, IFRService.cpp), \<open>ReferenceMapper\<close> (ReferenceMapper\_i.cpp): the chain of mappers and its order, object ids, mapping
    in both directions, POAs, and the interface to the applications. Shown: round trips of mapping and of publishing when there is a table, that a native reference is mapped again each time, and the POAs of every mapper.
  \<^item> \<open>OperationTable\<close> (OCI/OperationTable.cpp), \<open>TypeCode\<close> and \<open>GenericEvaluator\<close> (GenericEvaluator.cpp): operations and argument lists from the repository, the search for
    references in a type, and the mapping of all references in a value. Shown: lookups after \<open>add_interface\<close>, counts, independence of the values of \<open>strcmp\<close>, termination of the search exactly
    when it can end, and that a request, a reply and an exception have all their references mapped, each once, in order.
  \<^item> \<open>ProxyRequest\<close> (both ProxyServant.cpp and both ProxyReplyHandler.cpp, EvaluatorBase.cpp): a request through the proxy and its reply, as the effects on the broker.
    Shown: a request reaches the original object, and how often a waiting client is answered, faults included.
  \<^item> \<open>PassThrough\<close>: the evaluator, the mapper and the table together, for the values of a request and of its reply. Shown, for a mapper with a table: a value that goes through the proxy shows
    no reference of the side it came from and gets all of them back on its way back; the same for the arguments and results of a call.
  \<^item> \<open>Sessions\<close>: the reference mapper over sequences of calls, of references that requests bring and of collections, as a step relation on its state and on what its clients may expect, for a mapper with
    a table. Shown: mapped references and names lead to their servers and to no other, as long as no mapped reference is published under a second name and no server with a name is collected; the name that the
    collector leaves behind leads to the next server.
  \<^item> \<open>DefaultMode\<close>: the mapper without a table, which is the default. Shown: its references carry the original ones and lead to them, removing a server does nothing, and references that
    come back are wrapped once more.
  \<^item> \<open>Proxy\<close> (proxy.cpp): configuration, shutdown and end of the proxy, for both builds. Shown: what a configuration establishes, which \<open>destroy\<close> works. \<open>ConfigFlow\<close> goes from
    the text of the configuration file to the endpoints at which the proxy listens.
  \<^item> \<open>SvcLoader\<close> (svc\_loader\_base.cpp), \<open>UnixLoader\<close> (UNIX\_svc\_loader.cpp, main.cpp), \<open>Win32Loader\<close> (Win32\_svc\_loader.cpp, ntsvc.cpp, main.cpp): the loaders. Shown: the daemon's
    descriptors, what the pid file's lock excludes and when it is lost, the statuses of the Windows service, who deletes the proxy, and, for a control
    request whose steps interleave with the end of the application, that it is safe while the program waits and how it fails when the wait ends under it.
  \<^item> \<open>IorMapper\<close> (utils/ior\_mapper/ior\_mapper.cpp): the tool that maps one reference. \<open>Startup\<close> and this theory: properties that span components.

  \<^bold>\<open>Conventions\<close>

  A class is a record with the source's members, an object behind a pointer is an entry of a heap by address, and null is \<^term>\<open>None\<close>. Undefined behaviour and
  exceptions are faults; an action on a state returns the state with them. Integers keep their width where it matters (32 bit indices and host ids, 16 bit ports of
  the endpoint policy, \<open>int\<close> and \<open>long\<close> by explicit casts). There is no fuel: loops are functions with a termination proof, and what may run for ever (the chain of mappers,
  the descent into a type) is \<open>partial_function (option)\<close> with \<^term>\<open>None\<close> for not returning; that they return is proved where it is claimed. Threads appear as
  interleavings of the steps that no common lock protects. Log output is left out.

  The interfaces are locales: \<open>config_reader\<close> (a source of configuration values; the configuration file provides it), \<open>string_order\<close> (\<open>strcmp\<close>), \<open>index_store\<close> (what the mappers
  rely on of the table), \<open>passage\<close> (what the evaluator relies on of the mapping of single references, in either direction) and \<open>proxy_maker\<close> (\<open>init_proxy\<close> of either loader). Each is interpreted on the definitions of the component that provides it.

  ACE, TAO and the operating systems are parameters: the record \<open>broker\<close> with its laws \<open>broker_ok\<close>, \<open>proxy_env\<close>, \<open>init_env\<close>, \<open>os_env\<close>, \<open>system\<close>, \<open>win_env\<close> and \<open>tool_env\<close> tell what calls
  answer and which of them throw; \<open>ACE::hash_pjw\<close>, \<open>ACE_Get_Opt\<close> and \<open>strcmp\<close> are functions.

  \<^bold>\<open>Not modelled\<close>

  Exceptions of the interface repository's calls while \<open>add_interface\<close> reads an interface, and of the ORB where an operation's environment has no switch for them. What a disk stores of a text that is printed to
  an open file is left open for the tool (\<open>te_stored\<close>) and taken to be the text for the proxy's IOR file. The initialisation of the mappers is a parameter of \<open>configure\<close>; its code is
  modelled in \<open>MapperInit\<close>, and \<open>configured_chain_initialises\<close> below puts the two together. The names of the files are the fallbacks of \<open>hardcoded-defs.h\<close>.

  The sample server agent (ServerAgent\_impl.cpp), which only writes log messages; the global debug level except where the loaders set it; the branches for Darwin and for builds
  without SSLIOP; registration macros of the service configurator; accessors that return a member and empty destructors; tests, packaging and build files. The destructors of
  the table and of the evaluators' list, which free memory that nothing refers to any more, have no counterpart.
\<close>

section \<open>Properties that span components\<close>

subsection \<open>The loaders\<close>

text \<open>
  C19: Both loaders get a proxy or nothing. Where no proxy was before, \<open>init_proxy\<close> of the UNIX loader and that of the Windows loader give the address of their proxy
  exactly when its ORB runs afterwards, and null otherwise, with no proxy left behind.
\<close>

theorem init_all_or_nothing:
  "(pw_proxies (us_world s) (su_self su) = None \<and> init_proxy su s = Some (Ok r, s') \<longrightarrow>
      r = (if orb_up (su_self su) (us_world s') then Some (su_self su) else None)
      \<and> (r = None \<longrightarrow> pw_proxies (us_world s') (su_self su) = None))
   \<and> (pw_proxies (ws_world w) (we_self env) = None \<and> win_init_proxy env w = Some (Ok q, w') \<longrightarrow>
      q = (if orb_up (we_self env) (ws_world w') then Some (we_self env) else None)
      \<and> (q = None \<longrightarrow> pw_proxies (ws_world w') (we_self env) = None))"
  using unix_maker.all_or_nothing win_maker.all_or_nothing by blast

theorem init_all_or_nothing_witness:
  "\<exists>s' w'. init_proxy (sample_surroundings True) (sample_unix (sample_process 7, sample_fs)) = Some (Ok (Some 7), s') \<and> orb_up 7 (us_world s')
    \<and> win_init_proxy (sample_win_env False) sample_win = Some (Ok None, w') \<and> pw_proxies (ws_world w') 7 = None"
proof -
  let ?u = "sample_unix (sample_process 7, sample_fs)"
  obtain s' where s: "init_proxy (sample_surroundings True) ?u = Some (Ok (Some 7), s')"
    using sample_init_proxy [of True "(sample_process 7, sample_fs)"] by auto
  obtain w' where w: "win_init_proxy (sample_win_env False) sample_win = Some (Ok None, w')"
    using sample_win_init [of False] by (simp only: if_False) blast
  have self: "su_self (sample_surroundings True) = 7" "we_self (sample_win_env False) = 7"
    "pw_proxies (us_world ?u) 7 = None" "pw_proxies (ws_world sample_win) 7 = None"
    by (simp_all add: sample_surroundings_def sample_win_env_def sample_unix_def sample_win_def start_world_def)
  from init_all_or_nothing [of ?u "sample_surroundings True" "Some 7" s' sample_win "sample_win_env False" None w'] s w show ?thesis
    unfolding self by (auto split: if_splits)
qed

subsection \<open>The mappers of a configuration\<close>

text \<open>
  The chain that a configuration registers (\<open>configure_establishes\<close>), with the objects that the constructors make, is one whose initialisation succeeds: the parameter of \<open>configure\<close> for it
  can be its code. Each mapper gets its two POAs.
\<close>

definition constructed :: "mapper_kind \<Rightarrow> mapper_object" where
  "constructed k = (if k = GenericMapper then new_generic_mapper else new_null_mapper)"

lemma configured_chain_initialises:
  assumes "calm ienv" and "null_addr env \<noteq> gen_addr env" and "\<forall>(a, k) \<in> set (configured_mappers env src). iw_mappers s a = Some (constructed k)"
    and "\<forall>n. iw_poas s n = None"
  shows "\<exists>s'. chain_init ienv (map fst (configured_mappers env src)) s = Some (Ok 1, s')
    \<and> list_all2 (ready s') (map fst (configured_mappers env src)) (map (mo_id \<circ> constructed \<circ> snd) (configured_mappers env src))"
proof -
  let ?c = "configured_mappers env src"
  have "list_all2 (\<lambda>a i. map_option mo_id (iw_mappers s a) = Some i) (map fst ?c) (map (mo_id \<circ> constructed \<circ> snd) ?c)"
    using assms(3) by (auto simp: list_all2_conv_all_nth split_beta)
  moreover have "distinct (map fst ?c)" "distinct (map (mo_id \<circ> constructed \<circ> snd) ?c)"
    using assms(2) by (auto simp: configured_mappers_def constructed_def new_generic_mapper_def new_null_mapper_def new_mapper_object_def)
  ultimately show ?thesis using chain_init_ok [OF assms(1), of s] assms(4) by blast
qed

subsection \<open>The default address\<close>

lemma parse_default_inside: "parse_all os False (address_list ''localhost:4080'') [] k = Ok (True, [sample_int], k)"
  by code_simp

text \<open>
  C20: The tool's default address is the proxy's. A proxy whose configuration names no internal address listens inside at one endpoint, and the reference
  mapper is bound in the IOR table under a key such that the address with which \<open>ior_mapper\<close> looks for the mapper by default is made of exactly that host, port and key.
\<close>

theorem default_address_agrees:
  assumes "good_env env" and "pw_proxies st self = Some p"
    and "orb_args (pw_config st) = []" and "cfg_endpoints (pw_config st) = []" and "cs_value src ''Internal_Address'' [] = []"
    and "parse_all os True (address_list (endpoint_text os src True)) [] (pw_query st) = Ok (True, exts, k1)"
    and "writable env (c_str (cs_value src ''IOR_FILE'' d))"
    and "reg_ok others [] [] [] (pw_registry st)" and "\<not> mappers_ready (fst (pw_registry st))"
    and "null_addr env \<notin> others" and "gen_addr env \<notin> others"
  shows "\<exists>st' host port key. configure env os src d self st = Some (Ok (), st')
    \<and> pw_inside st' = Some \<lparr>pm_endpoints = [(host, port)], pm_active = True\<rparr> \<and> pw_iors st' key = Some (mapper_ior env)
    \<and> lorica_ior default_settings = Some (''corbaloc::'' @ host @ '':'' @ dec_text (uint port) @ ''/'' @ key)"
proof -
  have "endpoint_text os src False = ''localhost:4080''" using assms(5) by (simp add: endpoint_text_def)
  then have p: "parse_all os False (address_list (endpoint_text os src False)) [] k1 = Ok (True, [sample_int], k1)"
    by (simp add: parse_default_inside)
  obtain st' where "configure env os src d self st = Some (Ok (), st')"
    "pw_inside st' = Some \<lparr>pm_endpoints = map policy_endpoint [sample_int], pm_active = True\<rparr>"
    "pw_iors st' IOR_TABLE_KEY = Some (mapper_ior env)"
    using configure_ok [OF assms(1-4,6) p _ assms(7-11)] by blast
  moreover have "map policy_endpoint [sample_int] = [(''localhost'', 4080)]"
    by (simp add: policy_endpoint_def sample_int_def c_str_def)
  moreover have "dec_text (uint (4080 :: 16 word)) = ''4080''" by code_simp
  then have "lorica_ior default_settings = Some (''corbaloc::'' @ ''localhost'' @ '':'' @ dec_text (uint (4080 :: 16 word)) @ ''/'' @ IOR_TABLE_KEY)"
    by (simp add: default_settings_def IOR_TABLE_KEY_def)
  ultimately show ?thesis by auto
qed

theorem default_address_agrees_witness:
  "\<exists>st' host port key. configure sample_proxy_env sample_env (file_source sample_hash sample_fcfg) ''lorica.ior'' 7
       (sample_world\<lparr>pw_proxies := [7 \<mapsto> new_proxy False]\<rparr>) = Some (Ok (), st')
    \<and> pw_inside st' = Some \<lparr>pm_endpoints = [(host, port)], pm_active = True\<rparr> \<and> pw_iors st' key = Some ''IOR:1''
    \<and> lorica_ior default_settings = Some (''corbaloc::'' @ host @ '':'' @ dec_text (uint port) @ ''/'' @ key)"
proof -
  let ?src = "file_source sample_hash sample_fcfg" and ?w = "sample_world\<lparr>pw_proxies := [7 \<mapsto> new_proxy False]\<rparr>"
  have w: "pw_proxies ?w 7 = Some (new_proxy False)" "orb_args (pw_config ?w) = []" "cfg_endpoints (pw_config ?w) = []" "pw_query ?w = 0"
    "reg_ok {} [] [] [] (pw_registry ?w)" "\<not> mappers_ready (fst (pw_registry ?w))"
    by (simp_all add: sample_world_def fresh_config_def reg_ok_def new_registry_def reg_init_def)
  have v: "cs_value ?src ''Internal_Address'' [] = []" "writable sample_proxy_env (c_str (cs_value ?src ''IOR_FILE'' ''lorica.ior''))"
    "mapper_ior sample_proxy_env = ''IOR:1''"
    by (simp_all add: sample_default_endpoints(3) sample_proxy_env_def c_str_def)
  from default_address_agrees [OF sample_good_env w(1-3) v(1) _ v(2) w(5,6), of sample_env "[sample_gate]" 0] w(4) sample_default_endpoints(1)
  show ?thesis unfolding v(3) by simp
qed

end
